(* ===== verification/Prelude.thy ===== *)
theory Prelude
  imports Main "HOL-Library.Word" "HOL-Library.Monad_Syntax" "HOL-Library.While_Combinator"
begin

text \<open>
  What every component of the development shares: the names of the machine integers of the C
  sources, the collections its automation uses, C's truncating division, the sequencing of
  fallible steps over a list, and the list and word lemmas the component proofs rest on.

  A value of type \<open>'a option\<close> returned by an operation is \<open>None\<close> exactly where the C code
  would read or write outside the object it addresses (undefined behaviour).  Where a loop of
  the source may not return at all, the result carries a second, outer \<open>option\<close>, and there
  \<open>None\<close> means that the loop runs forever.
\<close>

unbundle bit_operations_syntax

type_synonym u8 = "8 word"
type_synonym u16 = "16 word"
type_synonym u32 = "32 word"
type_synonym u64 = "64 word"

named_theorems bounds_simps \<open>the constants of the headers, unfolded for arithmetic goals\<close>
named_theorems step_simps \<open>one-step behaviour of the operations\<close>

text \<open>Division of the C language on signed operands truncates towards zero.\<close>

definition c_div :: "int \<Rightarrow> int \<Rightarrow> int" where
  "c_div a b = sgn a * sgn b * (\<bar>a\<bar> div \<bar>b\<bar>)"

lemma c_div_nonneg: "0 \<le> a \<Longrightarrow> 0 \<le> b \<Longrightarrow> c_div a b = a div b"
  by (cases "a = 0"; cases "b = 0") (auto simp: c_div_def sgn_if)

text \<open>
  Running a fallible operation over a list of arguments, stopping at the first failure: the
  shape of every counted \<open>for\<close> loop whose body may leave its array.
\<close>

fun iter_opt :: "('a \<Rightarrow> 's \<Rightarrow> 's option) \<Rightarrow> 'a list \<Rightarrow> 's \<Rightarrow> 's option" where
  "iter_opt f [] s = Some s"
| "iter_opt f (x # xs) s = Option.bind (f x s) (iter_opt f xs)"

lemma iter_opt_append:
  "iter_opt f (xs @ ys) s = Option.bind (iter_opt f xs s) (iter_opt f ys)"
  by (induction xs arbitrary: s) (auto split: Option.bind_splits)

lemma iter_opt_inv:
  assumes "\<And>x s. x \<in> set xs \<Longrightarrow> I s \<Longrightarrow> \<exists>s'. f x s = Some s' \<and> I s'" and "I s"
  shows "\<exists>s'. iter_opt f xs s = Some s' \<and> I s'"
  using assms
proof (induction xs arbitrary: s)
  case (Cons x xs)
  then obtain s1 where "f x s = Some s1" "I s1" by (metis list.set_intros(1))
  with Cons show ?case by (metis iter_opt.simps(2) list.set_intros(2) Option.bind.bind_lunit)
qed simp

lemma iter_opt_map: "iter_opt f (map g xs) = iter_opt (\<lambda>x. f (g x)) xs"
proof
  show "iter_opt f (map g xs) s = iter_opt (\<lambda>x. f (g x)) xs s" for s
    by (induction xs arbitrary: s) (auto split: Option.bind_splits)
qed

lemma iter_opt_concat: "iter_opt f (concat xss) s = iter_opt (iter_opt f) xss s"
  by (induction xss arbitrary: s) (auto simp: iter_opt_append split: Option.bind_splits)

lemma iter_opt_cong:
  "(\<And>x s. x \<in> set xs \<Longrightarrow> f x s = g x s) \<Longrightarrow> iter_opt f xs s = iter_opt g xs s"
  by (induction xs arbitrary: s) (auto split: Option.bind_splits)

text \<open>Words: reading results of arithmetic that does not wrap.\<close>

lemma unat_of_nat_small: "n < 2 ^ LENGTH('a) \<Longrightarrow> unat (of_nat n :: 'a :: len word) = n"
  by (simp add: unat_of_nat take_bit_nat_eq_self)

lemma of_int_nat_word: "0 \<le> i \<Longrightarrow> (of_int i :: 'a :: len word) = of_nat (nat i)"
  by simp

lemma u8_less_128_unat: "unat (c :: u8) < 128 \<longleftrightarrow> c < 128"
  by (simp add: word_less_nat_alt)

end
