(* ===== verification/FrameBuffer.thy ===== *)
theory FrameBuffer
  imports Font
begin

text \<open>
  The framebuffer character generator, \<open>src/lab2/fbputchar.c\<close>.  The globals \<open>fb_vinfo\<close>,
  \<open>fb_finfo\<close> and the mapped memory \<open>framebuffer\<close> are the record \<open>fb\<close>; memory is addressed
  by the byte offset from the start of the mapping, and an access at or past \<open>smem_len\<close> is
  \<open>None\<close>.  The offset arithmetic is the C code's: unsigned, 32 bits wide, wrapping.
  \<open>char\<close> is unsigned, as on the ARM target.

  The lemmas give each drawing operation in closed form, then show that on a screen that holds
  the 24 by 64 cells of the program every cell drawn shows its glyph and no other byte changes.
  The last section states that contract as the interface \<open>char_screen\<close>, which the display
  component relies on.
\<close>

record fb =
  xres :: u32
  yres :: u32
  xoffset :: u32
  yoffset :: u32
  bits_per_pixel :: u32
  smem_len :: u32
  line_length :: u32
  mem :: "nat \<Rightarrow> u8"

definition FONT_WIDTH :: int where "FONT_WIDTH = 8"
definition FONT_HEIGHT :: int where "FONT_HEIGHT = 16"
definition BITS_PER_PIXEL :: u32 where "BITS_PER_PIXEL = 32"

lemmas fb_consts [bounds_simps] = FONT_WIDTH_def FONT_HEIGHT_def BITS_PER_PIXEL_def

subsection \<open>Opening the device\<close>

text \<open>
  The operating system is a parameter: what \<open>open\<close>, the two \<open>ioctl\<close> requests and \<open>mmap\<close>
  answer.  \<open>None\<close> is the error return of the call.
\<close>

record fb_os =
  os_open :: "int option"
  os_fscreeninfo :: "int \<Rightarrow> (u32 \<times> u32) option"
  os_vscreeninfo :: "int \<Rightarrow> (u32 \<times> u32 \<times> u32 \<times> u32 \<times> u32) option"
  os_mmap :: "int \<Rightarrow> u32 \<Rightarrow> (nat \<Rightarrow> u8) option"

definition FBOPEN_DEV :: int where "FBOPEN_DEV = -1"
definition FBOPEN_FSCREENINFO :: int where "FBOPEN_FSCREENINFO = -2"
definition FBOPEN_VSCREENINFO :: int where "FBOPEN_VSCREENINFO = -3"
definition FBOPEN_MMAP :: int where "FBOPEN_MMAP = -4"
definition FBOPEN_BPP :: int where "FBOPEN_BPP = -5"

lemmas fbopen_codes [bounds_simps] =
  FBOPEN_DEV_def FBOPEN_FSCREENINFO_def FBOPEN_VSCREENINFO_def FBOPEN_MMAP_def FBOPEN_BPP_def

definition fbopen :: "fb_os \<Rightarrow> fb \<Rightarrow> int \<times> fb" where
  "fbopen os s =
     (case os_open os of
        None \<Rightarrow> (FBOPEN_DEV, s)
      | Some fd \<Rightarrow>
        (case os_fscreeninfo os fd of
           None \<Rightarrow> (FBOPEN_FSCREENINFO, s)
         | Some (len, ll) \<Rightarrow>
           (let s = s\<lparr>smem_len := len, line_length := ll\<rparr> in
            case os_vscreeninfo os fd of
              None \<Rightarrow> (FBOPEN_VSCREENINFO, s)
            | Some (xr, yr, xo, yo, bpp) \<Rightarrow>
              (let s = s\<lparr>xres := xr, yres := yr, xoffset := xo, yoffset := yo,
                         bits_per_pixel := bpp\<rparr> in
               if bits_per_pixel s \<noteq> 32 then (FBOPEN_BPP, s)
               else case os_mmap os fd (smem_len s) of
                      None \<Rightarrow> (FBOPEN_MMAP, s)
                    | Some m \<Rightarrow> (0, s\<lparr>mem := m\<rparr>)))))"

subsection \<open>Writing pixels\<close>

definition poke :: "nat \<Rightarrow> u8 \<Rightarrow> fb \<Rightarrow> fb option" where
  "poke a v s = (if a < unat (smem_len s) then Some (s\<lparr>mem := (mem s)(a := v)\<rparr>) else None)"

definition put_pixel :: "nat \<Rightarrow> bool \<Rightarrow> fb \<Rightarrow> fb option" where
  "put_pixel p on s =
     (let v = (if on then 255 else 0) in
      do { s \<leftarrow> poke p v s; s \<leftarrow> poke (p + 1) v s; s \<leftarrow> poke (p + 2) v s; poke (p + 3) 0 s })"

fun fbclear_cols :: "nat \<Rightarrow> nat \<Rightarrow> fb \<Rightarrow> fb option" where
  "fbclear_cols 0 pixel s = Some s"
| "fbclear_cols (Suc n) pixel s =
     do { s \<leftarrow> put_pixel pixel False s; fbclear_cols n (pixel + 4) s }"

fun fbclear_rows :: "nat \<Rightarrow> u32 \<Rightarrow> fb \<Rightarrow> fb option" where
  "fbclear_rows 0 y s = Some s"
| "fbclear_rows (Suc n) y s =
     do { s \<leftarrow> fbclear_cols (unat (xres s))
                 (unat ((y + yoffset s) * line_length s) + unat (xoffset s * (BITS_PER_PIXEL div 8))) s;
          fbclear_rows n (y + 1) s }"

definition fbclear :: "fb \<Rightarrow> fb option" where
  "fbclear s = fbclear_rows (unat (yres s)) 0 s"

fun putchar_cols :: "nat \<Rightarrow> u8 \<Rightarrow> u8 \<Rightarrow> nat \<Rightarrow> fb \<Rightarrow> fb option" where
  "putchar_cols 0 pixels msk pixel s = Some s"
| "putchar_cols (Suc n) pixels msk pixel s =
     do { s \<leftarrow> put_pixel pixel (pixels AND msk \<noteq> 0) s;
          s \<leftarrow> put_pixel (pixel + 4) (pixels AND msk \<noteq> 0) s;
          putchar_cols n pixels (drop_bit 1 msk) (pixel + 8) s }"

fun putchar_rows :: "nat \<Rightarrow> nat \<Rightarrow> nat \<Rightarrow> nat \<Rightarrow> fb \<Rightarrow> fb option" where
  "putchar_rows 0 y pixelp left s = Some s"
| "putchar_rows (Suc n) y pixelp left s =
     do { pixels \<leftarrow> font_at pixelp;
          s \<leftarrow> putchar_cols (nat FONT_WIDTH) pixels 0x80 left s;
          putchar_rows n (Suc y) (if odd y then Suc pixelp else pixelp)
            (left + unat (line_length s)) s }"

definition cell_base :: "fb \<Rightarrow> int \<Rightarrow> int \<Rightarrow> nat" where
  "cell_base s row col =
     unat ((of_int (row * FONT_HEIGHT * 2) + yoffset s) * line_length s) +
     unat ((of_int (col * FONT_WIDTH * 2) + xoffset s) * BITS_PER_PIXEL div 8)"

definition fbputchar :: "u8 \<Rightarrow> int \<Rightarrow> int \<Rightarrow> fb \<Rightarrow> fb option" where
  "fbputchar c row col s =
     putchar_rows (nat (FONT_HEIGHT * 2)) 0 (nat FONT_HEIGHT * unat c) (cell_base s row col) s"

fun fbputs :: "u8 list \<Rightarrow> int \<Rightarrow> int \<Rightarrow> fb \<Rightarrow> fb option" where
  "fbputs [] row col s = None"
| "fbputs (c # cs) row col s =
     (if c = 0 then Some s
      else do { s \<leftarrow> fbputchar c row col s; fbputs cs row (col + 1) s })"

definition fb_draw_line_divider :: "u8 \<Rightarrow> int \<Rightarrow> fb \<Rightarrow> fb option" where
  "fb_draw_line_divider c row s = iter_opt (\<lambda>col. fbputchar c row (int col)) [0..<64] s"

definition fb_init_screen :: "fb \<Rightarrow> fb option" where
  "fb_init_screen s = do { s \<leftarrow> fbclear s; fb_draw_line_divider 0x2d 21 s }"

subsection \<open>The drawing loops in closed form\<close>

definition px_byte :: "bool \<Rightarrow> nat \<Rightarrow> u8" where
  "px_byte on k = (if on \<and> k < 3 then 255 else 0)"

lemma put_pixel_eq:
  assumes "p + 4 \<le> unat (smem_len s)"
  shows "put_pixel p on s =
    Some (s\<lparr>mem := \<lambda>a. if p \<le> a \<and> a < p + 4 then px_byte on (a - p) else mem s a\<rparr>)"
proof -
  have *: "a = p \<or> a = p + 1 \<or> a = p + 2 \<or> a = p + 3" if "p \<le> a" "a < p + 4" for a
    using that by linarith
  show ?thesis
    using assms
    by (auto simp: put_pixel_def poke_def Let_def px_byte_def fun_eq_iff dest!: *)
qed

lemma mem_update_ext: "(\<And>a. f a = g a) \<Longrightarrow> s\<lparr>mem := f\<rparr> = s\<lparr>mem := g\<rparr>"
  by (simp add: ext [of f g])

lemma mem_update_id: "(\<And>a. f a = mem s a) \<Longrightarrow> s = s\<lparr>mem := f\<rparr>"
  by (cases s) (simp add: fun_eq_iff)

lemma putchar_cols_eq:
  "p + 8 * n \<le> unat (smem_len s) \<Longrightarrow> putchar_cols n pixels m p s =
    Some (s\<lparr>mem := \<lambda>a. if p \<le> a \<and> a < p + 8 * n
                        then px_byte (pixels AND drop_bit ((a - p) div 8) m \<noteq> 0) ((a - p) mod 4)
                        else mem s a\<rparr>)"
proof (induction n arbitrary: p m s)
  case (Suc n)
  have shift: "Suc ((a - (p + 8)) div 8) = (a - p) div 8"
    and byte: "(a - (p + 8)) mod 4 = (a - p) mod 4" if "p + 8 \<le> a" for a
  proof -
    from that obtain d where d: "a = p + 8 + d" using nat_le_iff_add by auto
    show "Suc ((a - (p + 8)) div 8) = (a - p) div 8"
      using div_add_self2 [of 8 d] by (simp add: d ac_simps)
    show "(a - (p + 8)) mod 4 = (a - p) mod 4"
      by (simp add: d) presburger
  qed
  have low: "(a - p) div 8 = 0" if "a < p + 8" for a
    using that by simp
  have lo4: "(a - p) mod 4 = a - p" if "a < p + 4" for a
    using that by simp
  have hi4: "(a - p) mod 4 = a - (p + 4)" if "p + 4 \<le> a" "a < p + 8" for a
  proof -
    from that have "a - p = a - (p + 4) + 4" "a - (p + 4) < 4" by linarith+
    then show ?thesis by (metis mod_add_self2 mod_less)
  qed
  show ?case
    using Suc.prems
    by (simp add: put_pixel_eq Suc.IH)
      (rule mem_update_ext, auto simp: shift byte low lo4 hi4)
next
  case 0
  show ?case by (simp, rule mem_update_id) auto
qed

lemma and_mask_bit:
  assumes "j < 8"
  shows "pixels AND drop_bit j 0x80 \<noteq> (0 :: u8) \<longleftrightarrow> bit pixels (7 - j)"
proof -
  have "\<forall>j \<in> {..<8}. drop_bit j (0x80 :: u8) = push_bit (7 - j) 1"
    by (simp add: lessThan_nat_numeral lessThan_Suc drop_bit_eq_div push_bit_eq_mult)
  with assms have "drop_bit j (0x80 :: u8) = push_bit (7 - j) 1" by simp
  then show ?thesis
    by (simp add: and_exp_eq_0_iff_not_bit push_bit_eq_mult)
qed

lemma putchar_rows_eq:
  assumes "L = unat (line_length s)" and "64 \<le> L"
    and "n = 0 \<or> left + (n - 1) * L + 64 \<le> unat (smem_len s)"
    and "n = 0 \<or> pp + (y mod 2 + (n - 1)) div 2 < 2048"
  shows "putchar_rows n y pp left s =
    Some (s\<lparr>mem := \<lambda>a.
      if left \<le> a \<and> (a - left) div L < n \<and> (a - left) mod L < 64
      then px_byte (bit (font ! (pp + (y mod 2 + (a - left) div L) div 2))
                        (7 - (a - left) mod L div 8)) ((a - left) mod L mod 4)
      else mem s a\<rparr>)"
  using assms
proof (induction n arbitrary: y pp left s)
  case (Suc n)
  let ?pp = "if odd y then Suc pp else pp"
  let ?s1 = "s\<lparr>mem := \<lambda>a. if left \<le> a \<and> a < left + 64
      then px_byte (bit (font ! pp) (7 - (a - left) div 8)) ((a - left) mod 4) else mem s a\<rparr>"
  have cols: "putchar_cols 8 (font ! pp) 0x80 left s = Some ?s1"
    using Suc.prems
    by (subst putchar_cols_eq) (auto intro!: mem_update_ext simp: and_mask_bit)
  have pp: "pp < 2048" using Suc.prems(4) by simp
  have par: "?pp + (Suc y mod 2 + i) div 2 = pp + (y mod 2 + Suc i) div 2" for i
    by (cases "odd y") (auto simp: mod_2_eq_odd)
  have rest: "putchar_rows n (Suc y) ?pp (left + L) ?s1 =
    Some (?s1\<lparr>mem := \<lambda>a.
      if left + L \<le> a \<and> (a - (left + L)) div L < n \<and> (a - (left + L)) mod L < 64
      then px_byte (bit (font ! (?pp + (Suc y mod 2 + (a - (left + L)) div L) div 2))
                        (7 - (a - (left + L)) mod L div 8)) ((a - (left + L)) mod L mod 4)
      else mem ?s1 a\<rparr>)"
  proof (rule Suc.IH)
    show "n = 0 \<or> left + L + (n - 1) * L + 64 \<le> unat (smem_len ?s1)"
      using Suc.prems(3) by (cases n) (auto simp: algebra_simps)
    show "n = 0 \<or> ?pp + (Suc y mod 2 + (n - 1)) div 2 < 2048"
      using Suc.prems(4) par [of "n - 1"] by (cases n) auto
  qed (use Suc.prems in auto)
  have step: "(a - left) div L = Suc ((a - (left + L)) div L)"
    "(a - left) mod L = (a - (left + L)) mod L" if "left + L \<le> a" for a
  proof -
    from that obtain d where "a = left + L + d" using nat_le_iff_add by auto
    then show "(a - left) div L = Suc ((a - (left + L)) div L)"
      "(a - left) mod L = (a - (left + L)) mod L"
      using Suc.prems(2) div_add_self1 [of L d] by simp_all
  qed
  have first: "(a - left) div L = 0" "(a - left) mod L = a - left" if "a < left + L" "left \<le> a" for a
    using that by auto
  have "putchar_rows (Suc n) y pp left s = putchar_rows n (Suc y) ?pp (left + L) ?s1"
    using Suc.prems(1) pp cols by (simp add: font_at_eq FONT_WIDTH_def)
  also note rest [unfolded par]
  finally have eq: "putchar_rows (Suc n) y pp left s =
    Some (s\<lparr>mem := \<lambda>a.
      if left + L \<le> a \<and> (a - (left + L)) div L < n \<and> (a - (left + L)) mod L < 64
      then px_byte (bit (font ! (pp + (y mod 2 + Suc ((a - (left + L)) div L)) div 2))
                        (7 - (a - (left + L)) mod L div 8)) ((a - (left + L)) mod L mod 4)
      else mem ?s1 a\<rparr>)" by simp
  show ?case
    unfolding eq option.inject
  proof (rule mem_update_ext)
    fix a
    show "(if left + L \<le> a \<and> (a - (left + L)) div L < n \<and> (a - (left + L)) mod L < 64
      then px_byte (bit (font ! (pp + (y mod 2 + Suc ((a - (left + L)) div L)) div 2))
                        (7 - (a - (left + L)) mod L div 8)) ((a - (left + L)) mod L mod 4)
      else mem ?s1 a) =
      (if left \<le> a \<and> (a - left) div L < Suc n \<and> (a - left) mod L < 64
      then px_byte (bit (font ! (pp + (y mod 2 + (a - left) div L) div 2))
                        (7 - (a - left) mod L div 8)) ((a - left) mod L mod 4)
      else mem s a)"
      using Suc.prems(2) by (cases "left + L \<le> a") (auto simp: step first)
  qed
next
  case 0
  show ?case by simp
qed

subsection \<open>Cells of the text screen\<close>

text \<open>
  \<open>screen_fits\<close>: the mapped memory holds the 24 rows and 64 columns of character cells the
  program uses (1024 by 768 pixels at the visible offset).
\<close>

definition screen_fits :: "fb \<Rightarrow> bool" where
  "screen_fits s \<longleftrightarrow>
     4 * (64 * 16 + unat (xoffset s)) \<le> unat (line_length s) \<and>
     unat (line_length s) * (24 * 32 + unat (yoffset s)) \<le> unat (smem_len s)"

definition cell_addr :: "fb \<Rightarrow> int \<Rightarrow> int \<Rightarrow> nat \<Rightarrow> nat \<Rightarrow> nat" where
  "cell_addr s row col y j =
     (nat row * 32 + unat (yoffset s) + y) * unat (line_length s) +
     (nat col * 64 + 4 * unat (xoffset s) + j)"

definition glyph_byte :: "u8 \<Rightarrow> nat \<Rightarrow> nat \<Rightarrow> u8" where
  "glyph_byte c y j = px_byte (bit (font ! (16 * unat c + y div 2)) (7 - j div 8)) (j mod 4)"

definition shows_char :: "fb \<Rightarrow> int \<Rightarrow> int \<Rightarrow> u8 \<Rightarrow> bool" where
  "shows_char s row col c \<longleftrightarrow>
     (\<forall>y < 32. \<forall>j < 64. mem s (cell_addr s row col y j) = glyph_byte c y j)"

definition on_screen :: "int \<Rightarrow> int \<Rightarrow> bool" where
  "on_screen row col \<longleftrightarrow> 0 \<le> row \<and> row < 24 \<and> 0 \<le> col \<and> col < 64"

lemma cell_base_eq:
  assumes "screen_fits s" and "on_screen row col"
  shows "cell_base s row col = cell_addr s row col 0 0"
proof -
  let ?L = "unat (line_length s)"
  obtain r c where rc: "row = int r" "col = int c" "r < 24" "c < 64"
    using assms(2) by (metis on_screen_def nat_0_le nat_less_iff of_nat_numeral zero_le_numeral)
  have L: "4 * (64 * 16 + unat (xoffset s)) \<le> ?L"
    and M: "?L * (24 * 32 + unat (yoffset s)) \<le> unat (smem_len s)"
    using assms(1) by (auto simp: screen_fits_def)
  have S: "unat (smem_len s) < 4294967296" using unsigned_less [of "smem_len s"] by simp
  have A: "(r * 32 + unat (yoffset s)) * ?L < 4294967296"
  proof -
    have "(r * 32 + unat (yoffset s)) * ?L \<le> ?L * (24 * 32 + unat (yoffset s))"
      using rc(3) by (simp add: mult.commute)
    then show ?thesis using M S by linarith
  qed
  have "24 * 32 * ?L \<le> ?L * (24 * 32 + unat (yoffset s))"
    by (simp add: algebra_simps)
  then have B: "?L * 768 < 4294967296" using M S by linarith
  have C: "(c * 16 + unat (xoffset s)) * 32 < 4294967296"
    using L B rc(4) by (simp add: algebra_simps)
  have Y: "r * 32 + unat (yoffset s) < 4294967296"
  proof -
    have L1: "1 \<le> ?L" using L by simp
    have "r * 32 + unat (yoffset s) \<le> (r * 32 + unat (yoffset s)) * ?L"
      using mult_le_mono2 [OF L1, of "r * 32 + unat (yoffset s)"] by (simp only: mult_1_right)
    then show ?thesis using A by (rule le_less_trans)
  qed
  have "unat ((of_int (row * FONT_HEIGHT * 2) + yoffset s) * line_length s) =
      (r * 32 + unat (yoffset s)) * ?L"
    using A Y rc by (simp add: fb_consts unat_word_ariths unat_of_nat mult.commute [of _ 32])
  moreover have "unat ((of_int (col * FONT_WIDTH * 2) + xoffset s) * BITS_PER_PIXEL div 8) =
      (c * 16 + unat (xoffset s)) * 4"
    using C rc by (simp add: fb_consts unat_word_ariths unat_of_nat unat_div)
  ultimately show ?thesis
    by (simp add: cell_base_def cell_addr_def rc)
qed

lemma cell_addr_div_mod:
  assumes "screen_fits s" and "on_screen row col" and "j < 64"
  shows "cell_addr s row col y j div unat (line_length s) = nat row * 32 + unat (yoffset s) + y"
    and "cell_addr s row col y j mod unat (line_length s) = nat col * 64 + 4 * unat (xoffset s) + j"
proof -
  have "nat col * 64 + 4 * unat (xoffset s) + j < unat (line_length s)"
    using assms by (simp add: screen_fits_def on_screen_def) linarith
  then show "cell_addr s row col y j div unat (line_length s) = nat row * 32 + unat (yoffset s) + y"
    "cell_addr s row col y j mod unat (line_length s) = nat col * 64 + 4 * unat (xoffset s) + j"
    by (simp_all add: cell_addr_def)
qed

lemma grid_unique:
  assumes "a * k + y = b * k + (y' :: nat)" and "y < k" and "y' < k"
  shows "a = b \<and> y = y'"
proof -
  have "(a * k + y) div k = a" "(b * k + y') div k = b" using assms(2,3) by auto
  with assms(1) show ?thesis by auto
qed

text \<open>Different pixels of the text screen have different addresses.\<close>

lemma cell_addr_inj:
  assumes "screen_fits s" and "on_screen row col" and "on_screen row' col'"
    and "y < 32" and "y' < 32" and "j < 64" and "j' < 64"
    and "cell_addr s row col y j = cell_addr s row' col' y' j'"
  shows "row = row' \<and> col = col' \<and> y = y' \<and> j = j'"
proof -
  have "nat row * 32 + y = nat row' * 32 + y'" "nat col * 64 + j = nat col' * 64 + j'"
    using cell_addr_div_mod [OF assms(1,2,6), of y] cell_addr_div_mod [OF assms(1,3,7), of y'] assms(8)
    by simp_all
  then have "nat row = nat row' \<and> y = y'" "nat col = nat col' \<and> j = j'"
    using assms(4-7) grid_unique [of "nat row" 32] grid_unique [of "nat col" 64] by blast+
  then show ?thesis
    using assms(2,3) by (auto simp: on_screen_def)
qed

lemma cell_offset:
  "a = cell_addr s row col 0 0 + y * unat (line_length s) + j \<longleftrightarrow> a = cell_addr s row col y j"
  by (simp add: cell_addr_def algebra_simps)

text \<open>
  Drawing a character in closed form: the bytes of its cell become the glyph, doubled in both
  directions; every other byte is as before.
\<close>

lemma fbputchar_eq:
  assumes fits: "screen_fits s" and on: "on_screen row col" and c: "c < 128"
  shows "\<exists>m. fbputchar c row col s = Some (s\<lparr>mem := m\<rparr>) \<and>
    (\<forall>y < 32. \<forall>j < 64. m (cell_addr s row col y j) = glyph_byte c y j) \<and>
    (\<forall>a. (\<forall>y < 32. \<forall>j < 64. a \<noteq> cell_addr s row col y j) \<longrightarrow> m a = mem s a)"
proof -
  let ?L = "unat (line_length s)" and ?b = "cell_addr s row col 0 0"
  let ?m = "\<lambda>a. if ?b \<le> a \<and> (a - ?b) div ?L < 32 \<and> (a - ?b) mod ?L < 64
      then glyph_byte c ((a - ?b) div ?L) ((a - ?b) mod ?L) else mem s a"
  have c': "unat c < 128" using c by (simp add: word_less_nat_alt)
  have L: "4096 \<le> ?L" using fits by (simp add: screen_fits_def)
  have room: "?b + 31 * ?L + 64 \<le> unat (smem_len s)"
  proof -
    have "?b + 31 * ?L + 64 \<le> (nat row * 32 + unat (yoffset s) + 32) * ?L"
      using fits on by (simp add: cell_addr_def screen_fits_def on_screen_def algebra_simps) linarith
    also have "\<dots> \<le> (24 * 32 + unat (yoffset s)) * ?L"
      using on by (intro mult_le_mono1) (auto simp: on_screen_def)
    finally show ?thesis using fits by (simp add: screen_fits_def mult.commute)
  qed
  have eq: "fbputchar c row col s = Some (s\<lparr>mem := ?m\<rparr>)"
    unfolding fbputchar_def cell_base_eq [OF fits on] fb_consts
    using L room c' by (subst putchar_rows_eq [OF refl]) (auto simp: glyph_byte_def intro!: mem_update_ext)
  have in_cell: "?m (cell_addr s row col y j) = glyph_byte c y j" if "y < 32" "j < 64" for y j
  proof -
    have "cell_addr s row col y j = ?b + (y * ?L + j)" by (simp add: cell_addr_def algebra_simps)
    moreover have "(y * ?L + j) div ?L = y" "(y * ?L + j) mod ?L = j" using that L by auto
    ultimately show ?thesis using that by simp
  qed
  have frame: "?m a = mem s a" if "\<forall>y < 32. \<forall>j < 64. a \<noteq> cell_addr s row col y j" for a
  proof -
    have "\<not> (?b \<le> a \<and> (a - ?b) div ?L < 32 \<and> (a - ?b) mod ?L < 64)"
    proof
      assume *: "?b \<le> a \<and> (a - ?b) div ?L < 32 \<and> (a - ?b) mod ?L < 64"
      then have "a = cell_addr s row col ((a - ?b) div ?L) ((a - ?b) mod ?L)"
        by (subst cell_offset [symmetric]) simp
      with that * show False by blast
    qed
    then show ?thesis by (simp only: if_False)
  qed
  show ?thesis using eq in_cell frame by (intro exI [of _ ?m]) blast
qed

subsection \<open>The contract of a character screen\<close>

text \<open>
  What the display component relies on: a write to a cell on the screen succeeds, shows the
  character there, keeps the screen usable and leaves what every other cell shows alone.
  \<open>draw\<close> runs a list of cell writes; the lemmas say what a whole list of them leaves.
\<close>

type_synonym cell_write = "u8 \<times> int \<times> int"

definition draw :: "(u8 \<Rightarrow> int \<Rightarrow> int \<Rightarrow> 's \<Rightarrow> 's option) \<Rightarrow> cell_write list \<Rightarrow> 's \<Rightarrow> 's option" where
  "draw putc = iter_opt (\<lambda>(c, row, col). putc c row col)"

definition writes_ok :: "cell_write list \<Rightarrow> bool" where
  "writes_ok ws \<longleftrightarrow> (\<forall>(c, row, col) \<in> set ws. c < 128 \<and> on_screen row col)"

definition last_write :: "cell_write list \<Rightarrow> int \<Rightarrow> int \<Rightarrow> u8 option" where
  "last_write ws row col = map_of (map (\<lambda>(c, r, k). ((r, k), c)) (rev ws)) (row, col)"

lemma draw_Nil [simp]: "draw putc [] s = Some s"
  by (simp add: draw_def)

lemma draw_Cons [simp]: "draw putc ((c, row, col) # ws) s = Option.bind (putc c row col s) (draw putc ws)"
  by (simp add: draw_def)

lemma draw_append: "draw putc (ws @ vs) s = Option.bind (draw putc ws s) (draw putc vs)"
  by (simp add: draw_def iter_opt_append)

lemma writes_ok_simps [simp]:
  "writes_ok []"
  "writes_ok ((c, row, col) # ws) \<longleftrightarrow> c < 128 \<and> on_screen row col \<and> writes_ok ws"
  "writes_ok (ws @ vs) \<longleftrightarrow> writes_ok ws \<and> writes_ok vs"
  by (auto simp: writes_ok_def ball_Un)

lemma last_write_Nil [simp]: "last_write [] row col = None"
  by (simp add: last_write_def)

lemma last_write_Cons [simp]:
  "last_write ((c, r, k) # ws) row col =
     (case last_write ws row col of
        Some d \<Rightarrow> Some d
      | None \<Rightarrow> if row = r \<and> col = k then Some c else None)"
  by (auto simp: last_write_def map_add_def split: option.splits)

locale char_screen =
  fixes putc :: "u8 \<Rightarrow> int \<Rightarrow> int \<Rightarrow> 's \<Rightarrow> 's option"
    and shows_at :: "'s \<Rightarrow> int \<Rightarrow> int \<Rightarrow> u8 \<Rightarrow> bool"
    and usable :: "'s \<Rightarrow> bool"
  assumes putc_ok:
    "usable s \<Longrightarrow> on_screen row col \<Longrightarrow> c < 128 \<Longrightarrow>
       \<exists>s'. putc c row col s = Some s' \<and> usable s' \<and> shows_at s' row col c"
    and putc_frame:
    "usable s \<Longrightarrow> on_screen row col \<Longrightarrow> c < 128 \<Longrightarrow> putc c row col s = Some s' \<Longrightarrow>
       on_screen row' col' \<Longrightarrow> (row', col') \<noteq> (row, col) \<Longrightarrow>
       shows_at s' row' col' d = shows_at s row' col' d"
begin

lemma draw_ok:
  "usable s \<Longrightarrow> writes_ok ws \<Longrightarrow>
    \<exists>s'. draw putc ws s = Some s' \<and> usable s' \<and>
      (\<forall>row col d. on_screen row col \<longrightarrow>
        (case last_write ws row col of
           Some c \<Rightarrow> shows_at s' row col c
         | None \<Rightarrow> shows_at s' row col d = shows_at s row col d))"
proof (induction ws arbitrary: s)
  case (Cons w ws)
  obtain c r k where w: "w = (c, r, k)" by (cases w)
  with Cons.prems have ck: "c < 128" "on_screen r k" "writes_ok ws" by auto
  obtain s1 where s1: "putc c r k s = Some s1" "usable s1" "shows_at s1 r k c"
    using putc_ok [OF Cons.prems(1) ck(2,1)] by blast
  have fr: "shows_at s1 row col d = shows_at s row col d"
    if "on_screen row col" "(row, col) \<noteq> (r, k)" for row col d
    using putc_frame [OF Cons.prems(1) ck(2,1) s1(1) that] .
  obtain s2 where s2: "draw putc ws s1 = Some s2" "usable s2"
    "\<forall>row col d. on_screen row col \<longrightarrow>
        (case last_write ws row col of
           Some c \<Rightarrow> shows_at s2 row col c
         | None \<Rightarrow> shows_at s2 row col d = shows_at s1 row col d)"
    using Cons.IH [OF s1(2) ck(3)] by blast
  have "case last_write (w # ws) row col of
          Some c \<Rightarrow> shows_at s2 row col c
        | None \<Rightarrow> shows_at s2 row col d = shows_at s row col d" if "on_screen row col" for row col d
    using s2(3) [rule_format, OF that] fr [OF that] s1(3)
    by (auto simp: w split: option.splits if_splits)
  with s1 s2 show ?case by (auto simp: w)
qed simp

lemma draw_total: "usable s \<Longrightarrow> writes_ok ws \<Longrightarrow> \<exists>s'. draw putc ws s = Some s' \<and> usable s'"
  using draw_ok by blast

lemma draw_shows:
  assumes "usable s" "writes_ok ws" "draw putc ws s = Some s'" "on_screen row col"
    "last_write ws row col = Some c"
  shows "shows_at s' row col c"
proof -
  have "case last_write ws row col of Some c \<Rightarrow> shows_at s' row col c
      | None \<Rightarrow> shows_at s' row col c = shows_at s row col c"
    using draw_ok [OF assms(1,2)] assms(3,4) by fastforce
  with assms(5) show ?thesis by simp
qed

lemma draw_frame:
  assumes "usable s" "writes_ok ws" "draw putc ws s = Some s'" "on_screen row col"
    "last_write ws row col = None"
  shows "shows_at s' row col d = shows_at s row col d"
proof -
  have "case last_write ws row col of Some c \<Rightarrow> shows_at s' row col c
      | None \<Rightarrow> shows_at s' row col d = shows_at s row col d"
    using draw_ok [OF assms(1,2)] assms(3,4) by fastforce
  with assms(5) show ?thesis by simp
qed

end

lemma screen_fits_mem [simp]: "screen_fits (s\<lparr>mem := m\<rparr>) = screen_fits s"
  by (simp add: screen_fits_def)

lemma cell_addr_mem [simp]: "cell_addr (s\<lparr>mem := m\<rparr>) = cell_addr s"
  by (simp add: cell_addr_def fun_eq_iff)

interpretation fbs: char_screen fbputchar shows_char screen_fits
proof unfold_locales
  fix s :: fb and row col and c :: u8
  assume *: "screen_fits s" "on_screen row col" "c < 128"
  obtain m where m: "fbputchar c row col s = Some (s\<lparr>mem := m\<rparr>)"
    "\<forall>y < 32. \<forall>j < 64. m (cell_addr s row col y j) = glyph_byte c y j"
    "\<forall>a. (\<forall>y < 32. \<forall>j < 64. a \<noteq> cell_addr s row col y j) \<longrightarrow> m a = mem s a"
    using fbputchar_eq [OF *] by blast
  then show "\<exists>s'. fbputchar c row col s = Some s' \<and> screen_fits s' \<and> shows_char s' row col c"
    using * by (auto simp: shows_char_def)
  fix row' col' d s'
  assume s': "fbputchar c row col s = Some s'" "on_screen row' col'" "(row', col') \<noteq> (row, col)"
  have "m (cell_addr s row' col' y' j') = mem s (cell_addr s row' col' y' j')"
    if "y' < 32" "j' < 64" for y' j'
    using that m(3) cell_addr_inj [OF *(1) s'(2) *(2)] s'(3) by blast
  then show "shows_char s' row' col' d = shows_char s row' col' d"
    using m(1) s'(1) by (simp add: shows_char_def)
qed

subsection \<open>Clearing and initialising the screen\<close>

lemma fbclear_cols_eq:
  "p + 4 * n \<le> unat (smem_len s) \<Longrightarrow> fbclear_cols n p s =
    Some (s\<lparr>mem := \<lambda>a. if p \<le> a \<and> a < p + 4 * n then 0 else mem s a\<rparr>)"
proof (induction n arbitrary: p s)
  case (Suc n)
  then show ?case
    by (simp add: put_pixel_eq) (rule mem_update_ext, auto simp: px_byte_def)
next
  case 0
  show ?case by (simp, rule mem_update_id) auto
qed

text \<open>\<open>visible_fits\<close>: the visible rectangle the kernel reports lies inside the mapping.\<close>

definition visible_fits :: "fb \<Rightarrow> bool" where
  "visible_fits s \<longleftrightarrow>
     4 * (unat (xres s) + unat (xoffset s)) \<le> unat (line_length s) \<and>
     unat (line_length s) * (unat (yres s) + unat (yoffset s)) \<le> unat (smem_len s)"

definition in_rows :: "fb \<Rightarrow> nat \<Rightarrow> nat \<Rightarrow> nat \<Rightarrow> bool" where
  "in_rows s y0 n a \<longleftrightarrow>
     (\<exists>y \<in> {y0..<y0 + n}. \<exists>j < 4 * unat (xres s).
        a = (y + unat (yoffset s)) * unat (line_length s) + (4 * unat (xoffset s) + j))"

lemma fbclear_row_base:
  assumes "visible_fits s" and "y < unat (yres s)"
  shows "unat ((of_nat y + yoffset s) * line_length s) + unat (xoffset s * (BITS_PER_PIXEL div 8)) =
           (y + unat (yoffset s)) * unat (line_length s) + 4 * unat (xoffset s)"
    and "(y + unat (yoffset s)) * unat (line_length s) + 4 * unat (xoffset s) + 4 * unat (xres s)
           \<le> unat (smem_len s)"
proof -
  let ?L = "unat (line_length s)"
  have S: "unat (smem_len s) < 4294967296" using unsigned_less [of "smem_len s"] by simp
  have "(y + unat (yoffset s) + 1) * ?L \<le> (unat (yres s) + unat (yoffset s)) * ?L"
    using assms(2) by (intro mult_le_mono1) simp
  then have M: "(y + unat (yoffset s)) * ?L + ?L \<le> unat (smem_len s)"
    using assms(1) by (simp add: visible_fits_def algebra_simps)
  then show "(y + unat (yoffset s)) * ?L + 4 * unat (xoffset s) + 4 * unat (xres s) \<le> unat (smem_len s)"
    using assms(1) by (simp add: visible_fits_def)
  have X: "4 * unat (xoffset s) < 4294967296"
    using M S assms(1) by (simp add: visible_fits_def)
  have x: "unat (xoffset s * (BITS_PER_PIXEL div 8)) = 4 * unat (xoffset s)"
    using X by (simp add: BITS_PER_PIXEL_def unat_word_ariths mult.commute)
  have "unat ((of_nat y + yoffset s) * line_length s) = (y + unat (yoffset s)) * ?L"
  proof (cases "?L = 0")
    case True
    then show ?thesis by (simp add: unsigned_eq_0_iff)
  next
    case False
    have "(y + unat (yoffset s)) * 1 \<le> (y + unat (yoffset s)) * ?L"
      using False by (intro mult_le_mono2) simp
    then have "y + unat (yoffset s) < 4294967296"
      using M S by (simp only: mult_1_right)
    moreover have "(y + unat (yoffset s)) * ?L < 4294967296" using M S by linarith
    ultimately show ?thesis by (simp add: unat_word_ariths unat_of_nat)
  qed
  with x show "unat ((of_nat y + yoffset s) * line_length s) + unat (xoffset s * (BITS_PER_PIXEL div 8)) =
           (y + unat (yoffset s)) * ?L + 4 * unat (xoffset s)" by simp
qed

lemma fbclear_rows_eq:
  assumes "visible_fits s" and "y0 + n \<le> unat (yres s)"
  shows "fbclear_rows n (of_nat y0) s = Some (s\<lparr>mem := \<lambda>a. if in_rows s y0 n a then 0 else mem s a\<rparr>)"
  using assms
proof (induction n arbitrary: y0 s)
  case (Suc n)
  let ?b = "(y0 + unat (yoffset s)) * unat (line_length s) + 4 * unat (xoffset s)"
  let ?s1 = "s\<lparr>mem := \<lambda>a. if ?b \<le> a \<and> a < ?b + 4 * unat (xres s) then 0 else mem s a\<rparr>"
  have y: "y0 < unat (yres s)" using Suc.prems(2) by simp
  have row: "in_rows s y0 (Suc n) a \<longleftrightarrow>
      (?b \<le> a \<and> a < ?b + 4 * unat (xres s)) \<or> in_rows s (Suc y0) n a" for a
  proof -
    have "in_rows s y0 (Suc n) a \<longleftrightarrow> (\<exists>j < 4 * unat (xres s). a = ?b + j) \<or> in_rows s (Suc y0) n a"
    proof -
      have "{y0..<y0 + Suc n} = insert y0 {Suc y0..<Suc y0 + n}" by auto
      then show ?thesis unfolding in_rows_def by (simp add: add.assoc)
    qed
    moreover have "(\<exists>j < 4 * unat (xres s). a = ?b + j) \<longleftrightarrow> ?b \<le> a \<and> a < ?b + 4 * unat (xres s)"
      by (auto intro!: exI [of _ "a - ?b"])
    ultimately show ?thesis by blast
  qed
  have "fbclear_rows (Suc n) (of_nat y0) s = fbclear_rows n (of_nat (Suc y0)) ?s1"
    using fbclear_row_base [OF Suc.prems(1) y] by (simp add: fbclear_cols_eq add.commute)
  also have "\<dots> = Some (?s1\<lparr>mem := \<lambda>a. if in_rows ?s1 (Suc y0) n a then 0 else mem ?s1 a\<rparr>)"
    using Suc.prems by (intro Suc.IH) (auto simp: visible_fits_def)
  also have "\<dots> = Some (s\<lparr>mem := \<lambda>a. if in_rows s y0 (Suc n) a then 0 else mem s a\<rparr>)"
    by (simp add: row) (rule mem_update_ext, auto simp: in_rows_def)
  finally show ?case .
next
  case 0
  show ?case by (simp, rule mem_update_id) (simp add: in_rows_def)
qed

lemma fbclear_eq:
  assumes "visible_fits s"
  shows "fbclear s = Some (s\<lparr>mem := \<lambda>a. if in_rows s 0 (unat (yres s)) a then 0 else mem s a\<rparr>)"
  using fbclear_rows_eq [OF assms, of 0 "unat (yres s)"] by (simp add: fbclear_def)

lemma glyph_space: "y < 32 \<Longrightarrow> glyph_byte 0x20 y j = 0"
  using font_space_blank [of "y div 2"] by (simp add: glyph_byte_def px_byte_def)

text \<open>Clearing a screen whose visible part covers the text cells leaves every cell blank.\<close>

lemma fbclear_blank:
  assumes "visible_fits s" "1024 \<le> unat (xres s)" "768 \<le> unat (yres s)" "on_screen row col"
    and "fbclear s = Some s'"
  shows "shows_char s' row col 0x20"
  unfolding shows_char_def
proof (intro allI impI)
  fix y j :: nat
  assume yj: "y < 32" "j < 64"
  have "in_rows s 0 (unat (yres s)) (cell_addr s row col y j)"
    unfolding in_rows_def cell_addr_def
    using assms(2-4) yj
    by (intro bexI [of _ "nat row * 32 + y"] exI [of _ "nat col * 64 + j"])
      (auto simp: on_screen_def algebra_simps)
  then show "mem s' (cell_addr s' row col y j) = glyph_byte 0x20 y j"
    using assms(5) yj by (auto simp: fbclear_eq [OF assms(1)] glyph_space)
qed

lemma divider_draw:
  "fb_draw_line_divider c row s = draw fbputchar (map (\<lambda>col. (c, row, int col)) [0..<64]) s"
  by (simp add: fb_draw_line_divider_def draw_def iter_opt_map)

lemma last_write_None_iff:
  "last_write ws row col = None \<longleftrightarrow> (row, col) \<notin> (\<lambda>(c, r, k). (r, k)) ` set ws"
  by (induction ws) (auto split: option.splits)

lemma last_write_row:
  "last_write (map (\<lambda>col. (f col, row, int col)) [0..<n]) row' col' =
     (if row' = row \<and> 0 \<le> col' \<and> col' < int n then Some (f (nat col')) else None)"
proof (induction n)
  case (Suc n)
  have "last_write (ws @ [(c, r, k)]) row' col' =
      (if row' = r \<and> col' = k then Some c else last_write ws row' col')" for ws c r k
    by (induction ws) (auto split: option.splits)
  with Suc show ?case by auto
qed simp

text \<open>
  C-level initialisation: after \<open>fb_init_screen\<close> row 21 holds the divider and every other cell
  of the text screen is blank.
\<close>

lemma fb_init_screen_shows:
  assumes vis: "visible_fits s" "1024 \<le> unat (xres s)" "768 \<le> unat (yres s)"
    and fits: "screen_fits s"
  shows "\<exists>s'. fb_init_screen s = Some s' \<and> screen_fits s' \<and>
    (\<forall>row col. on_screen row col \<longrightarrow> shows_char s' row col (if row = 21 then 0x2d else 0x20))"
proof -
  let ?ws = "map (\<lambda>col. (0x2d :: u8, 21 :: int, int col)) [0..<64]"
  obtain s1 where s1: "fbclear s = Some s1" "screen_fits s1"
    using fbclear_eq [OF vis(1)] fits by auto
  have ok: "writes_ok ?ws" by (auto simp: writes_ok_def on_screen_def)
  obtain s2 where s2: "draw fbputchar ?ws s1 = Some s2" "screen_fits s2"
    using fbs.draw_total [OF s1(2) ok] by blast
  have "shows_char s2 row col (if row = 21 then 0x2d else 0x20)" if on: "on_screen row col" for row col
  proof (cases "row = 21")
    case True
    with on have "last_write ?ws row col = Some 0x2d" by (simp add: last_write_row on_screen_def)
    with fbs.draw_shows [OF s1(2) ok s2(1) on] True show ?thesis by simp
  next
    case False
    then have "last_write ?ws row col = None" by (simp add: last_write_row)
    from fbs.draw_frame [OF s1(2) ok s2(1) on this] fbclear_blank [OF vis on s1(1)] False
    show ?thesis by simp
  qed
  then show ?thesis using s1 s2 by (auto simp: fb_init_screen_def divider_draw)
qed

text \<open>A code past the 128 glyphs of the font makes the drawing loop read outside the table.\<close>

lemma fbputchar_outside_font:
  assumes "128 \<le> c"
  shows "fbputchar c row col s = None"
proof -
  have "font_at (nat FONT_HEIGHT * unat c) = None"
    using assms by (simp add: font_at_eq fb_consts word_le_nat_alt)
  moreover have "nat (FONT_HEIGHT * 2) = Suc 31" by (simp add: fb_consts)
  ultimately show ?thesis by (simp only: fbputchar_def putchar_rows.simps Option.bind.bind_lzero)
qed

lemma fbputs_draw:
  "(\<forall>c \<in> set cs. c \<noteq> 0) \<Longrightarrow>
     fbputs (cs @ 0 # rest) row col s =
       draw fbputchar (map (\<lambda>i. (cs ! i, row, col + int i)) [0..<length cs]) s"
proof (induction cs arbitrary: col s)
  case (Cons c cs)
  have "map (\<lambda>i. ((c # cs) ! i, row, col + int i)) [0..<length (c # cs)] =
      (c, row, col) # map (\<lambda>i. (cs ! i, row, col + 1 + int i)) [0..<length cs]"
    by (simp add: upt_conv_Cons map_Suc_upt [symmetric] comp_def algebra_simps del: upt_Suc)
  moreover have "fbputs (cs @ 0 # rest) row (col + 1) =
      draw fbputchar (map (\<lambda>i. (cs ! i, row, col + 1 + int i)) [0..<length cs])"
    using Cons by (intro ext) simp
  ultimately show ?case using Cons.prems by simp
qed simp

text \<open>A screen of 1024 by 768 pixels, as the framebuffer of the board reports it.\<close>

definition xga :: fb where
  "xga = \<lparr>xres = 1024, yres = 768, xoffset = 0, yoffset = 0, bits_per_pixel = 32,
          smem_len = 3145728, line_length = 4096, mem = (\<lambda>_. 0)\<rparr>"

lemma xga_fits: "screen_fits xga" "visible_fits xga"
  by (simp_all add: xga_def screen_fits_def visible_fits_def)

subsection \<open>Results\<close>

text \<open>
  C6: Drawing a character of the font in a cell of the screen writes inside the mapped memory
  only; afterwards the 32 by 16 pixels of the cell are the glyph of the font at double size,
  white on black, and no byte outside the cell has changed.
\<close>

theorem fbputchar_draws_glyph:
  assumes "screen_fits s" "on_screen row col" "c < 128"
  shows "\<exists>m. fbputchar c row col s = Some (s\<lparr>mem := m\<rparr>) \<and>
    (\<forall>y < 32. \<forall>x < 16. \<forall>k < 4. m (cell_addr s row col y (4 * x + k)) =
       (if bit (font ! (16 * unat c + y div 2)) (7 - x div 2) \<and> k < 3 then 255 else 0)) \<and>
    (\<forall>a. (\<forall>y < 32. \<forall>j < 64. a \<noteq> cell_addr s row col y j) \<longrightarrow> m a = mem s a)"
proof -
  obtain m where m: "fbputchar c row col s = Some (s\<lparr>mem := m\<rparr>)"
    "\<forall>y < 32. \<forall>j < 64. m (cell_addr s row col y j) = glyph_byte c y j"
    "\<forall>a. (\<forall>y < 32. \<forall>j < 64. a \<noteq> cell_addr s row col y j) \<longrightarrow> m a = mem s a"
    using fbputchar_eq [OF assms] by blast
  have "glyph_byte c y (4 * x + k) =
      (if bit (font ! (16 * unat c + y div 2)) (7 - x div 2) \<and> k < 3 then 255 else 0)"
    if "k < 4" for x y k :: nat
  proof -
    have "(4 * x + k) div 8 = x div 2" "(4 * x + k) mod 4 = k" using that by auto
    then show ?thesis by (simp add: glyph_byte_def px_byte_def)
  qed
  with m show ?thesis by (intro exI [of _ m]) auto
qed

theorem fbputchar_draws_glyph_witness:
  "\<exists>m. fbputchar 0x41 0 0 xga = Some (xga\<lparr>mem := m\<rparr>) \<and> m 3145727 = 0"
proof -
  have "\<forall>y < 32. \<forall>j < 64. 3145727 \<noteq> cell_addr xga 0 0 y j"
    by (auto simp: cell_addr_def xga_def)
  with fbputchar_draws_glyph [OF xga_fits(1), of 0 0 "0x41"] show ?thesis
    by (fastforce simp: on_screen_def xga_def)
qed

text \<open>
  Start of the screen: on a display of at least 1024 by 768 visible pixels \<open>fb_init_screen\<close>
  stays inside the mapping and leaves row 21 filled with the divider and every other cell blank.
\<close>

theorem fb_init_screen_divides:
  assumes "visible_fits s" "1024 \<le> unat (xres s)" "768 \<le> unat (yres s)" "screen_fits s"
  shows "\<exists>s'. fb_init_screen s = Some s' \<and>
    (\<forall>row col. on_screen row col \<longrightarrow> shows_char s' row col (if row = 21 then 0x2d else 0x20))"
  using fb_init_screen_shows [OF assms] by blast

theorem fb_init_screen_divides_witness:
  "\<exists>s'. fb_init_screen xga = Some s' \<and> shows_char s' 21 63 0x2d \<and> shows_char s' 0 0 0x20"
proof -
  have res: "1024 \<le> unat (xres xga)" "768 \<le> unat (yres xga)" by (simp_all add: xga_def)
  from fb_init_screen_divides [OF xga_fits(2) res xga_fits(1)] obtain s' where
    s': "fb_init_screen xga = Some s'"
      "\<forall>row col. on_screen row col \<longrightarrow> shows_char s' row col (if row = 21 then 0x2d else 0x20)" by blast
  from s'(2) [rule_format, of 21 63] s'(2) [rule_format, of 0 0] s'(1) show ?thesis
    by (simp add: on_screen_def)
qed

text \<open>
  C37: Drawing in two different cells commutes, in every byte of memory: the two threads, which
  draw in disjoint rows, may interleave their character writes in any order.
\<close>

theorem fbputchar_commute:
  assumes fits: "screen_fits s" and on: "on_screen row col" "on_screen row' col'"
    and c: "c < 128" "c' < 128" and ne: "(row, col) \<noteq> (row', col')"
  shows "Option.bind (fbputchar c row col s) (fbputchar c' row' col') =
    Option.bind (fbputchar c' row' col' s) (fbputchar c row col)"
proof -
  let ?in = "\<lambda>r k a. \<exists>y < 32. \<exists>j < 64. a = cell_addr s r k y j"
  obtain m where m: "fbputchar c row col s = Some (s\<lparr>mem := m\<rparr>)"
    "\<forall>y < 32. \<forall>j < 64. m (cell_addr s row col y j) = glyph_byte c y j"
    "\<forall>a. \<not> ?in row col a \<longrightarrow> m a = mem s a"
    using fbputchar_eq [OF fits on(1) c(1)] by blast
  obtain m' where m': "fbputchar c' row' col' s = Some (s\<lparr>mem := m'\<rparr>)"
    "\<forall>y < 32. \<forall>j < 64. m' (cell_addr s row' col' y j) = glyph_byte c' y j"
    "\<forall>a. \<not> ?in row' col' a \<longrightarrow> m' a = mem s a"
    using fbputchar_eq [OF fits on(2) c(2)] by blast
  have fits': "screen_fits (s\<lparr>mem := x\<rparr>)" for x using fits by simp
  obtain n where n: "fbputchar c' row' col' (s\<lparr>mem := m\<rparr>) = Some (s\<lparr>mem := n\<rparr>)"
    "\<forall>y < 32. \<forall>j < 64. n (cell_addr s row' col' y j) = glyph_byte c' y j"
    "\<forall>a. \<not> ?in row' col' a \<longrightarrow> n a = m a"
    using fbputchar_eq [OF fits' [of m] on(2) c(2)] by auto
  obtain n' where n': "fbputchar c row col (s\<lparr>mem := m'\<rparr>) = Some (s\<lparr>mem := n'\<rparr>)"
    "\<forall>y < 32. \<forall>j < 64. n' (cell_addr s row col y j) = glyph_byte c y j"
    "\<forall>a. \<not> ?in row col a \<longrightarrow> n' a = m' a"
    using fbputchar_eq [OF fits' [of m'] on(1) c(1)] by auto
  have "n a = n' a" for a
  proof (cases "?in row col a")
    case True
    then have "\<not> ?in row' col' a"
      using cell_addr_inj [OF fits] on ne by fastforce
    then have "n a = m a" using n(3) by blast
    also have "\<dots> = n' a" using True m(2) n'(2) by metis
    finally show ?thesis .
  next
    case False
    then have "n' a = m' a" using n'(3) by blast
    moreover have "n a = m' a"
      using False m(3) m'(2,3) n(2,3) by metis
    ultimately show ?thesis by simp
  qed
  then show ?thesis using m(1) m'(1) n(1) n'(1) by (simp add: ext [of n n'])
qed

theorem fbputchar_commute_witness:
  "Option.bind (fbputchar 0x41 0 0 xga) (fbputchar 0x42 23 5) =
    Option.bind (fbputchar 0x42 23 5 xga) (fbputchar 0x41 0 0)"
  by (rule fbputchar_commute [OF xga_fits(1)]) (simp_all add: on_screen_def)

text \<open>
  The font has 128 glyphs: drawing a byte of 128 or more, which \<open>display_message\<close> passes on
  from the network unchecked, reads outside the font table whatever the screen.
\<close>

theorem fbputchar_reads_outside_font:
  assumes "128 \<le> c"
  shows "fbputchar c row col s = None"
  by (rule fbputchar_outside_font [OF assms])

theorem fbputchar_reads_outside_font_witness: "fbputchar 0xe9 0 0 xga = None"
  by (rule fbputchar_reads_outside_font) simp

text \<open>
  Opening the framebuffer reports which of its steps failed first, and success exactly when
  every step succeeded on a device of 32 bits per pixel.
\<close>

theorem fbopen_result:
  "fst (fbopen os s) =
     (case os_open os of None \<Rightarrow> FBOPEN_DEV
      | Some fd \<Rightarrow>
        if os_fscreeninfo os fd = None then FBOPEN_FSCREENINFO
        else if os_vscreeninfo os fd = None then FBOPEN_VSCREENINFO
        else if snd (snd (snd (snd (the (os_vscreeninfo os fd))))) \<noteq> 32 then FBOPEN_BPP
        else if os_mmap os fd (fst (the (os_fscreeninfo os fd))) = None then FBOPEN_MMAP
        else 0)"
  by (auto simp: fbopen_def Let_def split: option.splits prod.splits)

end
