(* ===== verification/Display.thy ===== *)
theory Display
  imports FrameBuffer
begin

text \<open>
  The split-screen display of the chat client, \<open>src/lab2/display.c\<close>: a message area in rows
  0 to 20 with the position of the next character, and one row for the line being typed.  The
  state is the framebuffer and the two static counters of the file.  \<open>display_message\<close> restarts
  its message from the beginning whenever the area overflows, so its loop need not end; it is
  the partial function \<open>display_loop\<close>, whose outer \<open>None\<close> means that it runs forever.

  The lemmas describe every operation as the list of cell writes it performs, so that the
  contract of the screen gives what the user sees.
\<close>

definition MSG_AREA_TOP :: int where "MSG_AREA_TOP = 0"
definition MSG_AREA_BOTTOM :: int where "MSG_AREA_BOTTOM = 20"
definition MSG_AREA_COLS :: int where "MSG_AREA_COLS = 64"
definition INPUT_AREA_TOP :: int where "INPUT_AREA_TOP = 22"
definition DIVIDER_ROW :: int where "DIVIDER_ROW = 21"

lemmas display_consts [bounds_simps] =
  MSG_AREA_TOP_def MSG_AREA_BOTTOM_def MSG_AREA_COLS_def INPUT_AREA_TOP_def DIVIDER_ROW_def

record disp =
  d_fb :: fb
  current_msg_row :: int
  current_msg_col :: int

definition d_putchar :: "u8 \<Rightarrow> int \<Rightarrow> int \<Rightarrow> disp \<Rightarrow> disp option" where
  "d_putchar c row col d = map_option (\<lambda>f. d\<lparr>d_fb := f\<rparr>) (fbputchar c row col (d_fb d))"

subsection \<open>The operations\<close>

definition clear_message_area :: "disp \<Rightarrow> disp option" where
  "clear_message_area d =
     do { d \<leftarrow> iter_opt (\<lambda>row. iter_opt (\<lambda>col. d_putchar 0x20 row col) [0..MSG_AREA_COLS - 1])
                 [MSG_AREA_TOP..MSG_AREA_BOTTOM] d;
          Some (d\<lparr>current_msg_row := MSG_AREA_TOP, current_msg_col := 0\<rparr>) }"

text \<open>
  \<open>display_loop msg p d\<close> is the \<open>while\<close> loop of \<open>display_message\<close> with the read pointer at
  index \<open>p\<close> of the message; a message without terminator is read past its end.
\<close>

partial_function (option) display_loop :: "u8 list \<Rightarrow> nat \<Rightarrow> disp \<Rightarrow> disp option option" where
  "display_loop msg p d =
     (if length msg \<le> p then Some None
      else if msg ! p = 0 then Some (Some d)
      else if msg ! p = 0x0a then
        (let d = d\<lparr>current_msg_col := 0, current_msg_row := current_msg_row d + 1\<rparr> in
         if MSG_AREA_BOTTOM < current_msg_row d then
           (case clear_message_area d of
              None \<Rightarrow> Some None
            | Some d \<Rightarrow> display_loop msg 0 d)
         else display_loop msg (p + 1) d)
      else if MSG_AREA_COLS \<le> current_msg_col d \<and> MSG_AREA_BOTTOM < current_msg_row d + 1 then
        (case clear_message_area (d\<lparr>current_msg_col := 0, current_msg_row := current_msg_row d + 1\<rparr>) of
           None \<Rightarrow> Some None
         | Some d \<Rightarrow> display_loop msg 0 d)
      else
        (let d = (if MSG_AREA_COLS \<le> current_msg_col d
                  then d\<lparr>current_msg_col := 0, current_msg_row := current_msg_row d + 1\<rparr> else d) in
         case d_putchar (msg ! p) (current_msg_row d) (current_msg_col d) d of
           None \<Rightarrow> Some None
         | Some d \<Rightarrow> display_loop msg (p + 1) (d\<lparr>current_msg_col := current_msg_col d + 1\<rparr>)))"

definition end_message :: "disp \<Rightarrow> disp option" where
  "end_message d =
     (if 0 < current_msg_col d then
        (let d = d\<lparr>current_msg_col := 0, current_msg_row := current_msg_row d + 1\<rparr> in
         if MSG_AREA_BOTTOM < current_msg_row d then clear_message_area d else Some d)
      else Some d)"

definition display_message :: "u8 list \<Rightarrow> u8 \<Rightarrow> u8 \<Rightarrow> u8 \<Rightarrow> disp \<Rightarrow> disp option option" where
  "display_message msg r g b d =
     (case display_loop msg 0 d of
        None \<Rightarrow> None
      | Some None \<Rightarrow> Some None
      | Some (Some d) \<Rightarrow> Some (end_message d))"

text \<open>
  The text loop of \<open>display_user_input\<close>: one cell per character from index \<open>i\<close> on, until the
  text ends or the visible width is used up; reading past the buffer is \<open>None\<close>.
\<close>

function draw_input :: "u8 list \<Rightarrow> int \<Rightarrow> int \<Rightarrow> int \<Rightarrow> int \<Rightarrow> int \<Rightarrow> disp \<Rightarrow> disp option" where
  "draw_input buffer len width i row col d =
     (if i < len \<and> col < width then
        if 0 \<le> i \<and> nat i < length buffer then
          (case d_putchar (buffer ! nat i) row col d of
             None \<Rightarrow> None
           | Some d \<Rightarrow> draw_input buffer len width (i + 1) row (col + 1) d)
        else None
      else Some d)"
  by pat_completeness auto
termination
  by (relation "measure (\<lambda>(buffer, len, width, i, row, col, d). nat (width - col))") auto

declare draw_input.simps [simp del]

definition display_user_input :: "u8 list \<Rightarrow> int \<Rightarrow> int \<Rightarrow> disp \<Rightarrow> disp option" where
  "display_user_input buffer len cursor_pos d =
     (let row = INPUT_AREA_TOP + 1;
          visible_width = MSG_AREA_COLS - 1;
          start = (if visible_width < cursor_pos then cursor_pos - visible_width else 0);
          cursor_display_col = cursor_pos - start
      in do { d \<leftarrow> iter_opt (\<lambda>c. d_putchar 0x20 row c) [0..MSG_AREA_COLS - 1] d;
              d \<leftarrow> draw_input buffer len visible_width start row 0 d;
              if 0 \<le> cursor_display_col \<and> cursor_display_col < MSG_AREA_COLS
              then d_putchar 0x7c row cursor_display_col d else Some d })"

subsection \<open>The operations as lists of cell writes\<close>

interpretation ds: char_screen d_putchar "\<lambda>d. shows_char (d_fb d)" "\<lambda>d. screen_fits (d_fb d)"
proof unfold_locales
  fix d :: disp and row col and c :: u8
  assume *: "screen_fits (d_fb d)" "on_screen row col" "c < 128"
  show "\<exists>d'. d_putchar c row col d = Some d' \<and> screen_fits (d_fb d') \<and> shows_char (d_fb d') row col c"
    using fbs.putc_ok [OF *] by (auto simp: d_putchar_def)
  fix row' col' d' x
  assume "d_putchar c row col d = Some d'" "on_screen row' col'" "(row', col') \<noteq> (row, col)"
  then show "shows_char (d_fb d') row' col' x = shows_char (d_fb d) row' col' x"
    using fbs.putc_frame [OF *] by (auto simp: d_putchar_def)
qed

lemma d_putchar_cursor [simp]:
  "d_putchar c row col (d\<lparr>current_msg_row := a\<rparr>) =
     map_option (\<lambda>d. d\<lparr>current_msg_row := a\<rparr>) (d_putchar c row col d)"
  "d_putchar c row col (d\<lparr>current_msg_col := b\<rparr>) =
     map_option (\<lambda>d. d\<lparr>current_msg_col := b\<rparr>) (d_putchar c row col d)"
  by (cases "fbputchar c row col (d_fb d)"; simp add: d_putchar_def)+

lemma draw_cursor:
  "draw d_putchar ws (d\<lparr>current_msg_row := a\<rparr>) =
     map_option (\<lambda>d. d\<lparr>current_msg_row := a\<rparr>) (draw d_putchar ws d)"
  "draw d_putchar ws (d\<lparr>current_msg_col := b\<rparr>) =
     map_option (\<lambda>d. d\<lparr>current_msg_col := b\<rparr>) (draw d_putchar ws d)"
  by (induction ws arbitrary: d) (auto split: Option.bind_splits)

lemma draw_keeps_cursor:
  "draw d_putchar ws d = Some d' \<Longrightarrow>
     current_msg_row d' = current_msg_row d \<and> current_msg_col d' = current_msg_col d"
  by (induction ws arbitrary: d) (auto simp: d_putchar_def split: Option.bind_splits)

definition clear_writes :: "cell_write list" where
  "clear_writes = concat (map (\<lambda>row. map (\<lambda>col. (0x20, row, col)) [0..63]) [0..20])"

lemma clear_message_area_draw:
  "clear_message_area d =
     map_option (\<lambda>d. d\<lparr>current_msg_row := 0, current_msg_col := 0\<rparr>) (draw d_putchar clear_writes d)"
proof -
  have "iter_opt (\<lambda>row. iter_opt (\<lambda>col. d_putchar 0x20 row col) [0..63]) [0..20] d =
      draw d_putchar clear_writes d"
    by (simp add: draw_def clear_writes_def iter_opt_concat iter_opt_map)
  then show ?thesis
    by (simp add: clear_message_area_def display_consts map_conv_bind_option o_def)
qed

lemma clear_writes_ok: "writes_ok clear_writes"
  by (auto simp: writes_ok_def clear_writes_def on_screen_def)

lemma last_write_blank:
  "last_write (map (Pair c) ps) row col = (if (row, col) \<in> set ps then Some c else None)"
  by (induction ps) (auto split: option.splits if_splits)

lemma last_write_clear:
  "last_write clear_writes row col = (if 0 \<le> row \<and> row \<le> 20 \<and> 0 \<le> col \<and> col \<le> 63 then Some 0x20 else None)"
proof -
  have "clear_writes = map (Pair 0x20) (concat (map (\<lambda>row. map (Pair row) [0..63]) [0..20]))"
    by (simp add: clear_writes_def map_concat o_def)
  then have "last_write clear_writes row col = last_write
      (map (Pair 0x20) (concat (map (\<lambda>row. map (Pair row) [0..63]) [0..20]))) row col" by simp
  moreover have "set (concat (map (\<lambda>row. map (Pair row) [0..63]) [0..20])) = {0..20} \<times> {0..63 :: int}"
    by auto
  ultimately show ?thesis
    by (simp only: last_write_blank mem_Times_iff fst_conv snd_conv atLeastAtMost_iff conj_assoc)
qed

text \<open>Clearing always succeeds on a usable screen, blanks rows 0 to 20 and touches nothing else.\<close>

lemma clear_message_area_ok:
  assumes "screen_fits (d_fb d)"
  obtains d' where "clear_message_area d = Some d'" "screen_fits (d_fb d')"
    "current_msg_row d' = 0" "current_msg_col d' = 0"
    "\<And>row col. on_screen row col \<Longrightarrow> row \<le> 20 \<Longrightarrow> shows_char (d_fb d') row col 0x20"
    "\<And>row col x. on_screen row col \<Longrightarrow> 20 < row \<Longrightarrow>
       shows_char (d_fb d') row col x = shows_char (d_fb d) row col x"
proof -
  obtain d1 where d1: "draw d_putchar clear_writes d = Some d1" "screen_fits (d_fb d1)"
    using ds.draw_total [OF assms clear_writes_ok] by blast
  let ?d = "d1\<lparr>current_msg_row := 0, current_msg_col := 0\<rparr>"
  have "shows_char (d_fb ?d) row col 0x20" if "on_screen row col" "row \<le> 20" for row col
    using ds.draw_shows [OF assms clear_writes_ok d1(1) that(1)] that
    by (simp add: last_write_clear on_screen_def)
  moreover have "shows_char (d_fb ?d) row col x = shows_char (d_fb d) row col x"
    if "on_screen row col" "20 < row" for row col x
    using ds.draw_frame [OF assms clear_writes_ok d1(1) that(1)] that
    by (simp add: last_write_clear on_screen_def)
  ultimately show ?thesis
    using that [of ?d] d1 by (simp add: clear_message_area_draw)
qed

subsection \<open>Laying out a message\<close>

text \<open>
  \<open>place row col cs\<close> is where the characters of a message go when it is written from the
  given position without restarting: the list of cells and the position after the last
  character, or \<open>None\<close> when the message leaves the area.
\<close>

fun place :: "int \<Rightarrow> int \<Rightarrow> u8 list \<Rightarrow> (cell_write list \<times> int \<times> int) option" where
  "place row col [] = Some ([], row, col)"
| "place row col (c # cs) =
     (if c = 0x0a then (if 20 < row + 1 then None else place (row + 1) 0 cs)
      else if 64 \<le> col \<and> 20 < row + 1 then None
      else let row' = (if 64 \<le> col then row + 1 else row); col' = (if 64 \<le> col then 0 else col) in
           map_option (\<lambda>(ws, r, k). ((c, row', col') # ws, r, k)) (place row' (col' + 1) cs))"

definition pos_ok :: "int \<Rightarrow> int \<Rightarrow> bool" where
  "pos_ok row col \<longleftrightarrow> 0 \<le> row \<and> row \<le> 20 \<and> 0 \<le> col \<and> col \<le> 64"

definition ascii_text :: "u8 list \<Rightarrow> bool" where
  "ascii_text cs \<longleftrightarrow> (\<forall>c \<in> set cs. c \<noteq> 0 \<and> c < 128)"

lemma ascii_text_simps [simp]:
  "ascii_text []" "ascii_text (c # cs) \<longleftrightarrow> c \<noteq> 0 \<and> c < 128 \<and> ascii_text cs"
  by (auto simp: ascii_text_def)

lemma place_props:
  "pos_ok row col \<Longrightarrow> ascii_text cs \<Longrightarrow> place row col cs = Some (ws, r, k) \<Longrightarrow>
     pos_ok r k \<and> row \<le> r \<and> (r = row \<longrightarrow> col \<le> k) \<and> writes_ok ws \<and>
     (\<forall>(c, x, y) \<in> set ws. row \<le> x \<and> x \<le> 20 \<and> (x = row \<longrightarrow> col \<le> y)) \<and>
     distinct (map snd ws)"
proof (induction row col cs arbitrary: ws r k rule: place.induct)
  case (2 row col c cs)
  show ?case
  proof (cases "c = 0x0a")
    case True
    with "2.prems" have "place (row + 1) 0 cs = Some (ws, r, k)" "row + 1 \<le> 20"
      by (auto split: if_splits)
    with "2.IH"(1) [OF True] "2.prems"(1,2) True show ?thesis
      by (fastforce simp: pos_ok_def)
  next
    case False
    let ?row = "if 64 \<le> col then row + 1 else row" and ?col = "if 64 \<le> col then 0 else col"
    from False "2.prems"(3) have nf: "\<not> (64 \<le> col \<and> 20 < row + 1)"
      by (auto split: if_splits)
    with False "2.prems"(3) obtain ws' where
      ws: "ws = (c, ?row, ?col) # ws'" and pl: "place ?row (?col + 1) cs = Some (ws', r, k)"
      by (auto simp: Let_def)
    have p: "pos_ok ?row (?col + 1)" and on: "on_screen ?row ?col"
      using nf "2.prems"(1) by (auto simp: pos_ok_def on_screen_def)
    have IH: "pos_ok r k \<and> ?row \<le> r \<and> (r = ?row \<longrightarrow> ?col + 1 \<le> k) \<and> writes_ok ws' \<and>
      (\<forall>(c, x, y) \<in> set ws'. ?row \<le> x \<and> x \<le> 20 \<and> (x = ?row \<longrightarrow> ?col + 1 \<le> y)) \<and>
      distinct (map snd ws')"
      by (rule "2.IH"(2) [OF False nf refl refl p _ pl]) (use "2.prems"(2) in simp)
    have "(?row, ?col) \<notin> snd ` set ws'"
      using IH by (fastforce simp del: if_split)
    with IH on "2.prems"(1,2) nf show ?thesis
      unfolding ws by (auto simp: pos_ok_def split: if_splits)
  qed
qed (auto simp: pos_ok_def)

definition next_row :: "disp \<Rightarrow> disp" where
  "next_row d = d\<lparr>current_msg_col := 0, current_msg_row := current_msg_row d + 1\<rparr>"

definition wrapped :: "disp \<Rightarrow> disp" where
  "wrapped d = (if 64 \<le> current_msg_col d then next_row d else d)"

lemma next_row_sel [simp]:
  "current_msg_row (next_row d) = current_msg_row d + 1" "current_msg_col (next_row d) = 0"
  "d_fb (next_row d) = d_fb d"
  by (simp_all add: next_row_def)

lemma wrapped_sel [simp]:
  "current_msg_row (wrapped d) = (if 64 \<le> current_msg_col d then current_msg_row d + 1 else current_msg_row d)"
  "current_msg_col (wrapped d) = (if 64 \<le> current_msg_col d then 0 else current_msg_col d)"
  "d_fb (wrapped d) = d_fb d"
  by (simp_all add: wrapped_def)

text \<open>The loop, one iteration at a time.\<close>

lemma display_loop_end [step_simps]:
  "p < length msg \<Longrightarrow> msg ! p = 0 \<Longrightarrow> display_loop msg p d = Some (Some d)"
  by (subst display_loop.simps) simp

lemma display_loop_newline [step_simps]:
  "p < length msg \<Longrightarrow> msg ! p = 0x0a \<Longrightarrow> current_msg_row d < 20 \<Longrightarrow>
     display_loop msg p d = display_loop msg (p + 1) (next_row d)"
  by (subst display_loop.simps) (simp add: display_consts next_row_def)

lemma display_loop_newline_full [step_simps]:
  "p < length msg \<Longrightarrow> msg ! p = 0x0a \<Longrightarrow> 20 \<le> current_msg_row d \<Longrightarrow>
     clear_message_area (next_row d) = Some d' \<Longrightarrow> display_loop msg p d = display_loop msg 0 d'"
  by (subst display_loop.simps) (simp add: display_consts next_row_def)

lemma display_loop_wrap_full [step_simps]:
  "p < length msg \<Longrightarrow> msg ! p \<noteq> 0 \<Longrightarrow> msg ! p \<noteq> 0x0a \<Longrightarrow> 64 \<le> current_msg_col d \<Longrightarrow>
     20 \<le> current_msg_row d \<Longrightarrow> clear_message_area (next_row d) = Some d' \<Longrightarrow>
     display_loop msg p d = display_loop msg 0 d'"
  by (subst display_loop.simps) (simp add: display_consts next_row_def)

lemma display_loop_char [step_simps]:
  assumes "p < length msg" "msg ! p \<noteq> 0" "msg ! p \<noteq> 0x0a"
    and "current_msg_col d < 64 \<or> current_msg_row d < 20"
    and "d_putchar (msg ! p) (current_msg_row (wrapped d)) (current_msg_col (wrapped d)) (wrapped d) = Some d'"
  shows "display_loop msg p d = display_loop msg (p + 1) (d'\<lparr>current_msg_col := current_msg_col d' + 1\<rparr>)"
proof (cases "64 \<le> current_msg_col d")
  case True
  with assms show ?thesis
    by (subst display_loop.simps)
      (simp add: display_consts wrapped_def next_row_def Let_def del: d_putchar_cursor)
next
  case False
  with assms show ?thesis
    by (subst display_loop.simps) (simp add: display_consts wrapped_def Let_def)
qed

lemma display_loop_place:
  assumes "ascii_text cs" and "pos_ok (current_msg_row d) (current_msg_col d)"
    and "screen_fits (d_fb d)"
    and "place (current_msg_row d) (current_msg_col d) cs = Some (ws, r, k)"
  shows "display_loop (pre @ cs @ 0 # rest) (length pre) d =
    Some (map_option (\<lambda>d. d\<lparr>current_msg_row := r, current_msg_col := k\<rparr>) (draw d_putchar ws d))"
  using assms
proof (induction cs arbitrary: pre d ws)
  case Nil
  then show ?case by (subst display_loop.simps) simp
next
  case (Cons c cs)
  let ?m = "pre @ (c # cs) @ 0 # rest" and ?row = "current_msg_row d" and ?col = "current_msg_col d"
  have nth: "?m ! length pre = c" "\<not> length ?m \<le> length pre" by (simp_all add: nth_append)
  have msg: "?m = (pre @ [c]) @ cs @ 0 # rest" "length pre + 1 = length (pre @ [c])" by simp_all
  show ?case
  proof (cases "c = 0x0a")
    case True
    let ?d = "next_row d"
    from True Cons.prems(4) have row: "?row + 1 \<le> 20" and pl: "place (?row + 1) 0 cs = Some (ws, r, k)"
      by (auto split: if_splits)
    have "display_loop ?m (length pre) d = display_loop ?m (length pre + 1) ?d"
      using nth True row by (intro display_loop_newline) auto
    also have "\<dots> = Some (map_option (\<lambda>d. d\<lparr>current_msg_row := r, current_msg_col := k\<rparr>) (draw d_putchar ws ?d))"
      unfolding msg using Cons.prems row pl by (intro Cons.IH) (auto simp: pos_ok_def)
    finally show ?thesis by (simp add: next_row_def draw_cursor option.map_comp o_def)
  next
    case False
    let ?r = "if 64 \<le> ?col then ?row + 1 else ?row" and ?c = "if 64 \<le> ?col then 0 else ?col"
    let ?d = "wrapped d"
    from False Cons.prems(4) have nf: "\<not> (64 \<le> ?col \<and> 20 < ?row + 1)"
      by (auto split: if_splits)
    with False Cons.prems(4) obtain ws' where
      ws: "ws = (c, ?r, ?c) # ws'" and pl: "place ?r (?c + 1) cs = Some (ws', r, k)"
      by (auto simp: Let_def)
    have dpos: "current_msg_row ?d = ?r" "current_msg_col ?d = ?c" by simp_all
    have on: "on_screen ?r ?c" using nf Cons.prems(2) by (auto simp: pos_ok_def on_screen_def)
    have fits: "screen_fits (d_fb ?d)" using Cons.prems(3) by simp
    obtain d1 where d1: "d_putchar c ?r ?c ?d = Some d1" "screen_fits (d_fb d1)"
      using ds.putc_ok [OF fits on] Cons.prems(1) by auto
    have cur: "current_msg_row d1 = ?r" "current_msg_col d1 = ?c"
      using d1(1) dpos by (auto simp: d_putchar_def)
    let ?d2 = "d1\<lparr>current_msg_col := ?c + 1\<rparr>"
    have "display_loop ?m (length pre) d = display_loop ?m (length pre + 1) ?d2"
      using nth False nf Cons.prems(1) d1(1) display_loop_char [of "length pre" ?m d d1]
      by (auto simp: dpos cur simp del: if_split)
    also have "\<dots> = Some (map_option (\<lambda>d. d\<lparr>current_msg_row := r, current_msg_col := k\<rparr>) (draw d_putchar ws' ?d2))"
      unfolding msg
      by (rule Cons.IH) (use Cons.prems(1,2) nf pl d1(2) cur in \<open>auto simp: pos_ok_def\<close>)
    also have "draw d_putchar ws' ?d2 = map_option (\<lambda>d. d\<lparr>current_msg_col := ?c + 1\<rparr>) (draw d_putchar ws' d1)"
      by (rule draw_cursor)
    finally have eq: "display_loop ?m (length pre) d =
        Some (map_option (\<lambda>d. d\<lparr>current_msg_row := r, current_msg_col := k\<rparr>) (draw d_putchar ws' d1))"
      by (simp add: option.map_comp o_def)
    have "map_option (\<lambda>d. d\<lparr>current_msg_row := r, current_msg_col := k\<rparr>) (draw d_putchar ws ?d) =
        map_option (\<lambda>d. d\<lparr>current_msg_row := r, current_msg_col := k\<rparr>) (draw d_putchar ws d)"
      by (simp add: wrapped_def next_row_def draw_cursor option.map_comp o_def)
    with eq show ?thesis using d1(1) by (simp add: ws)
  qed
qed

text \<open>
  A message that does not fit from the current position is restarted on a cleared area: the
  loop reaches the overflow, clears and continues from the start of the message.
\<close>

lemma display_loop_restart:
  assumes "ascii_text cs" and "pos_ok (current_msg_row d) (current_msg_col d)"
    and "screen_fits (d_fb d)"
    and "place (current_msg_row d) (current_msg_col d) cs = None"
  shows "\<exists>d'. display_loop (pre @ cs @ 0 # rest) (length pre) d = display_loop (pre @ cs @ 0 # rest) 0 d' \<and>
    screen_fits (d_fb d') \<and> current_msg_row d' = 0 \<and> current_msg_col d' = 0 \<and>
    (\<forall>row col. on_screen row col \<longrightarrow> row \<le> 20 \<longrightarrow> shows_char (d_fb d') row col 0x20) \<and>
    (\<forall>row col x. on_screen row col \<longrightarrow> 20 < row \<longrightarrow>
       shows_char (d_fb d') row col x = shows_char (d_fb d) row col x)"
  using assms
proof (induction cs arbitrary: pre d)
  case (Cons c cs)
  let ?m = "pre @ (c # cs) @ 0 # rest" and ?row = "current_msg_row d" and ?col = "current_msg_col d"
  have nth: "?m ! length pre = c" "length pre < length ?m" by (simp_all add: nth_append)
  have msg: "?m = (pre @ [c]) @ cs @ 0 # rest" "length pre + 1 = length (pre @ [c])" by simp_all
  have overflow: ?case if "?row = 20" "c = 0x0a \<or> 64 \<le> ?col"
  proof -
    obtain d' where d': "clear_message_area (next_row d) = Some d'" "screen_fits (d_fb d')"
      "current_msg_row d' = 0" "current_msg_col d' = 0"
      "\<And>row col. on_screen row col \<Longrightarrow> row \<le> 20 \<Longrightarrow> shows_char (d_fb d') row col 0x20"
      "\<And>row col x. on_screen row col \<Longrightarrow> 20 < row \<Longrightarrow>
         shows_char (d_fb d') row col x = shows_char (d_fb (next_row d)) row col x"
      using clear_message_area_ok [of "next_row d"] Cons.prems(3) by (metis next_row_sel(3))
    have "display_loop ?m (length pre) d = display_loop ?m 0 d'"
      using nth that d'(1) Cons.prems(1) display_loop_newline_full [of "length pre" ?m d d']
        display_loop_wrap_full [of "length pre" ?m d d'] by (cases "c = 0x0a") auto
    with d'(2-6) show ?thesis by (intro exI [of _ d']) auto
  qed
  have "?row = 20 \<or> ?row < 20" "?col < 64 \<or> 64 \<le> ?col"
    using Cons.prems(2) by (auto simp: pos_ok_def)
  then consider (full) "?row = 20" "c = 0x0a \<or> 64 \<le> ?col"
    | (nl) "?row < 20" "c = 0x0a" | (char) "c \<noteq> 0x0a" "?row < 20 \<or> ?col < 64"
    by blast
  then show ?case
  proof cases
    case full
    then show ?thesis by (rule overflow)
  next
    case nl
    with Cons.prems(4) have pl: "place (?row + 1) 0 cs = None" by simp
    have "display_loop ?m (length pre) d = display_loop ?m (length pre + 1) (next_row d)"
      using nl nth by (intro display_loop_newline) auto
    with Cons.IH [of "next_row d" "pre @ [c]"] Cons.prems nl pl show ?thesis
      unfolding msg by (simp add: pos_ok_def)
  next
    case char
    have on: "on_screen (current_msg_row (wrapped d)) (current_msg_col (wrapped d))"
      using char Cons.prems(2) by (auto simp: pos_ok_def on_screen_def)
    obtain d1 where d1: "d_putchar c (current_msg_row (wrapped d)) (current_msg_col (wrapped d)) (wrapped d) = Some d1"
      "screen_fits (d_fb d1)"
      using ds.putc_ok [OF _ on, of "wrapped d" c] Cons.prems(1,3) by (auto simp del: wrapped_sel(1,2))
    have cur: "current_msg_row d1 = current_msg_row (wrapped d)" "current_msg_col d1 = current_msg_col (wrapped d)"
      using d1(1) by (auto simp: d_putchar_def simp del: wrapped_sel)
    let ?d2 = "d1\<lparr>current_msg_col := current_msg_col d1 + 1\<rparr>"
    have pl: "place (current_msg_row ?d2) (current_msg_col ?d2) cs = None"
      using Cons.prems(4) char cur by (auto simp: Let_def split: if_splits)
    have frame: "shows_char (d_fb d1) row col x = shows_char (d_fb d) row col x"
      if "on_screen row col" "20 < row" for row col x
      using ds.putc_frame [OF _ on, of "wrapped d" c d1] Cons.prems(1-3) d1(1) that char
      by (auto simp: pos_ok_def)
    have "display_loop ?m (length pre) d = display_loop ?m (length pre + 1) ?d2"
      using char nth d1(1) Cons.prems(1,2)
      by (intro display_loop_char) (auto simp: pos_ok_def simp del: wrapped_sel)
    with Cons.IH [of ?d2 "pre @ [c]"] Cons.prems(1,2) char d1(2) cur pl frame show ?thesis
      unfolding msg by (auto simp: pos_ok_def)
  qed
qed simp

text \<open>
  Writing from a later position never makes room: what overflows on an empty area overflows
  from every position.
\<close>

lemma place_None_mono:
  "place row col cs = None \<Longrightarrow> 0 \<le> col' \<Longrightarrow> row' \<le> 20 \<Longrightarrow> row < row' \<or> row = row' \<and> col \<le> col' \<Longrightarrow>
     place row' col' cs = None"
proof (induction row col cs arbitrary: row' col' rule: place.induct)
  case (2 row col c cs)
  show ?case
  proof (cases "c = 0x0a")
    case True
    with "2.prems" "2.IH"(1) [OF True, of 0 "row' + 1"] show ?thesis
      by (auto split: if_splits)
  next
    case False
    show ?thesis
    proof (cases "(64 \<le> col \<and> 20 < row + 1) \<or> (64 \<le> col' \<and> 20 < row' + 1)")
      case full: True
      with "2.prems"(2-4) False show ?thesis
        by (auto simp: Let_def)
    next
      case nf: False
      let ?r = "if 64 \<le> col then row + 1 else row" and ?k = "if 64 \<le> col then 0 else col"
      let ?r' = "if 64 \<le> col' then row' + 1 else row'" and ?k' = "if 64 \<le> col' then 0 else col'"
      from nf have nf1: "\<not> (64 \<le> col \<and> 20 < row + 1)" by blast
      from "2.prems"(1) False nf have pl: "place ?r (?k + 1) cs = None"
        by (auto simp: Let_def split: if_splits)
      have "place ?r' (?k' + 1) cs = None"
        by (rule "2.IH"(2) [OF False nf1 refl refl pl]) (use "2.prems"(2-4) nf in auto)
      with False show ?thesis by (simp add: Let_def del: if_split)
    qed
  qed
qed simp

text \<open>
  Termination of \<open>display_message\<close>, characterised: on a usable screen it returns exactly when
  the message fits an empty message area.  A message that does not fit is restarted forever.
\<close>

lemma display_loop_returns:
  assumes "ascii_text cs" "pos_ok (current_msg_row d) (current_msg_col d)" "screen_fits (d_fb d)"
    and "place 0 0 cs \<noteq> None"
  shows "\<exists>d'. display_loop (cs @ 0 # rest) 0 d = Some (Some d') \<and> screen_fits (d_fb d') \<and>
    pos_ok (current_msg_row d') (current_msg_col d')"
proof -
  have go: "\<exists>d'. display_loop (cs @ 0 # rest) 0 e = Some (Some d') \<and> screen_fits (d_fb d') \<and>
      pos_ok (current_msg_row d') (current_msg_col d')"
    if e: "pos_ok (current_msg_row e) (current_msg_col e)" "screen_fits (d_fb e)"
      "place (current_msg_row e) (current_msg_col e) cs = Some (ws, r, k)" for e ws r k
  proof -
    have p: "pos_ok r k" "writes_ok ws"
      using place_props [OF e(1) assms(1) e(3)] by auto
    obtain d1 where "draw d_putchar ws e = Some d1" "screen_fits (d_fb d1)"
      using ds.draw_total [OF e(2) p(2)] by blast
    with display_loop_place [OF assms(1) e, of "[]" rest] p(1) show ?thesis by simp
  qed
  show ?thesis
  proof (cases "place (current_msg_row d) (current_msg_col d) cs")
    case None
    then obtain d1 where d1: "display_loop (cs @ 0 # rest) 0 d = display_loop (cs @ 0 # rest) 0 d1"
      "screen_fits (d_fb d1)" "current_msg_row d1 = 0" "current_msg_col d1 = 0"
      using display_loop_restart [OF assms(1-3), of "[]" rest] by auto
    obtain ws r k where "place 0 0 cs = Some (ws, r, k)" using assms(4) by auto
    with go [of d1 ws r k] d1 show ?thesis by (simp add: pos_ok_def)
  next
    case (Some a)
    then show ?thesis using go [OF assms(2,3)] by (cases a) auto
  qed
qed

definition doomed :: "u8 list \<Rightarrow> nat \<Rightarrow> disp \<Rightarrow> bool" where
  "doomed msg p d \<longleftrightarrow>
     (\<exists>pre cs rest. msg = pre @ cs @ 0 # rest \<and> p = length pre \<and> ascii_text (pre @ cs) \<and>
        place 0 0 (pre @ cs) = None \<and> place (current_msg_row d) (current_msg_col d) cs = None) \<and>
     pos_ok (current_msg_row d) (current_msg_col d) \<and> screen_fits (d_fb d)"

text \<open>Every iteration from a doomed state leads to a doomed state.\<close>

lemma doomed_step:
  assumes "doomed msg p d"
  obtains (clear) d' where "p < length msg" "msg ! p \<noteq> 0" "msg ! p = 0x0a \<or> 64 \<le> current_msg_col d"
      "20 \<le> current_msg_row d" "clear_message_area (next_row d) = Some d'" "doomed msg 0 d'"
    | (newline) "p < length msg" "msg ! p = 0x0a" "current_msg_row d < 20" "doomed msg (p + 1) (next_row d)"
    | (char) d' where "p < length msg" "msg ! p \<noteq> 0" "msg ! p \<noteq> 0x0a"
      "current_msg_col d < 64 \<or> current_msg_row d < 20"
      "d_putchar (msg ! p) (current_msg_row (wrapped d)) (current_msg_col (wrapped d)) (wrapped d) = Some d'"
      "doomed msg (p + 1) (d'\<lparr>current_msg_col := current_msg_col d' + 1\<rparr>)"
proof -
  obtain pre cs0 rest where m0: "msg = pre @ cs0 @ 0 # rest" "p = length pre" "ascii_text (pre @ cs0)"
    "place 0 0 (pre @ cs0) = None" "place (current_msg_row d) (current_msg_col d) cs0 = None"
    and ok: "pos_ok (current_msg_row d) (current_msg_col d)" "screen_fits (d_fb d)"
    using assms by (auto simp: doomed_def)
  then obtain c cs where cs0: "cs0 = c # cs" by (cases cs0) auto
  note m = m0 [unfolded cs0]
  have c: "c \<noteq> 0" "c < 128" and asc: "ascii_text (pre @ c # cs)"
    using m(3) by (auto simp: ascii_text_def)
  have nth: "p < length msg" "msg ! p = c" using m(1,2) by simp_all
  have next_pre: "doomed msg (p + 1) e" if "place (current_msg_row e) (current_msg_col e) cs = None"
    "pos_ok (current_msg_row e) (current_msg_col e)" "screen_fits (d_fb e)" for e
    unfolding doomed_def using m that
    by (intro conjI exI [of _ "pre @ [c]"] exI [of _ cs] exI [of _ rest]) auto
  have "current_msg_row d = 20 \<or> current_msg_row d < 20" "current_msg_col d < 64 \<or> 64 \<le> current_msg_col d"
    using ok(1) by (auto simp: pos_ok_def)
  then consider "20 \<le> current_msg_row d" "c = 0x0a \<or> 64 \<le> current_msg_col d"
    | "current_msg_row d < 20" "c = 0x0a" | "c \<noteq> 0x0a" "current_msg_col d < 64 \<or> current_msg_row d < 20"
    by fastforce
  then show ?thesis
  proof cases
    case 1
    obtain d' where d': "clear_message_area (next_row d) = Some d'" "screen_fits (d_fb d')"
      "current_msg_row d' = 0" "current_msg_col d' = 0"
      using clear_message_area_ok [of "next_row d"] ok(2) by (metis next_row_sel(3))
    have "doomed msg 0 d'"
      unfolding doomed_def using m asc d'
      by (intro conjI exI [of _ "[]"] exI [of _ "pre @ c # cs"] exI [of _ rest]) (auto simp: pos_ok_def)
    with 1 nth c d'(1) show ?thesis by (intro clear) auto
  next
    case 2
    then have "doomed msg (p + 1) (next_row d)"
      using m(5) ok by (intro next_pre) (auto simp: pos_ok_def)
    with 2 nth show ?thesis by (intro newline) auto
  next
    case 3
    have on: "on_screen (current_msg_row (wrapped d)) (current_msg_col (wrapped d))"
      using 3 ok(1) by (auto simp: pos_ok_def on_screen_def)
    obtain d1 where d1: "d_putchar c (current_msg_row (wrapped d)) (current_msg_col (wrapped d)) (wrapped d) = Some d1"
      "screen_fits (d_fb d1)"
      using ds.putc_ok [OF _ on, of "wrapped d" c] ok(2) c(2) by (auto simp del: wrapped_sel(1,2))
    have cur: "current_msg_row d1 = current_msg_row (wrapped d)" "current_msg_col d1 = current_msg_col (wrapped d)"
      using d1(1) by (auto simp: d_putchar_def simp del: wrapped_sel)
    have "doomed msg (p + 1) (d1\<lparr>current_msg_col := current_msg_col d1 + 1\<rparr>)"
      using m(5) 3 cur ok(1) d1(2)
      by (intro next_pre) (auto simp: pos_ok_def Let_def split: if_splits)
    with 3 nth c d1 show ?thesis by (intro char) (auto simp del: wrapped_sel)
  qed
qed

lemma display_loop_diverges:
  assumes "doomed msg p d"
  shows "display_loop msg p d = None"
proof (rule ccontr)
  assume "display_loop msg p d \<noteq> None"
  then obtain res where "display_loop msg p d = Some res" by auto
  then have "\<not> doomed msg p d"
  proof (rule display_loop.raw_induct [where P = "\<lambda>msg p d res. \<not> doomed msg p d", rotated], goal_cases)
    case (1 loop msg p d res)
    note IH = "1"(1) and eq = "1"(2)
    show "\<not> doomed msg p d"
    proof
      assume "doomed msg p d"
      then show False
      proof (cases rule: doomed_step)
        case (clear d')
        then have "loop msg 0 d' = Some res"
          using eq by (auto simp: display_consts next_row_def Let_def split: if_splits)
        with IH clear(6) show False by blast
      next
        case newline
        then have "loop msg (p + 1) (next_row d) = Some res"
          using eq by (auto simp: display_consts next_row_def Let_def)
        with IH newline(4) show False by blast
      next
        case (char d')
        then have "loop msg (p + 1) (d'\<lparr>current_msg_col := current_msg_col d' + 1\<rparr>) = Some res"
          using eq by (cases "64 \<le> current_msg_col d")
            (auto simp: display_consts wrapped_def next_row_def Let_def simp del: d_putchar_cursor)
        with IH char(6) show False by blast
      qed
    qed
  qed
  with assms show False by contradiction
qed

lemma display_message_unfit:
  assumes "ascii_text cs" "pos_ok (current_msg_row d) (current_msg_col d)" "screen_fits (d_fb d)"
    and "place 0 0 cs = None"
  shows "display_loop (cs @ 0 # rest) 0 d = None"
proof (rule display_loop_diverges)
  have "place (current_msg_row d) (current_msg_col d) cs = None"
    using assms(2) by (intro place_None_mono [OF assms(4)]) (auto simp: pos_ok_def)
  then show "doomed (cs @ 0 # rest) 0 d"
    unfolding doomed_def using assms
    by (intro conjI exI [of _ "[]"] exI [of _ cs] exI [of _ rest]) auto
qed

subsection \<open>Results on whole messages\<close>

text \<open>Enough room: weighing a newline as a whole row and any other character as one cell.\<close>

fun weight :: "u8 list \<Rightarrow> int" where
  "weight [] = 0"
| "weight (c # cs) = (if c = 0x0a then 64 else 1) + weight cs"

lemma weight_nonneg: "0 \<le> weight cs"
  by (induction cs) auto

lemma place_fits:
  "pos_ok row col \<Longrightarrow> 64 * row + col + weight cs < 1344 \<Longrightarrow> place row col cs \<noteq> None"
proof (induction row col cs rule: place.induct)
  case (2 row col c cs)
  have w: "0 \<le> weight cs" by (rule weight_nonneg)
  show ?case
  proof (cases "c = 0x0a")
    case True
    with "2.prems" w have "row + 1 \<le> 20" by (auto simp: pos_ok_def)
    with True "2.IH"(1) [OF True] "2.prems" show ?thesis by (auto simp: pos_ok_def)
  next
    case False
    have nf: "\<not> (64 \<le> col \<and> 20 < row + 1)" using "2.prems" w False by (auto simp: pos_ok_def)
    have "place (if 64 \<le> col then row + 1 else row) ((if 64 \<le> col then 0 else col) + 1) cs \<noteq> None"
      by (rule "2.IH"(2) [OF False nf refl refl]) (use "2.prems" nf False in \<open>auto simp: pos_ok_def\<close>)
    with False nf show ?thesis by (auto simp: Let_def)
  qed
qed simp

lemma last_write_distinct:
  "distinct (map snd ws) \<Longrightarrow> (c, x, y) \<in> set ws \<Longrightarrow> last_write ws x y = Some c"
proof (induction ws)
  case (Cons w ws)
  obtain c' x' y' where w: "w = (c', x', y')" by (cases w)
  show ?case
  proof (cases "(c, x, y) = w")
    case True
    with Cons.prems w have "last_write ws x y = None"
      by (force simp: last_write_None_iff)
    with True w show ?thesis by auto
  next
    case False
    with Cons w show ?thesis by auto
  qed
qed simp

subsection \<open>The input line\<close>

definition input_start :: "int \<Rightarrow> int" where
  "input_start cur = (if 63 < cur then cur - 63 else 0)"

definition input_text :: "u8 list \<Rightarrow> int \<Rightarrow> int \<Rightarrow> cell_write list" where
  "input_text buffer len cur =
     map (\<lambda>j. (buffer ! (nat (input_start cur) + j), 23, int j))
       [0..<nat (min (len - input_start cur) 63)]"

definition input_writes :: "u8 list \<Rightarrow> int \<Rightarrow> int \<Rightarrow> cell_write list" where
  "input_writes buffer len cur =
     map (\<lambda>j. (0x20, 23, int j)) [0..<64] @ input_text buffer len cur @ [(0x7c, 23, cur - input_start cur)]"

text \<open>What column \<open>j\<close> of the input row shows: the cursor, the text from \<open>input_start\<close> on, or a blank.\<close>

definition input_cell :: "u8 list \<Rightarrow> int \<Rightarrow> int \<Rightarrow> int \<Rightarrow> u8" where
  "input_cell buffer len cur j =
     (if j = cur - input_start cur then 0x7c
      else if j < 63 \<and> input_start cur + j < len then buffer ! nat (input_start cur + j)
      else 0x20)"

lemma draw_input_draw:
  "0 \<le> i \<Longrightarrow> len \<le> int (length buffer) \<Longrightarrow>
   draw_input buffer len width i row col d =
     draw d_putchar (map (\<lambda>j. (buffer ! (nat i + j), row, col + int j)) [0..<nat (min (len - i) (width - col))]) d"
proof (induction buffer len width i row col d rule: draw_input.induct)
  case (1 buffer len width i row col d)
  show ?case
  proof (cases "i < len \<and> col < width")
    case True
    let ?n = "nat (min (len - (i + 1)) (width - (col + 1)))"
    have n: "nat (min (len - i) (width - col)) = Suc ?n" using True by auto
    have i: "nat i < length buffer" using True "1.prems" by auto
    have hd: "map (\<lambda>j. (buffer ! (nat i + j), row, col + int j)) [0..<Suc ?n] =
        (buffer ! nat i, row, col) # map (\<lambda>j. (buffer ! (nat (i + 1) + j), row, (col + 1) + int j)) [0..<?n]"
      using "1.prems"(1) by (subst upt_conv_Cons) (auto simp: map_Suc_upt [symmetric] nat_add_distrib simp del: upt_Suc)
    show ?thesis
    proof (cases "d_putchar (buffer ! nat i) row col d")
      case None
      with True i "1.prems" show ?thesis unfolding n hd by (subst draw_input.simps) simp
    next
      case (Some d')
      have "draw_input buffer len width i row col d = draw_input buffer len width (i + 1) row (col + 1) d'"
        using True i "1.prems" Some by (subst draw_input.simps) simp
      also note "1.IH" [OF True _ Some]
      finally show ?thesis unfolding n hd using i "1.prems" Some by simp
    qed
  next
    case False
    then have "nat (min (len - i) (width - col)) = 0" by auto
    with False show ?thesis by (subst draw_input.simps) auto
  qed
qed

lemma upto_int_upt: "[0..63 :: int] = map int [0..<64]"
  by (simp add: upto.simps upt_rec)

lemma display_user_input_draw:
  assumes "0 \<le> cur" "cur \<le> len" "len \<le> int (length buffer)"
  shows "display_user_input buffer len cur d = draw d_putchar (input_writes buffer len cur) d"
proof -
  have st: "(if 63 < cur then cur - 63 else 0) = input_start cur" "0 \<le> input_start cur"
    by (simp_all add: input_start_def)
  have cd: "0 \<le> cur - input_start cur" "cur - input_start cur < 64"
    using assms(1) by (auto simp: input_start_def)
  have clear: "iter_opt (\<lambda>c. d_putchar 0x20 23 c) [0..63] d = draw d_putchar (map (\<lambda>j. (0x20, 23, int j)) [0..<64]) d"
    by (simp add: draw_def iter_opt_map upto_int_upt)
  have "display_user_input buffer len cur d =
      Option.bind (iter_opt (\<lambda>c. d_putchar 0x20 23 c) [0..63] d) (\<lambda>d.
        Option.bind (draw_input buffer len 63 (input_start cur) 23 0 d) (\<lambda>d.
          d_putchar 0x7c 23 (cur - input_start cur) d))"
    using cd by (simp add: display_user_input_def display_consts Let_def st(1))
  also have "\<dots> = draw d_putchar (input_writes buffer len cur) d"
    unfolding clear input_writes_def draw_append draw_input_draw [OF st(2) assms(3)]
    by (simp add: input_text_def draw_append cong: Option.bind_cong)
  finally show ?thesis .
qed

lemma last_write_append:
  "last_write (ws @ vs) row col =
     (case last_write vs row col of Some c \<Rightarrow> Some c | None \<Rightarrow> last_write ws row col)"
  by (induction ws) (auto split: option.splits)

lemma last_write_input:
  assumes "0 \<le> cur" "cur \<le> len" "0 \<le> row"
  shows "last_write (input_writes buffer len cur) row col =
    (if row = 23 \<and> 0 \<le> col \<and> col < 64 then Some (input_cell buffer len cur col) else None)"
proof -
  have "0 \<le> input_start cur" "cur - input_start cur < 64" "0 \<le> cur - input_start cur"
    using assms(1) by (auto simp: input_start_def)
  then show ?thesis
    by (auto simp: input_writes_def input_text_def last_write_append last_write_row input_cell_def
        nat_add_distrib split: option.splits if_splits)
qed

lemma input_writes_ok:
  assumes "0 \<le> cur" "cur \<le> len" "len \<le> int (length buffer)" "\<forall>c \<in> set (take (nat len) buffer). c < 128"
  shows "writes_ok (input_writes buffer len cur)"
proof -
  have st: "0 \<le> input_start cur" "cur - input_start cur < 64" "0 \<le> cur - input_start cur"
    using assms(1) by (auto simp: input_start_def)
  have "buffer ! (nat (input_start cur) + j) < 128" if "j < nat (min (len - input_start cur) 63)" for j
  proof -
    from that have lt: "nat (input_start cur) + j < nat len" using st(1) by auto
    with assms(3) have "take (nat len) buffer ! (nat (input_start cur) + j) \<in> set (take (nat len) buffer)"
      by (intro nth_mem) simp
    with assms(4) lt show ?thesis by simp
  qed
  with st show ?thesis
    by (auto simp: input_writes_def input_text_def writes_ok_def on_screen_def)
qed

lemma input_row_redrawn:
  assumes "screen_fits (d_fb d)" and "0 \<le> cur" "cur \<le> len" "len \<le> int (length buffer)"
    and "\<forall>c \<in> set (take (nat len) buffer). c < 128"
  shows "\<exists>d'. display_user_input buffer len cur d = Some d' \<and> screen_fits (d_fb d') \<and>
    current_msg_row d' = current_msg_row d \<and> current_msg_col d' = current_msg_col d \<and>
    (\<forall>col. 0 \<le> col \<and> col < 64 \<longrightarrow> shows_char (d_fb d') 23 col (input_cell buffer len cur col)) \<and>
    (\<forall>row col x. on_screen row col \<and> row \<noteq> 23 \<longrightarrow>
       shows_char (d_fb d') row col x = shows_char (d_fb d) row col x)"
proof -
  let ?ws = "input_writes buffer len cur"
  have ok: "writes_ok ?ws" by (rule input_writes_ok [OF assms(2-5)])
  obtain d' where d': "draw d_putchar ?ws d = Some d'" "screen_fits (d_fb d')"
    using ds.draw_total [OF assms(1) ok] by blast
  have "shows_char (d_fb d') 23 col (input_cell buffer len cur col)" if "0 \<le> col" "col < 64" for col
    using ds.draw_shows [OF assms(1) ok d'(1), of 23 col] that
    by (simp add: last_write_input [OF assms(2,3)] on_screen_def)
  moreover have "shows_char (d_fb d') row col x = shows_char (d_fb d) row col x"
    if "on_screen row col" "row \<noteq> 23" for row col x
    using ds.draw_frame [OF assms(1) ok d'(1) that(1), of x] that
    by (simp add: last_write_input [OF assms(2,3)] on_screen_def)
  ultimately show ?thesis
    using d' draw_keeps_cursor [OF d'(1)] display_user_input_draw [OF assms(2-4)] by auto
qed

text \<open>
  C24: Redrawing the input line never fails on a usable screen; afterwards every column of the
  input row shows the cursor bar, the character of the (possibly shifted) text there, or a
  blank, and no other cell and no message position has changed.
\<close>

theorem display_user_input_shows:
  assumes "screen_fits (d_fb d)" and "0 \<le> cur" "cur \<le> len" "len \<le> int (length buffer)"
    and "\<forall>c \<in> set (take (nat len) buffer). c < 128"
  shows "\<exists>d'. display_user_input buffer len cur d = Some d' \<and> screen_fits (d_fb d') \<and>
    current_msg_row d' = current_msg_row d \<and> current_msg_col d' = current_msg_col d \<and>
    (\<forall>col. 0 \<le> col \<and> col < 64 \<longrightarrow> shows_char (d_fb d') 23 col (input_cell buffer len cur col)) \<and>
    (\<forall>row col x. on_screen row col \<and> row \<noteq> 23 \<longrightarrow>
       shows_char (d_fb d') row col x = shows_char (d_fb d) row col x)"
  using assms by (rule input_row_redrawn)

definition xga_disp :: disp where
  "xga_disp = \<lparr>d_fb = xga, current_msg_row = 0, current_msg_col = 0\<rparr>"

theorem display_user_input_shows_witness:
  "\<exists>d'. display_user_input [0x68, 0x69, 0] 2 1 xga_disp = Some d' \<and>
     shows_char (d_fb d') 23 0 0x68 \<and> shows_char (d_fb d') 23 1 0x7c \<and> shows_char (d_fb d') 23 2 0x20"
proof -
  have "\<exists>d'. display_user_input [0x68, 0x69, 0] 2 1 xga_disp = Some d' \<and>
      (\<forall>col. 0 \<le> col \<and> col < 64 \<longrightarrow> shows_char (d_fb d') 23 col (input_cell [0x68, 0x69, 0] 2 1 col))"
    using display_user_input_shows [of xga_disp 1 2 "[0x68, 0x69, 0]"]
    by (simp add: xga_disp_def xga_fits) blast
  then obtain d' where d': "display_user_input [0x68, 0x69, 0] 2 1 xga_disp = Some d'"
    "\<And>col. 0 \<le> col \<and> col < 64 \<Longrightarrow> shows_char (d_fb d') 23 col (input_cell [0x68, 0x69, 0] 2 1 col)"
    by blast
  from d'(2) [of 0] d'(2) [of 1] d'(2) [of 2] d'(1) show ?thesis
    by (auto simp: input_cell_def input_start_def)
qed

subsection \<open>Messages\<close>

lemma end_message_ok:
  assumes "screen_fits (d_fb d)" "pos_ok (current_msg_row d) (current_msg_col d)"
  shows "\<exists>d'. end_message d = Some d' \<and> screen_fits (d_fb d') \<and>
    pos_ok (current_msg_row d') (current_msg_col d') \<and> current_msg_col d' = 0"
proof -
  obtain d' where "clear_message_area (next_row d) = Some d'" "screen_fits (d_fb d')"
    "current_msg_row d' = 0" "current_msg_col d' = 0"
    using clear_message_area_ok [of "next_row d"] assms(1) by (metis next_row_sel(3))
  with assms show ?thesis
    by (cases "20 < current_msg_row d + 1")
      (auto simp: end_message_def display_consts pos_ok_def Let_def next_row_def)
qed

text \<open>What a message of any bytes leaves alone, whenever displaying it returns.\<close>

definition msg_step :: "disp \<Rightarrow> disp \<Rightarrow> bool" where
  "msg_step d d' \<longleftrightarrow> screen_fits (d_fb d') \<and> pos_ok (current_msg_row d') (current_msg_col d') \<and>
     (\<forall>row col x. on_screen row col \<and> 20 < row \<longrightarrow>
        shows_char (d_fb d') row col x = shows_char (d_fb d) row col x)"

lemma clear_msg_step:
  assumes "screen_fits (d_fb d)" "clear_message_area d = Some d'"
  shows "msg_step d d'"
proof -
  obtain d1 where "clear_message_area d = Some d1" "screen_fits (d_fb d1)"
    "current_msg_row d1 = 0" "current_msg_col d1 = 0"
    "\<And>row col x. on_screen row col \<Longrightarrow> 20 < row \<Longrightarrow>
       shows_char (d_fb d1) row col x = shows_char (d_fb d) row col x"
    using clear_message_area_ok [OF assms(1)] by metis
  with assms(2) show ?thesis by (simp add: msg_step_def pos_ok_def)
qed

lemma putchar_msg_step:
  assumes "screen_fits (d_fb d)" "pos_ok row (col + 1)" "0 \<le> col" "d_putchar c row col d = Some d'"
  shows "msg_step d (d'\<lparr>current_msg_row := row, current_msg_col := col + 1\<rparr>)"
proof -
  have on: "on_screen row col" using assms(2,3) by (simp add: pos_ok_def on_screen_def)
  have c: "c < 128"
  proof (rule ccontr)
    assume "\<not> c < 128"
    with fbputchar_outside_font [of c row col "d_fb d"] assms(4) show False
      by (simp add: d_putchar_def not_less)
  qed
  from ds.putc_ok [OF assms(1) on c] ds.putc_frame [OF assms(1) on c assms(4)] assms(2,4)
  show ?thesis by (fastforce simp: msg_step_def pos_ok_def)
qed

lemma msg_step_trans: "msg_step d d1 \<Longrightarrow> msg_step d1 d2 \<Longrightarrow> msg_step d d2"
  by (simp add: msg_step_def)

definition disp_ok :: "disp \<Rightarrow> bool" where
  "disp_ok d \<longleftrightarrow> screen_fits (d_fb d) \<and> pos_ok (current_msg_row d) (current_msg_col d)"

lemma msg_step_ok: "msg_step d d' \<Longrightarrow> disp_ok d'"
  by (simp add: msg_step_def disp_ok_def)

lemma msg_step_next_row: "msg_step (next_row d) d' \<Longrightarrow> msg_step d d'"
  by (simp add: msg_step_def)

lemma display_loop_keeps:
  assumes "display_loop msg p d = Some y" "y = Some d'" "disp_ok d"
  shows "msg_step d d'"
proof -
  let ?P = "\<lambda>msg (p :: nat) d y. \<forall>d'. y = Some d' \<longrightarrow> disp_ok d \<longrightarrow> msg_step d d'"
  have "?P msg p d y"
  proof (rule display_loop.raw_induct [where P = ?P, OF _ assms(1)])
    fix loop :: "u8 list \<Rightarrow> nat \<Rightarrow> disp \<Rightarrow> disp option option" and msg p d y
    assume ih: "\<And>msg p d y. loop msg p d = Some y \<Longrightarrow> ?P msg p d y"
      and body: "(if length msg \<le> p then Some None
      else if msg ! p = 0 then Some (Some d)
      else if msg ! p = 0x0a then
        (let d = d\<lparr>current_msg_col := 0, current_msg_row := current_msg_row d + 1\<rparr> in
         if MSG_AREA_BOTTOM < current_msg_row d then
           (case clear_message_area d of
              None \<Rightarrow> Some None
            | Some d \<Rightarrow> loop msg 0 d)
         else loop msg (p + 1) d)
      else if MSG_AREA_COLS \<le> current_msg_col d \<and> MSG_AREA_BOTTOM < current_msg_row d + 1 then
        (case clear_message_area (d\<lparr>current_msg_col := 0, current_msg_row := current_msg_row d + 1\<rparr>) of
           None \<Rightarrow> Some None
         | Some d \<Rightarrow> loop msg 0 d)
      else
        (let d = (if MSG_AREA_COLS \<le> current_msg_col d
                  then d\<lparr>current_msg_col := 0, current_msg_row := current_msg_row d + 1\<rparr> else d) in
         case d_putchar (msg ! p) (current_msg_row d) (current_msg_col d) d of
           None \<Rightarrow> Some None
         | Some d \<Rightarrow> loop msg (p + 1) (d\<lparr>current_msg_col := current_msg_col d + 1\<rparr>))) = Some y"
    show "?P msg p d y"
    proof (intro allI impI)
      fix d' assume y: "y = Some d'" and d: "disp_ok d"
      have IH: "msg_step e d'" if "loop msg q e = Some (Some d')" "disp_ok e" for q e
        using ih [OF that(1)] that(2) by simp
      have again: "msg_step d d'"
        if "clear_message_area (next_row d) = Some e" "loop msg 0 e = Some (Some d')" for e
      proof -
        have "msg_step (next_row d) e" using that(1) d by (intro clear_msg_step) (auto simp: disp_ok_def)
        then show ?thesis
          using IH [OF that(2)] msg_step_ok msg_step_next_row msg_step_trans by blast
      qed
      have put: "msg_step d d'"
        if "d_putchar c (current_msg_row (wrapped d)) (current_msg_col (wrapped d)) (wrapped d) = Some e"
          "loop msg (Suc p) (e\<lparr>current_msg_col := current_msg_col e + 1\<rparr>) = Some (Some d')"
          "\<not> (64 \<le> current_msg_col d \<and> 20 < current_msg_row d + 1)" for c e
      proof -
        let ?w = "wrapped d"
        have e: "e\<lparr>current_msg_row := current_msg_row ?w, current_msg_col := current_msg_col ?w + 1\<rparr> =
            e\<lparr>current_msg_col := current_msg_col e + 1\<rparr>"
          using that(1) by (auto simp: d_putchar_def)
        have "msg_step ?w (e\<lparr>current_msg_col := current_msg_col e + 1\<rparr>)"
          unfolding e [symmetric] using d that(1,3)
          by (intro putchar_msg_step) (auto simp: disp_ok_def pos_ok_def)
        then have "msg_step d (e\<lparr>current_msg_col := current_msg_col e + 1\<rparr>)"
          by (simp add: msg_step_def)
        then show ?thesis using IH [OF that(2)] msg_step_ok msg_step_trans by blast
      qed
      have line: "msg_step d d'"
        if "loop msg (Suc p) (next_row d) = Some (Some d')" "current_msg_row d + 1 \<le> 20"
      proof -
        have "msg_step d (next_row d)" using d that(2) by (simp add: msg_step_def disp_ok_def pos_ok_def)
        then show ?thesis using IH [OF that(1)] msg_step_ok msg_step_trans by blast
      qed
      have w: "(if MSG_AREA_COLS \<le> current_msg_col d then next_row d else d) = wrapped d"
        by (simp add: wrapped_def display_consts)
      consider "length msg \<le> p" | "p < length msg" "msg ! p = 0" | (nl) "p < length msg" "msg ! p = 0x0a"
        | (full) "p < length msg" "msg ! p \<notin> {0, 0x0a}" "64 \<le> current_msg_col d \<and> 20 < current_msg_row d + 1"
        | (char) "p < length msg" "msg ! p \<notin> {0, 0x0a}" "\<not> (64 \<le> current_msg_col d \<and> 20 < current_msg_row d + 1)"
        by (cases "p < length msg") (auto simp: not_less)
      then show "msg_step d d'"
      proof cases
        case nl
        with body y show ?thesis
          unfolding next_row_def [symmetric] Let_def
          by (auto simp: display_consts intro: line again split: if_splits option.splits)
      next
        case full
        with body y show ?thesis
          by (auto simp: display_consts next_row_def [symmetric] intro: again split: option.splits)
      next
        case char
        with body y show ?thesis
          unfolding next_row_def [symmetric] w Let_def
          by (auto simp: display_consts intro: put simp del: wrapped_sel split: option.splits)
      qed (use body y d in \<open>auto simp: msg_step_def disp_ok_def\<close>)
    qed
  qed
  with assms show ?thesis by simp
qed

lemma display_message_keeps:
  assumes "display_message msg r g b d = Some (Some d')" "disp_ok d"
  shows "msg_step d d'"
proof -
  from assms(1) obtain d1 where d1: "display_loop msg 0 d = Some (Some d1)" "end_message d1 = Some d'"
    by (auto simp: display_message_def split: option.splits)
  have 1: "msg_step d d1" using display_loop_keeps [OF d1(1) refl assms(2)] .
  moreover have "msg_step d1 d'"
  proof (cases "0 < current_msg_col d1 \<and> 20 < current_msg_row d1 + 1")
    case True
    with d1(2) have "clear_message_area (next_row d1) = Some d'"
      by (simp add: end_message_def display_consts next_row_def Let_def)
    moreover have "screen_fits (d_fb (next_row d1))" using 1 by (simp add: msg_step_def)
    ultimately show ?thesis using clear_msg_step msg_step_next_row by blast
  next
    case False
    with d1(2) have "d' = (if 0 < current_msg_col d1 then next_row d1 else d1)"
      by (auto simp: end_message_def display_consts next_row_def Let_def)
    moreover have "pos_ok (current_msg_row d1) (current_msg_col d1)" using 1 by (simp add: msg_step_def)
    ultimately have "d_fb d' = d_fb d1" "pos_ok (current_msg_row d') (current_msg_col d')"
      using False by (auto simp: pos_ok_def)
    with 1 show ?thesis by (simp add: msg_step_def)
  qed
  ultimately show ?thesis by (rule msg_step_trans)
qed

text \<open>
  C5: On a usable screen, displaying an ASCII message returns if and only if the message fits an
  empty message area, and then it succeeds and leaves a valid position; a message that does not
  fit is cleared and restarted forever.
\<close>

theorem display_message_terminates_iff:
  assumes "ascii_text cs" "pos_ok (current_msg_row d) (current_msg_col d)" "screen_fits (d_fb d)"
  shows "(display_message (cs @ 0 # rest) r g b d \<noteq> None \<longleftrightarrow> place 0 0 cs \<noteq> None) \<and>
    (place 0 0 cs \<noteq> None \<longrightarrow> (\<exists>d'. display_message (cs @ 0 # rest) r g b d = Some (Some d') \<and>
       screen_fits (d_fb d') \<and> pos_ok (current_msg_row d') (current_msg_col d')))"
proof (cases "place 0 0 cs")
  case None
  with display_message_unfit [OF assms None, of rest] show ?thesis
    by (simp add: display_message_def)
next
  case (Some a)
  then obtain d1 where "display_loop (cs @ 0 # rest) 0 d = Some (Some d1)" "screen_fits (d_fb d1)"
    "pos_ok (current_msg_row d1) (current_msg_col d1)"
    using display_loop_returns [OF assms] by blast
  with end_message_ok [of d1] Some show ?thesis
    by (auto simp: display_message_def)
qed

theorem display_message_terminates_iff_witness:
  "(\<exists>d'. display_message [0x68, 0x69, 0x0a, 0] 255 255 255 xga_disp = Some (Some d')) \<and>
   display_message (replicate 21 0x0a @ [0]) 255 255 255 xga_disp = None"
proof -
  have d: "pos_ok (current_msg_row xga_disp) (current_msg_col xga_disp)" "screen_fits (d_fb xga_disp)"
    by (simp_all add: xga_disp_def pos_ok_def xga_fits)
  have fit: "place 0 0 [0x68, 0x69, 0x0a] \<noteq> None" by simp
  have unfit: "place 0 0 (replicate 21 0x0a) = None" by (simp add: numeral_eq_Suc)
  have asc: "ascii_text [0x68, 0x69, 0x0a]" "ascii_text (replicate 21 0x0a)" by (simp_all add: ascii_text_def)
  show ?thesis
    using display_message_terminates_iff [OF asc(1) d, of "[]" 255 255 255]
      display_message_terminates_iff [OF asc(2) d, of "[]" 255 255 255] fit unfit by auto
qed

text \<open>
  C23: A message that fits below the current position is shown exactly where \<open>place\<close> puts its
  characters; every cell outside those keeps what it showed, and the next message starts on the
  row after the last one used (or on the same row when the message ended in a newline).
\<close>

theorem display_message_shows:
  assumes "ascii_text cs" "pos_ok (current_msg_row d) (current_msg_col d)" "screen_fits (d_fb d)"
    and "place (current_msg_row d) (current_msg_col d) cs = Some (ws, r, k)" and "r < 20 \<or> k = 0"
  shows "\<exists>d'. display_message (cs @ 0 # rest) red green blue d = Some (Some d') \<and>
    (\<forall>(c, row, col) \<in> set ws. shows_char (d_fb d') row col c) \<and>
    (\<forall>row col x. on_screen row col \<and> (row, col) \<notin> snd ` set ws \<longrightarrow>
       shows_char (d_fb d') row col x = shows_char (d_fb d) row col x) \<and>
    current_msg_row d' = (if 0 < k then r + 1 else r) \<and> current_msg_col d' = 0"
proof -
  note props = place_props [OF assms(2,1,4)]
  then have ok: "writes_ok ws" by simp
  obtain d1 where d1: "draw d_putchar ws d = Some d1" "screen_fits (d_fb d1)"
    using ds.draw_total [OF assms(3) ok] by blast
  have sh: "shows_char (d_fb d1) row col c" if "(c, row, col) \<in> set ws" for c row col
  proof -
    have "on_screen row col" using ok that by (auto simp: writes_ok_def)
    moreover have "last_write ws row col = Some c"
      using props that by (intro last_write_distinct) auto
    ultimately show ?thesis by (rule ds.draw_shows [OF assms(3) ok d1(1)])
  qed
  have fr: "shows_char (d_fb d1) row col x = shows_char (d_fb d) row col x"
    if "on_screen row col" "(row, col) \<notin> snd ` set ws" for row col x
    using that by (intro ds.draw_frame [OF assms(3) ok d1(1) that(1)]) (auto simp: last_write_None_iff image_iff)
  let ?d1 = "d1\<lparr>current_msg_row := r, current_msg_col := k\<rparr>"
  have "display_message (cs @ 0 # rest) red green blue d = Some (end_message ?d1)"
    using display_loop_place [OF assms(1-4), of "[]" rest] d1(1) by (simp add: display_message_def)
  moreover have "end_message ?d1 =
      Some (d1\<lparr>current_msg_row := (if 0 < k then r + 1 else r), current_msg_col := 0\<rparr>)"
    using assms(5) props by (auto simp: end_message_def display_consts Let_def pos_ok_def)
  ultimately show ?thesis using sh fr by auto
qed

theorem display_message_shows_witness:
  "\<exists>d'. display_message [0x68, 0x69, 0] 255 255 255 xga_disp = Some (Some d') \<and>
     shows_char (d_fb d') 0 0 0x68 \<and> shows_char (d_fb d') 0 1 0x69 \<and> current_msg_row d' = 1"
proof -
  have "place (current_msg_row xga_disp) (current_msg_col xga_disp) [0x68, 0x69] =
      Some ([(0x68, 0, 0), (0x69, 0, 1)], 0, 2)"
    by (simp add: xga_disp_def)
  from display_message_shows [OF _ _ _ this, of "[]" 255 255 255] show ?thesis
    by (force simp: xga_disp_def xga_fits pos_ok_def)
qed

text \<open>
  C40: A message whose last line ends on row 20, the last row of the area, is wiped as soon as it
  has been displayed: the call returns with the whole message area blank.
\<close>

theorem display_message_bottom_row_wiped:
  assumes "ascii_text cs" "pos_ok (current_msg_row d) (current_msg_col d)" "screen_fits (d_fb d)"
    and "place (current_msg_row d) (current_msg_col d) cs = Some (ws, 20, k)" and "0 < k"
  shows "\<exists>d'. display_message (cs @ 0 # rest) red green blue d = Some (Some d') \<and>
    (\<forall>row col. on_screen row col \<and> row \<le> 20 \<longrightarrow> shows_char (d_fb d') row col 0x20) \<and>
    current_msg_row d' = 0 \<and> current_msg_col d' = 0"
proof -
  have ok: "writes_ok ws" using place_props [OF assms(2,1,4)] by simp
  obtain d1 where d1: "draw d_putchar ws d = Some d1" "screen_fits (d_fb d1)"
    using ds.draw_total [OF assms(3) ok] by blast
  let ?d1 = "next_row (d1\<lparr>current_msg_row := 20, current_msg_col := k\<rparr>)"
  have "display_message (cs @ 0 # rest) red green blue d = Some (clear_message_area ?d1)"
    using display_loop_place [OF assms(1-4), of "[]" rest] d1(1) assms(5)
    by (simp add: display_message_def end_message_def display_consts Let_def next_row_def)
  moreover obtain d' where "clear_message_area ?d1 = Some d'"
    "current_msg_row d' = 0" "current_msg_col d' = 0"
    "\<And>row col. on_screen row col \<Longrightarrow> row \<le> 20 \<Longrightarrow> shows_char (d_fb d') row col 0x20"
    using clear_message_area_ok [of ?d1] d1(2) by (metis disp.select_convs(1) disp.surjective
        disp.update_convs(2,3) next_row_sel(3))
  ultimately show ?thesis by auto
qed

theorem display_message_bottom_row_wiped_witness:
  "\<exists>d'. display_message [0x68, 0] 255 255 255 (xga_disp\<lparr>current_msg_row := 20\<rparr>) = Some (Some d') \<and>
     shows_char (d_fb d') 20 0 0x20"
proof -
  have "place 20 0 [0x68] = Some ([(0x68, 20, 0)], 20, 1)" by simp
  with display_message_bottom_row_wiped
      [of "[0x68]" "xga_disp\<lparr>current_msg_row := 20\<rparr>" "[(0x68, 20, 0)]" 1 "[]" 255 255 255]
  show ?thesis by (force simp: xga_disp_def xga_fits pos_ok_def on_screen_def)
qed

end
