(* ===== verification/Keyboard.thy ===== *)
theory Keyboard
  imports Display
begin

text \<open>
  The line editor of the chat client, \<open>src/lab2/keyboard.c\<close>: translation of USB key codes, the
  256-byte input buffer with its cursor, sending a finished line, and the edge detection that
  compares a packet with the previous one.  The static variables of the file are the record
  \<open>kbd\<close>; together with the display and the socket (an arbitrary world \<open>'w\<close> with the \<open>write\<close>
  call as a parameter) they are the record \<open>client\<close>.

  The lemmas show that the buffer operations refine a pure line editor (the text left and right
  of the cursor), that the buffer never overflows and stays terminated, and what each key does.
\<close>

record usb_keyboard_packet =
  modifiers :: u8
  reserved :: u8
  keycode :: "u8 list"

definition USB_LSHIFT :: u8 where "USB_LSHIFT = push_bit 1 1"
definition USB_RSHIFT :: u8 where "USB_RSHIFT = push_bit 5 1"

definition HID_ENTER :: u8 where "HID_ENTER = 0x28"
definition HID_ESCAPE :: u8 where "HID_ESCAPE = 0x29"
definition HID_CAPSLOCK :: u8 where "HID_CAPSLOCK = 0x39"
definition HID_BACKSPACE :: u8 where "HID_BACKSPACE = 0x2a"
definition HID_TAB :: u8 where "HID_TAB = 0x2b"
definition HID_RIGHT :: u8 where "HID_RIGHT = 0x4f"
definition HID_LEFT :: u8 where "HID_LEFT = 0x50"

lemmas hid_codes [bounds_simps] =
  HID_ENTER_def HID_ESCAPE_def HID_CAPSLOCK_def HID_BACKSPACE_def HID_TAB_def HID_RIGHT_def HID_LEFT_def

definition keycode_to_ascii_unshifted :: "u8 list" where
  "keycode_to_ascii_unshifted =
    [0, 0, 0, 0, 0x61, 0x62, 0x63, 0x64,
     0x65, 0x66, 0x67, 0x68, 0x69, 0x6a, 0x6b, 0x6c,
     0x6d, 0x6e, 0x6f, 0x70, 0x71, 0x72, 0x73, 0x74,
     0x75, 0x76, 0x77, 0x78, 0x79, 0x7a, 0x31, 0x32,
     0x33, 0x34, 0x35, 0x36, 0x37, 0x38, 0x39, 0x30,
     0x0a, 0, 0, 0x09, 0x20, 0x2d, 0x3d, 0x5b,
     0x5d, 0x5c, 0, 0x3b, 0x27, 0x60, 0x2c, 0x2e,
     0x2f, 0, 0, 0, 0, 0, 0, 0] @ replicate 64 0"

definition keycode_to_ascii_shifted :: "u8 list" where
  "keycode_to_ascii_shifted =
    [0, 0, 0, 0, 0x41, 0x42, 0x43, 0x44,
     0x45, 0x46, 0x47, 0x48, 0x49, 0x4a, 0x4b, 0x4c,
     0x4d, 0x4e, 0x4f, 0x50, 0x51, 0x52, 0x53, 0x54,
     0x55, 0x56, 0x57, 0x58, 0x59, 0x5a, 0x21, 0x40,
     0x23, 0x24, 0x25, 0x5e, 0x26, 0x2a, 0x28, 0x29,
     0x0a, 0, 0, 0x09, 0x20, 0x5f, 0x2b, 0x7b,
     0x7d, 0x7c, 0, 0x3a, 0x22, 0x7e, 0x3c, 0x3e,
     0x3f, 0, 0, 0, 0, 0, 0, 0] @ replicate 64 0"

definition INPUT_BUFFER_SIZE :: int where "INPUT_BUFFER_SIZE = 256"

record kbd =
  is_caps_on :: bool
  previous_packet :: usb_keyboard_packet
  input_buffer :: "u8 list"
  input_length :: int
  cursor_position :: int

record 'w client =
  kb :: kbd
  dp :: disp
  net :: 'w

subsection \<open>Key codes\<close>

definition handle_caps :: "u8 \<Rightarrow> kbd \<Rightarrow> kbd" where
  "handle_caps key k = (if key = HID_CAPSLOCK then k\<lparr>is_caps_on := \<not> is_caps_on k\<rparr> else k)"

definition keycode_to_ascii :: "u8 \<Rightarrow> u8 \<Rightarrow> kbd \<Rightarrow> u8" where
  "keycode_to_ascii key mods k =
     (if key = 0 then 0
      else if 128 \<le> key then 0
      else
        let shift_pressed = (mods AND USB_LSHIFT \<noteq> 0 \<or> mods AND USB_RSHIFT \<noteq> 0);
            layer_toggle = (if 0x04 \<le> key \<and> key \<le> 0x1d
                            then shift_pressed \<noteq> is_caps_on k else shift_pressed)
        in if layer_toggle then keycode_to_ascii_shifted ! unat key
           else keycode_to_ascii_unshifted ! unat key)"

definition is_special_key :: "u8 \<Rightarrow> bool" where
  "is_special_key key \<longleftrightarrow>
     key = HID_ENTER \<or> key = HID_ESCAPE \<or> key = HID_CAPSLOCK \<or> key = HID_BACKSPACE \<or> key = HID_TAB"

subsection \<open>The input buffer\<close>

definition buf_get :: "u8 list \<Rightarrow> int \<Rightarrow> u8 option" where
  "buf_get b i = (if 0 \<le> i \<and> i < int (length b) then Some (b ! nat i) else None)"

definition buf_set :: "u8 list \<Rightarrow> int \<Rightarrow> u8 \<Rightarrow> u8 list option" where
  "buf_set b i v = (if 0 \<le> i \<and> i < int (length b) then Some (b[nat i := v]) else None)"

function shift_right :: "int \<Rightarrow> int \<Rightarrow> u8 list \<Rightarrow> u8 list option" where
  "shift_right cur i b =
     (if cur < i then
        (case buf_get b (i - 1) of
           None \<Rightarrow> None
         | Some v \<Rightarrow> (case buf_set b i v of None \<Rightarrow> None | Some b \<Rightarrow> shift_right cur (i - 1) b))
      else Some b)"
  by pat_completeness auto
termination
  by (relation "measure (\<lambda>(cur, i, b). nat (i - cur))") auto

function shift_left :: "int \<Rightarrow> int \<Rightarrow> u8 list \<Rightarrow> u8 list option" where
  "shift_left i stop b =
     (if i < stop then
        (case buf_get b (i + 1) of
           None \<Rightarrow> None
         | Some v \<Rightarrow> (case buf_set b i v of None \<Rightarrow> None | Some b \<Rightarrow> shift_left (i + 1) stop b))
      else Some b)"
  by pat_completeness auto
termination
  by (relation "measure (\<lambda>(i, stop, b). nat (stop - i))") auto

declare shift_right.simps [simp del] shift_left.simps [simp del]

definition redraw_input :: "'w client \<Rightarrow> 'w client option" where
  "redraw_input s =
     map_option (\<lambda>d. s\<lparr>dp := d\<rparr>)
       (display_user_input (input_buffer (kb s)) (input_length (kb s)) (cursor_position (kb s)) (dp s))"

definition input_buf_add_char :: "u8 \<Rightarrow> 'w client \<Rightarrow> 'w client option" where
  "input_buf_add_char c s =
     (let k = kb s in
      if input_length k < INPUT_BUFFER_SIZE - 1 then
        do { b \<leftarrow> shift_right (cursor_position k) (input_length k) (input_buffer k);
             b \<leftarrow> buf_set b (cursor_position k) c;
             b \<leftarrow> buf_set b (input_length k + 1) 0;
             redraw_input (s\<lparr>kb := k\<lparr>input_buffer := b, input_length := input_length k + 1,
                                     cursor_position := cursor_position k + 1\<rparr>\<rparr>) }
      else Some s)"

definition input_buf_delete_char :: "'w client \<Rightarrow> 'w client option" where
  "input_buf_delete_char s =
     (let k = kb s in
      if 0 < cursor_position k then
        do { b \<leftarrow> shift_left (cursor_position k - 1) (input_length k - 1) (input_buffer k);
             b \<leftarrow> buf_set b (input_length k - 1) 0;
             redraw_input (s\<lparr>kb := k\<lparr>input_buffer := b, input_length := input_length k - 1,
                                     cursor_position := cursor_position k - 1\<rparr>\<rparr>) }
      else Some s)"

definition input_buf_clear :: "'w client \<Rightarrow> 'w client option" where
  "input_buf_clear s =
     do { b \<leftarrow> buf_set (input_buffer (kb s)) 0 0;
          redraw_input (s\<lparr>kb := (kb s)\<lparr>input_buffer := b, input_length := 0, cursor_position := 0\<rparr>\<rparr>) }"

definition cursor_move_left :: "'w client \<Rightarrow> 'w client option" where
  "cursor_move_left s =
     (if 0 < cursor_position (kb s)
      then redraw_input (s\<lparr>kb := (kb s)\<lparr>cursor_position := cursor_position (kb s) - 1\<rparr>\<rparr>)
      else Some s)"

definition cursor_move_right :: "'w client \<Rightarrow> 'w client option" where
  "cursor_move_right s =
     (if cursor_position (kb s) < input_length (kb s)
      then redraw_input (s\<lparr>kb := (kb s)\<lparr>cursor_position := cursor_position (kb s) + 1\<rparr>\<rparr>)
      else Some s)"

subsection \<open>Sending a line and handling a key\<close>

text \<open>
  \<open>write\<close> is the system call: the bytes offered and the world give the count it returns (an
  error is negative) and the next world.  Offering bytes outside the buffer is \<open>None\<close>.  The result
  of the loop is the C return code.
\<close>

type_synonym 'w write_call = "u8 list \<Rightarrow> 'w \<Rightarrow> int \<times> 'w"

function send_loop :: "'w write_call \<Rightarrow> u8 list \<Rightarrow> int \<Rightarrow> int \<Rightarrow> 'w \<Rightarrow> (int \<times> 'w) option" where
  "send_loop wr b len sent w =
     (if sent < len then
        if 0 \<le> sent \<and> len \<le> int (length b) then
          (case wr (take (nat (len - sent)) (drop (nat sent) b)) w of
             (n, w') \<Rightarrow> if n \<le> 0 then Some (-1, w') else send_loop wr b len (sent + n) w')
        else None
      else Some (0, w))"
  by pat_completeness auto
termination
  by (relation "measure (\<lambda>(wr, b, len, sent, w). nat (len - sent))") auto

declare send_loop.simps [simp del]

definition send_input_buffer_to_server :: "'w write_call \<Rightarrow> 'w client \<Rightarrow> (int \<times> 'w client) option" where
  "send_input_buffer_to_server wr s =
     map_option (\<lambda>(rc, w). (rc, s\<lparr>net := w\<rparr>)) (send_loop wr (input_buffer (kb s)) (input_length (kb s)) 0 (net s))"

definition handle_keypress :: "'w write_call \<Rightarrow> u8 \<Rightarrow> u8 \<Rightarrow> 'w client \<Rightarrow> 'w client option" where
  "handle_keypress wr key mods s =
     (if key = HID_CAPSLOCK then Some (s\<lparr>kb := handle_caps key (kb s)\<rparr>)
      else if key = HID_BACKSPACE then input_buf_delete_char s
      else if key = HID_TAB then iter_opt (\<lambda>_. input_buf_add_char 0x20) [0..<4] s
      else if key = HID_ENTER then
        (if 0 < input_length (kb s) then
           do { (rc, s) \<leftarrow> send_input_buffer_to_server wr s;
                if rc = 0 then input_buf_clear s else Some s }
         else Some s)
      else if key = HID_ESCAPE then Some s
      else if key = HID_LEFT then cursor_move_left s
      else if key = HID_RIGHT then cursor_move_right s
      else
        let ascii = keycode_to_ascii key mods (kb s) in
        if ascii \<noteq> 0 \<and> ascii \<noteq> 0x0a \<and> ascii \<noteq> 0x09 then input_buf_add_char ascii s else Some s)"

definition is_new_keypress :: "u8 \<Rightarrow> kbd \<Rightarrow> bool" where
  "is_new_keypress key k \<longleftrightarrow>
     key \<noteq> 0 \<and> list_all (\<lambda>i. keycode (previous_packet k) ! i \<noteq> key) [0..<6]"

definition is_repeatable_key :: "u8 \<Rightarrow> bool" where
  "is_repeatable_key key \<longleftrightarrow> \<not> (key = HID_ENTER \<or> key = HID_ESCAPE \<or> key = HID_CAPSLOCK)"

definition keyboard_save_packet :: "usb_keyboard_packet \<Rightarrow> kbd \<Rightarrow> kbd" where
  "keyboard_save_packet p k = k\<lparr>previous_packet := p\<rparr>"

subsection \<open>The buffer refines a line editor\<close>

text \<open>
  \<open>kbd_ok\<close>: the invariant of the buffer.  The array has its 256 bytes, the cursor is inside the
  text, the text leaves room for the terminator, which is in place, and every character of the
  text is printable by the font.
\<close>

definition text_of :: "kbd \<Rightarrow> u8 list" where
  "text_of k = take (nat (input_length k)) (input_buffer k)"

definition kbd_ok :: "kbd \<Rightarrow> bool" where
  "kbd_ok k \<longleftrightarrow> length (input_buffer k) = 256 \<and> 0 \<le> cursor_position k \<and>
     cursor_position k \<le> input_length k \<and> input_length k \<le> 255 \<and>
     input_buffer k ! nat (input_length k) = 0 \<and> ascii_text (text_of k)"

text \<open>The abstract editor: the text before and after the cursor, and its operations.\<close>

type_synonym editor = "u8 list \<times> u8 list"

definition editor_of :: "kbd \<Rightarrow> editor" where
  "editor_of k = (take (nat (cursor_position k)) (text_of k), drop (nat (cursor_position k)) (text_of k))"

fun ed_insert :: "u8 \<Rightarrow> editor \<Rightarrow> editor" where
  "ed_insert c (l, r) = (if length l + length r < 255 then (l @ [c], r) else (l, r))"

fun ed_backspace :: "editor \<Rightarrow> editor" where
  "ed_backspace (l, r) = (butlast l, r)"

fun ed_left :: "editor \<Rightarrow> editor" where
  "ed_left (l, r) = (if l = [] then (l, r) else (butlast l, last l # r))"

fun ed_right :: "editor \<Rightarrow> editor" where
  "ed_right (l, r) = (case r of [] \<Rightarrow> (l, r) | c # r' \<Rightarrow> (l @ [c], r'))"

definition ed_clear :: "editor \<Rightarrow> editor" where
  "ed_clear e = ([], [])"

lemma shift_right_eq:
  assumes "0 \<le> cur" "cur \<le> i" "i < int (length b)"
  shows "\<exists>b'. shift_right cur i b = Some b' \<and> length b' = length b \<and>
    (\<forall>j < length b. b' ! j = (if cur < int j \<and> int j \<le> i then b ! (j - 1) else b ! j))"
  using assms
proof (induction cur i b rule: shift_right.induct)
  case (1 cur i b)
  show ?case
  proof (cases "cur < i")
    case True
    let ?b = "b[nat i := b ! nat (i - 1)]"
    have get: "buf_get b (i - 1) = Some (b ! nat (i - 1))" and set: "buf_set b i (b ! nat (i - 1)) = Some ?b"
      using True "1.prems" by (simp_all add: buf_get_def buf_set_def)
    obtain b' where b': "shift_right cur (i - 1) ?b = Some b'" "length b' = length b"
      "\<forall>j < length b. b' ! j = (if cur < int j \<and> int j \<le> i - 1 then ?b ! (j - 1) else ?b ! j)"
      using "1.IH" [OF True get set] True "1.prems" by auto
    have "b' ! j = (if cur < int j \<and> int j \<le> i then b ! (j - 1) else b ! j)" if j: "j < length b" for j
    proof (cases "int j = i")
      case True
      then have "nat i = j" "nat (i - 1) = j - 1" by auto
      with True j b'(3) \<open>cur < i\<close> show ?thesis by simp
    next
      case False
      have "j \<noteq> nat i" using False "1.prems" by auto
      moreover have "j - 1 \<noteq> nat i" if "int j \<le> i - 1" using that "1.prems" by auto
      ultimately show ?thesis using False j b'(3) by auto
    qed
    with b' get set True show ?thesis by (subst shift_right.simps) simp
  next
    case False
    then show ?thesis using "1.prems" by (subst shift_right.simps) auto
  qed
qed

lemma shift_left_eq:
  assumes "0 \<le> i" "stop < int (length b)"
  shows "\<exists>b'. shift_left i stop b = Some b' \<and> length b' = length b \<and>
    (\<forall>j < length b. b' ! j = (if i \<le> int j \<and> int j < stop then b ! (j + 1) else b ! j))"
  using assms
proof (induction i stop b rule: shift_left.induct)
  case (1 i stop b)
  show ?case
  proof (cases "i < stop")
    case True
    let ?b = "b[nat i := b ! nat (i + 1)]"
    have get: "buf_get b (i + 1) = Some (b ! nat (i + 1))" and set: "buf_set b i (b ! nat (i + 1)) = Some ?b"
      using True "1.prems" by (simp_all add: buf_get_def buf_set_def)
    obtain b' where b': "shift_left (i + 1) stop ?b = Some b'" "length b' = length b"
      "\<forall>j < length b. b' ! j = (if i + 1 \<le> int j \<and> int j < stop then ?b ! (j + 1) else ?b ! j)"
      using "1.IH" [OF True get set] True "1.prems" by auto
    have "b' ! j = (if i \<le> int j \<and> int j < stop then b ! (j + 1) else b ! j)" if j: "j < length b" for j
    proof (cases "int j = i")
      case True
      then have "nat i = j" "nat (i + 1) = j + 1" by auto
      with True j b'(3) \<open>i < stop\<close> show ?thesis by simp
    next
      case False
      have "j \<noteq> nat i" using False "1.prems" by auto
      moreover have "j + 1 \<noteq> nat i" if "i + 1 \<le> int j" using that "1.prems" by auto
      ultimately show ?thesis using False j b'(3) by auto
    qed
    with b' get set True show ?thesis by (subst shift_left.simps) simp
  next
    case False
    then show ?thesis using "1.prems" by (subst shift_left.simps) auto
  qed
qed

definition client_ok :: "'w client \<Rightarrow> bool" where
  "client_ok s \<longleftrightarrow> kbd_ok (kb s) \<and> screen_fits (d_fb (dp s)) \<and>
     pos_ok (current_msg_row (dp s)) (current_msg_col (dp s))"

definition input_shown :: "'w client \<Rightarrow> bool" where
  "input_shown s \<longleftrightarrow>
     (\<forall>col. 0 \<le> col \<and> col < 64 \<longrightarrow> shows_char (d_fb (dp s)) 23 col
        (input_cell (input_buffer (kb s)) (input_length (kb s)) (cursor_position (kb s)) col))"

text \<open>
  \<open>edit_step s s' e\<close>: from \<open>s\<close> an editing operation reached the valid state \<open>s'\<close>, in which the
  editor holds \<open>e\<close>; only the buffer, the cursor and the input row changed, and the input row
  still shows the buffer if it did before.
\<close>

definition edit_step :: "'w client \<Rightarrow> 'w client \<Rightarrow> editor \<Rightarrow> bool" where
  "edit_step s s' e \<longleftrightarrow> client_ok s' \<and> editor_of (kb s') = e \<and> net s' = net s \<and>
     is_caps_on (kb s') = is_caps_on (kb s) \<and> previous_packet (kb s') = previous_packet (kb s) \<and>
     current_msg_row (dp s') = current_msg_row (dp s) \<and> current_msg_col (dp s') = current_msg_col (dp s) \<and>
     (\<forall>row col x. on_screen row col \<and> row \<noteq> 23 \<longrightarrow>
        shows_char (d_fb (dp s')) row col x = shows_char (d_fb (dp s)) row col x) \<and>
     (input_shown s \<longrightarrow> input_shown s')"

lemma edit_step_refl: "client_ok s \<Longrightarrow> edit_step s s (editor_of (kb s))"
  by (simp add: edit_step_def)

lemma edit_step_trans:
  "edit_step s s1 e1 \<Longrightarrow> edit_step s1 s2 e2 \<Longrightarrow> edit_step s s2 e2"
  by (simp add: edit_step_def)

lemma redraw_step:
  assumes "client_ok s" and "kbd_ok k" "is_caps_on k = is_caps_on (kb s)"
    "previous_packet k = previous_packet (kb s)"
  shows "\<exists>s'. redraw_input (s\<lparr>kb := k\<rparr>) = Some s' \<and> edit_step s s' (editor_of k) \<and> input_shown s'"
proof -
  have "\<exists>d'. display_user_input (input_buffer k) (input_length k) (cursor_position k) (dp s) = Some d' \<and>
    screen_fits (d_fb d') \<and> current_msg_row d' = current_msg_row (dp s) \<and> current_msg_col d' = current_msg_col (dp s) \<and>
    (\<forall>col. 0 \<le> col \<and> col < 64 \<longrightarrow> shows_char (d_fb d') 23 col
      (input_cell (input_buffer k) (input_length k) (cursor_position k) col)) \<and>
    (\<forall>row col x. on_screen row col \<and> row \<noteq> 23 \<longrightarrow>
       shows_char (d_fb d') row col x = shows_char (d_fb (dp s)) row col x)"
    using assms(1,2) by (intro input_row_redrawn)
      (auto simp: client_ok_def kbd_ok_def text_of_def ascii_text_def)
  with assms show ?thesis
    by (auto simp: redraw_input_def edit_step_def client_ok_def input_shown_def)
qed

lemma kbd_natE:
  assumes "kbd_ok k"
  obtains m n where "cursor_position k = int m" "input_length k = int n" "m \<le> n" "n \<le> 255"
    "length (input_buffer k) = 256" "input_buffer k ! n = 0"
    "text_of k = take n (input_buffer k)" "ascii_text (take n (input_buffer k))"
    "editor_of k = (take m (input_buffer k), take (n - m) (drop m (input_buffer k)))"
  using assms that [of "nat (cursor_position k)" "nat (input_length k)"]
  by (auto simp: kbd_ok_def text_of_def editor_of_def drop_take nat_diff_distrib min_absorb1 nat_mono)

lemma kbd_okI:
  assumes "input_buffer k = b" "length b = 256" "cursor_position k = int m" "input_length k = int n"
    "m \<le> n" "n \<le> 255" "b ! n = 0" "ascii_text (l @ r)" "take n b = l @ r" "length l = m"
  shows "kbd_ok k \<and> editor_of k = (l, r)"
  using assms by (auto simp: kbd_ok_def text_of_def editor_of_def)

lemma ascii_text_append [simp]: "ascii_text (xs @ ys) \<longleftrightarrow> ascii_text xs \<and> ascii_text ys"
  by (auto simp: ascii_text_def)

lemma ascii_text_take: "ascii_text xs \<Longrightarrow> ascii_text (take n xs)"
  and ascii_text_drop: "ascii_text xs \<Longrightarrow> ascii_text (drop n xs)"
  by (auto simp: ascii_text_def dest: in_set_takeD in_set_dropD)

lemma insert_kbd:
  assumes ok: "kbd_ok k" and room: "input_length k < 255" and c: "c \<noteq> 0" "c < 128"
  shows "\<exists>b b1 b2. shift_right (cursor_position k) (input_length k) (input_buffer k) = Some b \<and>
    buf_set b (cursor_position k) c = Some b1 \<and> buf_set b1 (input_length k + 1) 0 = Some b2 \<and>
    (let k' = k\<lparr>input_buffer := b2, input_length := input_length k + 1,
                cursor_position := cursor_position k + 1\<rparr>
     in kbd_ok k' \<and> editor_of k' = ed_insert c (editor_of k))"
proof -
  let ?B = "input_buffer k"
  obtain m n where k: "cursor_position k = int m" "input_length k = int n" "m \<le> n" "length ?B = 256"
    "ascii_text (take n ?B)" "editor_of k = (take m ?B, take (n - m) (drop m ?B))"
    using kbd_natE [OF ok] by metis
  have n: "n < 255" using room k(2) by simp
  obtain b where b: "shift_right (cursor_position k) (input_length k) ?B = Some b" "length b = 256"
    "\<forall>j < 256. b ! j = (if m < j \<and> j \<le> n then ?B ! (j - 1) else ?B ! j)"
    using shift_right_eq [of "cursor_position k" "input_length k" ?B] k n by auto
  let ?b = "b[m := c, Suc n := 0]"
  have txtb: "take (Suc n) ?b = (take m ?B @ [c]) @ take (n - m) (drop m ?B)"
  proof (rule nth_equalityI)
    fix i assume "i < length (take (Suc n) ?b)"
    then show "take (Suc n) ?b ! i = ((take m ?B @ [c]) @ take (n - m) (drop m ?B)) ! i"
      using b k n by (cases "i < m"; cases "i = m") (auto simp: nth_append)
  qed (use b k n in auto)
  have asc: "ascii_text ((take m ?B @ [c]) @ take (n - m) (drop m ?B))"
    using ascii_text_take [OF k(5), of m] ascii_text_drop [OF k(5), of m] c k(3)
    by (simp add: drop_take min_absorb1)
  have "kbd_ok (k\<lparr>input_buffer := ?b, input_length := input_length k + 1, cursor_position := cursor_position k + 1\<rparr>) \<and>
      editor_of (k\<lparr>input_buffer := ?b, input_length := input_length k + 1, cursor_position := cursor_position k + 1\<rparr>) =
        (take m ?B @ [c], take (n - m) (drop m ?B))"
    by (rule kbd_okI [OF _ _ _ _ _ _ _ asc txtb, of _ "Suc m"]) (use b k n in auto)
  then show ?thesis
    using b k n by (intro exI [of _ b] exI [of _ "b[m := c]"] exI [of _ ?b])
      (auto simp: buf_set_def nat_add_distrib Let_def)
qed

lemma delete_kbd:
  assumes ok: "kbd_ok k" and pos: "0 < cursor_position k"
  shows "\<exists>b b1. shift_left (cursor_position k - 1) (input_length k - 1) (input_buffer k) = Some b \<and>
    buf_set b (input_length k - 1) 0 = Some b1 \<and>
    (let k' = k\<lparr>input_buffer := b1, input_length := input_length k - 1,
                cursor_position := cursor_position k - 1\<rparr>
     in kbd_ok k' \<and> editor_of k' = ed_backspace (editor_of k))"
proof -
  let ?B = "input_buffer k"
  obtain m0 n0 where k0: "cursor_position k = int m0" "input_length k = int n0" "m0 \<le> n0" "n0 \<le> 255"
    "length ?B = 256" "ascii_text (take n0 ?B)" "editor_of k = (take m0 ?B, take (n0 - m0) (drop m0 ?B))"
    using kbd_natE [OF ok] by metis
  then obtain m n where mn: "m0 = Suc m" "n0 = Suc n" using pos by (cases m0; cases n0) auto
  note k = k0 [unfolded mn]
  obtain b where b: "shift_left (cursor_position k - 1) (input_length k - 1) ?B = Some b" "length b = 256"
    "\<forall>j < 256. b ! j = (if m \<le> j \<and> j < n then ?B ! (j + 1) else ?B ! j)"
    using shift_left_eq [of "cursor_position k - 1" "input_length k - 1" ?B] k by auto
  let ?b = "b[n := 0]"
  have txtb: "take n ?b = take m ?B @ take (n - m) (drop (Suc m) ?B)"
  proof (rule nth_equalityI)
    fix i assume "i < length (take n ?b)"
    then show "take n ?b ! i = (take m ?B @ take (n - m) (drop (Suc m) ?B)) ! i"
      using b k by (cases "i < m") (auto simp: nth_append)
  qed (use b k in auto)
  have asc: "ascii_text (take m ?B @ take (n - m) (drop (Suc m) ?B))"
    using ascii_text_take [OF k(6), of m] ascii_text_drop [OF k(6), of "Suc m"] k(3)
    by (simp add: drop_take min_absorb1)
  have "kbd_ok (k\<lparr>input_buffer := ?b, input_length := input_length k - 1, cursor_position := cursor_position k - 1\<rparr>) \<and>
      editor_of (k\<lparr>input_buffer := ?b, input_length := input_length k - 1, cursor_position := cursor_position k - 1\<rparr>) =
        (take m ?B, take (n - m) (drop (Suc m) ?B))"
    by (rule kbd_okI [OF _ _ _ _ _ _ _ asc txtb, of _ m]) (use b k in auto)
  then show ?thesis
    using b k by (intro exI [of _ b] exI [of _ ?b]) (auto simp: buf_set_def Let_def butlast_take)
qed

lemma add_char_step:
  assumes "client_ok s" "c \<noteq> 0" "c < 128"
  shows "\<exists>s'. input_buf_add_char c s = Some s' \<and> edit_step s s' (ed_insert c (editor_of (kb s)))"
proof (cases "input_length (kb s) < 255")
  case True
  let ?k = "kb s"
  have ok: "kbd_ok ?k" using assms(1) by (simp add: client_ok_def)
  obtain b b1 b2 where b: "shift_right (cursor_position ?k) (input_length ?k) (input_buffer ?k) = Some b"
    "buf_set b (cursor_position ?k) c = Some b1" "buf_set b1 (input_length ?k + 1) 0 = Some b2"
    and k': "kbd_ok (?k\<lparr>input_buffer := b2, input_length := input_length ?k + 1, cursor_position := cursor_position ?k + 1\<rparr>)"
      "editor_of (?k\<lparr>input_buffer := b2, input_length := input_length ?k + 1, cursor_position := cursor_position ?k + 1\<rparr>) =
        ed_insert c (editor_of ?k)"
    using insert_kbd [OF ok True assms(2,3)] by (auto simp: Let_def)
  from redraw_step [OF assms(1) k'(1)] k'(2) True b show ?thesis
    by (auto simp: input_buf_add_char_def INPUT_BUFFER_SIZE_def Let_def)
next
  case False
  have "editor_of (kb s) = ed_insert c (editor_of (kb s))"
  proof -
    obtain m n where "input_length (kb s) = int n" "m \<le> n" "length (input_buffer (kb s)) = 256" "n \<le> 255"
      "editor_of (kb s) = (take m (input_buffer (kb s)), take (n - m) (drop m (input_buffer (kb s))))"
      using kbd_natE assms(1) unfolding client_ok_def by metis
    with False show ?thesis by simp
  qed
  with False edit_step_refl [OF assms(1)] show ?thesis
    by (simp add: input_buf_add_char_def INPUT_BUFFER_SIZE_def Let_def)
qed

lemma delete_char_step:
  assumes "client_ok s"
  shows "\<exists>s'. input_buf_delete_char s = Some s' \<and> edit_step s s' (ed_backspace (editor_of (kb s)))"
proof (cases "0 < cursor_position (kb s)")
  case True
  let ?k = "kb s"
  have ok: "kbd_ok ?k" using assms by (simp add: client_ok_def)
  obtain b b1 where b: "shift_left (cursor_position ?k - 1) (input_length ?k - 1) (input_buffer ?k) = Some b"
    "buf_set b (input_length ?k - 1) 0 = Some b1"
    and k': "kbd_ok (?k\<lparr>input_buffer := b1, input_length := input_length ?k - 1, cursor_position := cursor_position ?k - 1\<rparr>)"
      "editor_of (?k\<lparr>input_buffer := b1, input_length := input_length ?k - 1, cursor_position := cursor_position ?k - 1\<rparr>) =
        ed_backspace (editor_of ?k)"
    using delete_kbd [OF ok True] by (auto simp: Let_def)
  from redraw_step [OF assms k'(1)] k'(2) True b show ?thesis
    by (auto simp: input_buf_delete_char_def Let_def)
next
  case False
  with assms have "cursor_position (kb s) = 0" by (auto simp: client_ok_def kbd_ok_def)
  then have "ed_backspace (editor_of (kb s)) = editor_of (kb s)" by (simp add: editor_of_def)
  with False edit_step_refl [OF assms] show ?thesis
    by (simp add: input_buf_delete_char_def Let_def)
qed

lemma clear_step:
  assumes "client_ok s"
  shows "\<exists>s'. input_buf_clear s = Some s' \<and> edit_step s s' ([], []) \<and> input_shown s'"
proof -
  let ?k = "(kb s)\<lparr>input_buffer := (input_buffer (kb s))[0 := 0], input_length := 0, cursor_position := 0\<rparr>"
  have k: "kbd_ok ?k" "editor_of ?k = ([], [])"
    using assms by (auto simp: client_ok_def kbd_ok_def text_of_def editor_of_def)
  have "buf_set (input_buffer (kb s)) 0 0 = Some ((input_buffer (kb s))[0 := 0])"
    using assms by (auto simp: client_ok_def kbd_ok_def buf_set_def)
  with redraw_step [OF assms k(1)] k(2) show ?thesis
    by (auto simp: input_buf_clear_def)
qed

lemma move_kbd:
  assumes "kbd_ok k" "0 \<le> p" "p \<le> input_length k"
  shows "kbd_ok (k\<lparr>cursor_position := p\<rparr>)"
    "editor_of (k\<lparr>cursor_position := p\<rparr>) = (take (nat p) (text_of k), drop (nat p) (text_of k))"
  using assms by (auto simp: kbd_ok_def editor_of_def text_of_def)

lemma move_left_step:
  assumes "client_ok s"
  shows "\<exists>s'. cursor_move_left s = Some s' \<and> edit_step s s' (ed_left (editor_of (kb s)))"
proof (cases "0 < cursor_position (kb s)")
  case True
  let ?k = "(kb s)\<lparr>cursor_position := cursor_position (kb s) - 1\<rparr>"
  have ok: "kbd_ok (kb s)" using assms by (simp add: client_ok_def)
  then obtain m where m: "cursor_position (kb s) = int (Suc m)" "m < length (text_of (kb s))"
    using True by (auto simp: kbd_ok_def text_of_def intro!: that [of "nat (cursor_position (kb s)) - 1"])
  have k: "kbd_ok ?k" "editor_of ?k = (take m (text_of (kb s)), drop m (text_of (kb s)))"
    using move_kbd [OF ok, of "int m"] m ok by (auto simp: kbd_ok_def)
  have "nat (cursor_position (kb s)) = Suc m" using m(1) by simp
  then have "editor_of (kb s) = (take m (text_of (kb s)) @ [text_of (kb s) ! m], drop (Suc m) (text_of (kb s)))"
    using m(2) by (simp only: editor_of_def take_Suc_conv_app_nth)
  then have "editor_of ?k = ed_left (editor_of (kb s))"
    using m(2) by (simp add: k(2) Cons_nth_drop_Suc)
  with redraw_step [OF assms k(1)] True show ?thesis by (auto simp: cursor_move_left_def)
next
  case False
  with assms have "cursor_position (kb s) = 0" by (auto simp: client_ok_def kbd_ok_def)
  then have "ed_left (editor_of (kb s)) = editor_of (kb s)" by (simp add: editor_of_def)
  with False edit_step_refl [OF assms] show ?thesis by (simp add: cursor_move_left_def)
qed

lemma move_right_step:
  assumes "client_ok s"
  shows "\<exists>s'. cursor_move_right s = Some s' \<and> edit_step s s' (ed_right (editor_of (kb s)))"
proof (cases "cursor_position (kb s) < input_length (kb s)")
  case True
  let ?k = "(kb s)\<lparr>cursor_position := cursor_position (kb s) + 1\<rparr>"
  have ok: "kbd_ok (kb s)" using assms by (simp add: client_ok_def)
  then obtain m where m: "cursor_position (kb s) = int m" "m < length (text_of (kb s))"
    using True by (auto simp: kbd_ok_def text_of_def intro!: that [of "nat (cursor_position (kb s))"])
  have k: "kbd_ok ?k" "editor_of ?k = (take (Suc m) (text_of (kb s)), drop (Suc m) (text_of (kb s)))"
    using move_kbd [OF ok, of "int m + 1"] m True by (auto simp: nat_add_distrib)
  have "editor_of ?k = ed_right (editor_of (kb s))"
    using m k(2) by (simp add: editor_of_def take_Suc_conv_app_nth Cons_nth_drop_Suc [symmetric])
  with redraw_step [OF assms k(1)] True show ?thesis by (auto simp: cursor_move_right_def)
next
  case False
  with assms have "nat (cursor_position (kb s)) = length (text_of (kb s))"
    by (auto simp: client_ok_def kbd_ok_def text_of_def)
  then have "ed_right (editor_of (kb s)) = editor_of (kb s)" by (simp add: editor_of_def)
  with False edit_step_refl [OF assms] show ?thesis by (simp add: cursor_move_right_def)
qed

subsection \<open>What the keys type\<close>

lemma length_tables [simp]:
  "length keycode_to_ascii_unshifted = 128" "length keycode_to_ascii_shifted = 128"
  by (simp_all add: keycode_to_ascii_unshifted_def keycode_to_ascii_shifted_def)

lemma table_ascii:
  "\<forall>c \<in> set keycode_to_ascii_unshifted. c < 127" "\<forall>c \<in> set keycode_to_ascii_shifted. c < 127"
  by (simp_all add: keycode_to_ascii_unshifted_def keycode_to_ascii_shifted_def)

lemma keycode_to_ascii_range: "keycode_to_ascii key mods k < 127"
proof (cases "key = 0 \<or> 128 \<le> key")
  case False
  then have "unat key < 128" by (simp add: word_le_nat_alt)
  then have "keycode_to_ascii_unshifted ! unat key < 127" "keycode_to_ascii_shifted ! unat key < 127"
    using table_ascii by (simp_all add: nth_mem)
  with False show ?thesis by (simp add: keycode_to_ascii_def Let_def)
qed (auto simp: keycode_to_ascii_def)

text \<open>The two layers of the letter keys are the lower and the upper case letters in order.\<close>

lemma letters:
  "take 26 (drop 4 keycode_to_ascii_unshifted) = map (\<lambda>i. 0x61 + of_nat i) [0..<26]"
  "take 26 (drop 4 keycode_to_ascii_shifted) = map (\<lambda>i. 0x41 + of_nat i) [0..<26]"
  by (simp_all add: keycode_to_ascii_unshifted_def keycode_to_ascii_shifted_def upt_rec)

lemma table_letter:
  assumes "0x04 \<le> key" "key \<le> (0x1d :: u8)"
  shows "keycode_to_ascii_unshifted ! unat key = 0x61 + (key - 4)"
    "keycode_to_ascii_shifted ! unat key = 0x41 + (key - 4)"
proof -
  have u: "4 \<le> unat key" "unat key \<le> 29" using assms by (simp_all add: word_le_nat_alt)
  have k: "of_nat (unat key - 4) = key - 4" using u by (simp add: of_nat_diff)
  have i: "unat key - 4 < 26" using u by simp
  have "keycode_to_ascii_unshifted ! unat key = take 26 (drop 4 keycode_to_ascii_unshifted) ! (unat key - 4)"
    "keycode_to_ascii_shifted ! unat key = take 26 (drop 4 keycode_to_ascii_shifted) ! (unat key - 4)"
    using u by simp_all
  then show "keycode_to_ascii_unshifted ! unat key = 0x61 + (key - 4)"
    "keycode_to_ascii_shifted ! unat key = 0x41 + (key - 4)"
    using i by (simp_all add: letters k)
qed

definition shift_held :: "u8 \<Rightarrow> bool" where
  "shift_held mods \<longleftrightarrow> bit mods 1 \<or> bit mods 5"

lemma shift_held_eq: "(mods AND USB_LSHIFT \<noteq> 0 \<or> mods AND USB_RSHIFT \<noteq> 0) = shift_held mods"
  using and_exp_eq_0_iff_not_bit [of mods 1] and_exp_eq_0_iff_not_bit [of mods 5]
  by (simp add: USB_LSHIFT_def USB_RSHIFT_def shift_held_def push_bit_eq_mult)

text \<open>
  A letter key types the lower-case letter of its position when neither or both of Shift and
  Caps Lock are in effect, and the upper-case letter when exactly one of them is.
\<close>

theorem letter_keys_case:
  assumes "0x04 \<le> key" "key \<le> 0x1d"
  shows "keycode_to_ascii key mods k =
    (if shift_held mods = is_caps_on k then 0x61 else 0x41) + (key - 4)"
proof -
  have "key \<noteq> 0" "\<not> 128 \<le> key" using assms by (auto simp: word_le_nat_alt)
  then show ?thesis
    unfolding keycode_to_ascii_def Let_def shift_held_eq
    using assms table_letter [OF assms] by auto
qed

theorem letter_keys_case_witness:
  "keycode_to_ascii 0x0b 0x20 \<lparr>is_caps_on = False, previous_packet = \<lparr>modifiers = 0, reserved = 0, keycode = replicate 6 0\<rparr>,
     input_buffer = replicate 256 0, input_length = 0, cursor_position = 0\<rparr> = 0x48"
  by (subst letter_keys_case) (simp_all add: shift_held_def bit_numeral_rec)

subsection \<open>Sending\<close>

text \<open>
  \<open>write_contract wr sent_log\<close>: what POSIX says of \<open>write\<close>.  It accepts at most the bytes it is
  offered, and what it accepts is appended to the stream, read off the world by \<open>sent_log\<close>.
\<close>

definition write_contract :: "'w write_call \<Rightarrow> ('w \<Rightarrow> u8 list) \<Rightarrow> bool" where
  "write_contract wr sent_log \<longleftrightarrow>
     (\<forall>bs w n w'. wr bs w = (n, w') \<longrightarrow>
        n \<le> int (length bs) \<and> sent_log w' = sent_log w @ take (nat n) bs)"

text \<open>
  Whatever \<open>write\<close> answers, the loop ends inside the buffer, and every call offers the rest of the
  line from some position on: a property of the world that such calls keep is kept.
\<close>

lemma send_loop_offers:
  assumes "0 \<le> sent" "len \<le> int (length b)" "P w"
    and "\<And>m w. m < nat len \<Longrightarrow> P w \<Longrightarrow> P (snd (wr (take (nat len - m) (drop m b)) w))"
  shows "\<exists>rc w'. send_loop wr b len sent w = Some (rc, w') \<and> P w'"
  using assms
proof (induction wr b len sent w rule: send_loop.induct)
  case (1 wr b len sent w)
  show ?case
  proof (cases "sent < len")
    case True
    let ?bs = "take (nat (len - sent)) (drop (nat sent) b)"
    obtain n w1 where w1: "wr ?bs w = (n, w1)" by fastforce
    have "nat (len - sent) = nat len - nat sent" using "1.prems"(1) by (simp add: nat_diff_distrib)
    with "1.prems"(4) [of "nat sent" w] "1.prems"(1,3) True w1 have P1: "P w1" by simp
    have in_range: "0 \<le> sent \<and> len \<le> int (length b)" using "1.prems" by simp
    show ?thesis
    proof (cases "n \<le> 0")
      case True
      with \<open>sent < len\<close> w1 P1 in_range show ?thesis by (subst send_loop.simps) simp
    next
      case False
      then have "\<exists>rc w'. send_loop wr b len (sent + n) w1 = Some (rc, w') \<and> P w'"
        using "1.IH" [OF True in_range w1 [symmetric] False] "1.prems" P1 by simp
      with True w1 False in_range show ?thesis by (subst send_loop.simps) simp
    qed
  next
    case False
    with "1.prems" show ?thesis by (subst send_loop.simps) simp
  qed
qed

text \<open>
  On a socket that keeps the contract the loop ends with the whole range accepted, or at the
  first call that accepts nothing.
\<close>

lemma send_loop_sent:
  assumes "write_contract wr sent_log" "0 \<le> sent" "sent \<le> len" "len \<le> int (length b)"
  shows "\<exists>rc w'. send_loop wr b len sent w = Some (rc, w') \<and>
    ((rc = 0 \<and> sent_log w' = sent_log w @ take (nat (len - sent)) (drop (nat sent) b)) \<or>
     (rc = -1 \<and> (\<exists>m w1. sent + int m < len \<and> sent_log w1 = sent_log w @ take m (drop (nat sent) b) \<and>
        fst (wr (take (nat (len - sent) - m) (drop (nat sent + m) b)) w1) \<le> 0 \<and>
        w' = snd (wr (take (nat (len - sent) - m) (drop (nat sent + m) b)) w1))))"
  using assms
proof (induction wr b len sent w rule: send_loop.induct)
  case (1 wr b len sent w)
  show ?case
  proof (cases "sent < len")
    case True
    let ?bs = "take (nat (len - sent)) (drop (nat sent) b)"
    obtain n w1 where w1: "wr ?bs w = (n, w1)" by fastforce
    have n: "n \<le> int (length ?bs)" "sent_log w1 = sent_log w @ take (nat n) ?bs"
      using "1.prems"(1) w1 unfolding write_contract_def by blast+
    have lb: "int (length ?bs) = len - sent" using "1.prems" True by auto
    have in_range: "0 \<le> sent \<and> len \<le> int (length b)" using "1.prems" by simp
    show ?thesis
    proof (cases "n \<le> 0")
      case True
      with \<open>sent < len\<close> w1 in_range have "send_loop wr b len sent w = Some (-1, w1)"
        by (subst send_loop.simps) simp
      with \<open>sent < len\<close> w1 True show ?thesis by (auto intro!: exI [of _ 0] exI [of _ w])
    next
      case False
      have n0: "nat (sent + n) = nat sent + nat n" "nat n \<le> nat (len - sent)"
        "nat (len - (sent + n)) = nat (len - sent) - nat n"
        using "1.prems"(2) False n(1) lb by auto
      have cat: "take (nat n) ?bs @ take m (drop (nat sent + nat n) b) = take (nat n + m) (drop (nat sent) b)" for m
        using n0(2) by (simp add: take_add [of "nat n" m] add.commute [of "nat sent"] min_absorb1)
      have rec: "send_loop wr b len sent w = send_loop wr b len (sent + n) w1"
        using \<open>sent < len\<close> w1 False in_range by (simp add: send_loop.simps [of wr b len sent w])
      have "\<exists>rc w'. send_loop wr b len (sent + n) w1 = Some (rc, w') \<and>
        ((rc = 0 \<and> sent_log w' = sent_log w1 @ take (nat (len - sent) - nat n) (drop (nat sent + nat n) b)) \<or>
         (rc = -1 \<and> (\<exists>m w2. sent + n + int m < len \<and> sent_log w2 = sent_log w1 @ take m (drop (nat sent + nat n) b) \<and>
            fst (wr (take (nat (len - sent) - nat n - m) (drop (nat sent + nat n + m) b)) w2) \<le> 0 \<and>
            w' = snd (wr (take (nat (len - sent) - nat n - m) (drop (nat sent + nat n + m) b)) w2))))"
        unfolding n0(1) [symmetric] n0(3) [symmetric]
        by (rule "1.IH" [OF True in_range w1 [symmetric] False "1.prems"(1)]) (use "1.prems" n(1) lb False in auto)
      then obtain rc w' where IH: "send_loop wr b len (sent + n) w1 = Some (rc, w')"
        "(rc = 0 \<and> sent_log w' = sent_log w1 @ take (nat (len - sent) - nat n) (drop (nat sent + nat n) b)) \<or>
         (rc = -1 \<and> (\<exists>m w2. sent + n + int m < len \<and> sent_log w2 = sent_log w1 @ take m (drop (nat sent + nat n) b) \<and>
            fst (wr (take (nat (len - sent) - nat n - m) (drop (nat sent + nat n + m) b)) w2) \<le> 0 \<and>
            w' = snd (wr (take (nat (len - sent) - nat n - m) (drop (nat sent + nat n + m) b)) w2)))" by blast
      from IH(2) show ?thesis
      proof (elim disjE conjE exE)
        assume "rc = 0" "sent_log w' = sent_log w1 @ take (nat (len - sent) - nat n) (drop (nat sent + nat n) b)"
        with rec IH(1) n(2) cat n0(2) show ?thesis by simp
      next
        fix m w2
        assume "rc = -1" "sent + n + int m < len" "sent_log w2 = sent_log w1 @ take m (drop (nat sent + nat n) b)"
          "fst (wr (take (nat (len - sent) - nat n - m) (drop (nat sent + nat n + m) b)) w2) \<le> 0"
          "w' = snd (wr (take (nat (len - sent) - nat n - m) (drop (nat sent + nat n + m) b)) w2)"
        with rec IH(1) n(2) cat False show ?thesis
          by (intro exI [of _ rc] exI [of _ w'] conjI disjI2 exI [of _ "nat n + m"] exI [of _ w2])
             (simp_all add: add.assoc)
      qed
    qed
  next
    case False
    then have "send_loop wr b len sent w = Some (0, w)" by (subst send_loop.simps) simp
    with False "1.prems" show ?thesis by auto
  qed
qed

lemma send_result:
  assumes "write_contract wr sent_log" "kbd_ok (kb s)"
  shows "\<exists>rc w'. send_input_buffer_to_server wr s = Some (rc, s\<lparr>net := w'\<rparr>) \<and>
    ((rc = 0 \<and> sent_log w' = sent_log (net s) @ text_of (kb s)) \<or>
     (rc = -1 \<and> (\<exists>m w1. m < length (text_of (kb s)) \<and> sent_log w1 = sent_log (net s) @ take m (text_of (kb s)) \<and>
        fst (wr (drop m (text_of (kb s))) w1) \<le> 0 \<and> w' = snd (wr (drop m (text_of (kb s))) w1))))"
proof -
  have len: "0 \<le> input_length (kb s)" "input_length (kb s) \<le> int (length (input_buffer (kb s)))"
    using assms(2) by (auto simp: kbd_ok_def)
  have line: "take m (input_buffer (kb s)) = take m (text_of (kb s))" "m < length (text_of (kb s))"
      "take (nat (input_length (kb s)) - m) (drop m (input_buffer (kb s))) = drop m (text_of (kb s))"
    if "int m < input_length (kb s)" for m
    using that len by (auto simp: text_of_def min_def drop_take)
  obtain rc w' where loop: "send_loop wr (input_buffer (kb s)) (input_length (kb s)) 0 (net s) = Some (rc, w')" and
    res: "(rc = 0 \<and> sent_log w' = sent_log (net s) @ text_of (kb s)) \<or>
     (rc = -1 \<and> (\<exists>m w1. int m < input_length (kb s) \<and> sent_log w1 = sent_log (net s) @ take m (input_buffer (kb s)) \<and>
        fst (wr (take (nat (input_length (kb s)) - m) (drop m (input_buffer (kb s)))) w1) \<le> 0 \<and>
        w' = snd (wr (take (nat (input_length (kb s)) - m) (drop m (input_buffer (kb s)))) w1)))"
    using send_loop_sent [OF assms(1) order_refl len, of "net s"] by (auto simp: text_of_def)
  have "send_input_buffer_to_server wr s = Some (rc, s\<lparr>net := w'\<rparr>)"
    using loop by (simp add: send_input_buffer_to_server_def)
  moreover have "(rc = 0 \<and> sent_log w' = sent_log (net s) @ text_of (kb s)) \<or>
     (rc = -1 \<and> (\<exists>m w1. m < length (text_of (kb s)) \<and> sent_log w1 = sent_log (net s) @ take m (text_of (kb s)) \<and>
        fst (wr (drop m (text_of (kb s))) w1) \<le> 0 \<and> w' = snd (wr (drop m (text_of (kb s))) w1)))"
    using res
  proof (elim disjE conjE exE)
    fix m w1
    assume m: "int m < input_length (kb s)" and "rc = -1"
      "sent_log w1 = sent_log (net s) @ take m (input_buffer (kb s))"
      "fst (wr (take (nat (input_length (kb s)) - m) (drop m (input_buffer (kb s)))) w1) \<le> 0"
      "w' = snd (wr (take (nat (input_length (kb s)) - m) (drop m (input_buffer (kb s)))) w1)"
    then show ?thesis
      unfolding line [OF m] using line(2) [OF m] by (intro disjI2 conjI exI [of _ m] exI [of _ w1])
  qed simp
  ultimately show ?thesis by blast
qed

subsection \<open>Whole key presses\<close>

definition key_effect :: "u8 \<Rightarrow> u8 \<Rightarrow> kbd \<Rightarrow> editor \<Rightarrow> editor" where
  "key_effect key mods k =
     (if key = HID_BACKSPACE then ed_backspace
      else if key = HID_TAB then ed_insert 0x20 \<circ> ed_insert 0x20 \<circ> ed_insert 0x20 \<circ> ed_insert 0x20
      else if key = HID_LEFT then ed_left
      else if key = HID_RIGHT then ed_right
      else if key = HID_CAPSLOCK \<or> key = HID_ESCAPE \<or> key = HID_ENTER then id
      else
        let ascii = keycode_to_ascii key mods k in
        if ascii \<noteq> 0 \<and> ascii \<noteq> 0x0a \<and> ascii \<noteq> 0x09 then ed_insert ascii else id)"

lemma caps_editor [simp]:
  "editor_of (k\<lparr>is_caps_on := x\<rparr>) = editor_of k" "kbd_ok (k\<lparr>is_caps_on := x\<rparr>) = kbd_ok k"
  "text_of (k\<lparr>is_caps_on := x\<rparr>) = text_of k"
  by (simp_all add: editor_of_def text_of_def kbd_ok_def)

lemma tab_step:
  assumes "client_ok s"
  shows "\<exists>s'. iter_opt (\<lambda>_. input_buf_add_char 0x20) [0..<4] s = Some s' \<and>
    edit_step s s' ((ed_insert 0x20 \<circ> ed_insert 0x20 \<circ> ed_insert 0x20 \<circ> ed_insert 0x20) (editor_of (kb s)))"
proof -
  have *: "\<exists>s'. input_buf_add_char 0x20 s = Some s' \<and> edit_step s s' (ed_insert 0x20 (editor_of (kb s)))"
    if "client_ok s" for s :: "'a client"
    using add_char_step [OF that] by simp
  obtain s1 where 1: "input_buf_add_char 0x20 s = Some s1" "edit_step s s1 (ed_insert 0x20 (editor_of (kb s)))"
    using * [OF assms] by blast
  obtain s2 where 2: "input_buf_add_char 0x20 s1 = Some s2" "edit_step s1 s2 (ed_insert 0x20 (editor_of (kb s1)))"
    using * [of s1] 1(2) by (auto simp: edit_step_def)
  obtain s3 where 3: "input_buf_add_char 0x20 s2 = Some s3" "edit_step s2 s3 (ed_insert 0x20 (editor_of (kb s2)))"
    using * [of s2] 2(2) by (auto simp: edit_step_def)
  obtain s4 where 4: "input_buf_add_char 0x20 s3 = Some s4" "edit_step s3 s4 (ed_insert 0x20 (editor_of (kb s3)))"
    using * [of s3] 3(2) by (auto simp: edit_step_def)
  have e: "editor_of (kb s1) = ed_insert 0x20 (editor_of (kb s))" "editor_of (kb s2) = ed_insert 0x20 (editor_of (kb s1))"
    "editor_of (kb s3) = ed_insert 0x20 (editor_of (kb s2))"
    using 1(2) 2(2) 3(2) by (simp_all add: edit_step_def)
  have "edit_step s s4 (ed_insert 0x20 (editor_of (kb s3)))"
    by (rule edit_step_trans [OF 1(2) edit_step_trans [OF 2(2) edit_step_trans [OF 3(2) 4(2)]]])
  moreover have "iter_opt (\<lambda>_. input_buf_add_char 0x20) [0..<4] s = Some s4"
    using 1(1) 2(1) 3(1) 4(1) by (simp add: upt_rec)
  ultimately show ?thesis by (simp add: e)
qed

lemma keypress_edits:
  assumes "client_ok s" "key \<noteq> HID_ENTER"
  shows "\<exists>s'. handle_keypress wr key mods s = Some s' \<and>
    edit_step (s\<lparr>kb := handle_caps key (kb s)\<rparr>) s' (key_effect key mods (kb s) (editor_of (kb s)))"
proof -
  consider "key = HID_CAPSLOCK" | "key = HID_BACKSPACE" | "key = HID_TAB" | "key = HID_ESCAPE"
    | "key = HID_LEFT" | "key = HID_RIGHT"
    | (char) "key \<notin> {HID_CAPSLOCK, HID_BACKSPACE, HID_TAB, HID_ESCAPE, HID_LEFT, HID_RIGHT, HID_ENTER}"
    using assms(2) by blast
  then show ?thesis
  proof cases
    case 1
    have "client_ok (s\<lparr>kb := handle_caps key (kb s)\<rparr>)"
      using assms(1) by (simp add: client_ok_def handle_caps_def)
    from edit_step_refl [OF this] 1 show ?thesis
      by (simp add: handle_keypress_def key_effect_def hid_codes handle_caps_def)
  next
    case 2
    with delete_char_step [OF assms(1)] show ?thesis
      by (simp add: handle_keypress_def key_effect_def hid_codes handle_caps_def)
  next
    case 3
    with tab_step [OF assms(1)] show ?thesis
      by (simp add: handle_keypress_def key_effect_def hid_codes handle_caps_def)
  next
    case 4
    with edit_step_refl [OF assms(1)] show ?thesis
      by (simp add: handle_keypress_def key_effect_def hid_codes handle_caps_def)
  next
    case 5
    with move_left_step [OF assms(1)] show ?thesis
      by (simp add: handle_keypress_def key_effect_def hid_codes handle_caps_def)
  next
    case 6
    with move_right_step [OF assms(1)] show ?thesis
      by (simp add: handle_keypress_def key_effect_def hid_codes handle_caps_def)
  next
    case char
    have "keycode_to_ascii key mods (kb s) < 128"
      using keycode_to_ascii_range [of key mods "kb s"] by (simp add: word_less_nat_alt)
    with char add_char_step [OF assms(1)] edit_step_refl [OF assms(1)] show ?thesis
      by (auto simp: handle_keypress_def key_effect_def handle_caps_def Let_def)
  qed
qed

text \<open>
  C1: The line editor refines its specification: every key except Enter succeeds, acts on the
  text around the cursor as \<open>key_effect\<close> says (Caps Lock only toggles the caps state), sends
  nothing, keeps the invariant and touches no screen row but the input row.
\<close>

theorem handle_keypress_refines_editor:
  assumes "client_ok s" "key \<noteq> HID_ENTER"
  shows "\<exists>s'. handle_keypress wr key mods s = Some s' \<and> client_ok s' \<and>
    editor_of (kb s') = key_effect key mods (kb s) (editor_of (kb s)) \<and>
    is_caps_on (kb s') = (if key = HID_CAPSLOCK then \<not> is_caps_on (kb s) else is_caps_on (kb s)) \<and>
    net s' = net s \<and>
    (\<forall>row col x. on_screen row col \<and> row \<noteq> 23 \<longrightarrow>
       shows_char (d_fb (dp s')) row col x = shows_char (d_fb (dp s)) row col x)"
  using keypress_edits [OF assms, of wr mods]
  by (auto simp: edit_step_def handle_caps_def)

definition idle_kbd :: kbd where
  "idle_kbd = \<lparr>is_caps_on = False,
     previous_packet = \<lparr>modifiers = 0, reserved = 0, keycode = replicate 6 0\<rparr>,
     input_buffer = replicate 256 0, input_length = 0, cursor_position = 0\<rparr>"

lemma idle_kbd_ok: "kbd_ok idle_kbd" "editor_of idle_kbd = ([], [])"
  by (simp_all add: idle_kbd_def kbd_ok_def text_of_def editor_of_def)

lemma xga_client_ok: "client_ok \<lparr>kb = idle_kbd, dp = xga_disp, net = w\<rparr>"
  by (simp add: client_ok_def idle_kbd_ok xga_disp_def xga_fits pos_ok_def)

theorem handle_keypress_refines_editor_witness:
  "\<exists>s'. handle_keypress (\<lambda>bs w. (int (length bs), w @ bs)) 0x0b 0
       \<lparr>kb = idle_kbd, dp = xga_disp, net = []\<rparr> = Some s' \<and> editor_of (kb s') = ([0x68], [])"
proof -
  have "(0x0b :: u8) \<noteq> HID_ENTER" by (simp add: hid_codes)
  moreover have "keycode_to_ascii 0x0b 0 idle_kbd = 0x68"
    by (simp add: keycode_to_ascii_def Let_def USB_LSHIFT_def USB_RSHIFT_def idle_kbd_def
        keycode_to_ascii_unshifted_def)
  ultimately show ?thesis
    using handle_keypress_refines_editor [OF xga_client_ok, of "0x0b" "\<lambda>bs w. (int (length bs), w @ bs)" 0 "[]"]
    by (auto simp: key_effect_def hid_codes idle_kbd_ok)
qed

subsection \<open>Every key under an arbitrary network\<close>

text \<open>
  \<open>line_bytes bs\<close>: what a call of \<open>write\<close> may be offered, a part of a line the user can type.
\<close>

definition line_bytes :: "u8 list \<Rightarrow> bool" where
  "line_bytes bs \<longleftrightarrow> bs \<noteq> [] \<and> length bs \<le> 255 \<and> ascii_text bs"

definition key_step :: "'w client \<Rightarrow> 'w client \<Rightarrow> bool" where
  "key_step s s' \<longleftrightarrow> client_ok s' \<and> previous_packet (kb s') = previous_packet (kb s) \<and>
     current_msg_row (dp s') = current_msg_row (dp s) \<and> current_msg_col (dp s') = current_msg_col (dp s) \<and>
     (\<forall>row col x. on_screen row col \<and> row \<noteq> 23 \<longrightarrow>
        shows_char (d_fb (dp s')) row col x = shows_char (d_fb (dp s)) row col x) \<and>
     (input_shown s \<longrightarrow> input_shown s')"

lemma key_step_trans: "key_step s s1 \<Longrightarrow> key_step s1 s2 \<Longrightarrow> key_step s s2"
  by (simp add: key_step_def)

lemma key_step_refl: "client_ok s \<Longrightarrow> key_step s s"
  by (simp add: key_step_def)

lemma input_shown_simps [simp]:
  "input_shown (s\<lparr>net := w\<rparr>) = input_shown s" "client_ok (s\<lparr>net := w\<rparr>) = client_ok s"
  by (simp_all add: input_shown_def client_ok_def)

lemma handle_caps_shown:
  "input_shown (s\<lparr>kb := handle_caps key (kb s)\<rparr>) = input_shown s"
  "previous_packet (handle_caps key k) = previous_packet k"
  by (simp_all add: input_shown_def handle_caps_def)

lemma send_offers:
  assumes "kbd_ok (kb s)" "P (net s)" and "\<And>bs w. P w \<Longrightarrow> line_bytes bs \<Longrightarrow> P (snd (wr bs w))"
  shows "\<exists>rc w. send_input_buffer_to_server wr s = Some (rc, s\<lparr>net := w\<rparr>) \<and> P w"
proof -
  let ?b = "input_buffer (kb s)" and ?n = "nat (input_length (kb s))"
  have k: "input_length (kb s) \<le> int (length ?b)" "?n \<le> 255" "length ?b = 256" "ascii_text (take ?n ?b)"
    using assms(1) by (auto simp: kbd_ok_def text_of_def)
  have "line_bytes (take (?n - m) (drop m ?b))" if "m < ?n" for m
    using that k ascii_text_drop [OF k(4), of m] by (auto simp: line_bytes_def drop_take)
  then show ?thesis
    using send_loop_offers [of 0 "input_length (kb s)" ?b P "net s" wr] k(1) assms(2,3)
    by (fastforce simp: send_input_buffer_to_server_def)
qed

lemma keypress_offers:
  assumes "client_ok s" "P (net s)" and "\<And>bs w. P w \<Longrightarrow> line_bytes bs \<Longrightarrow> P (snd (wr bs w))"
  shows "\<exists>s'. handle_keypress wr key mods s = Some s' \<and> key_step s s' \<and> P (net s')"
proof (cases "key = HID_ENTER")
  case True
  obtain rc w where send: "send_input_buffer_to_server wr s = Some (rc, s\<lparr>net := w\<rparr>)" "P w"
    using send_offers [of s P wr] assms by (auto simp: client_ok_def)
  have "client_ok (s\<lparr>net := w\<rparr>)" using assms(1) by simp
  with clear_step [OF this] True send assms show ?thesis
    by (auto simp: handle_keypress_def hid_codes edit_step_def key_step_def)
next
  case False
  show ?thesis using keypress_edits [OF assms(1) False, of wr mods] assms(2)
    by (fastforce simp: edit_step_def key_step_def handle_caps_shown)
qed

lemma keypress_step:
  assumes "client_ok s"
  shows "\<exists>s'. handle_keypress wr key mods s = Some s' \<and> key_step s s'"
  using keypress_offers [OF assms, of "\<lambda>_. True" wr key mods] by blast

text \<open>
  C10: Memory safety of a whole typing session, whatever the network does.  For every sequence of
  key presses, Enter included, and every behaviour of \<open>write\<close>, handling them stays inside the
  buffer and the framebuffer and re-establishes the invariant; the input row shows the line with
  its cursor throughout, no other row and no message position changes; and \<open>write\<close> is only ever
  offered non-empty parts of a line of at most 255 ASCII characters, so that whatever such calls
  keep true of the network stays true.
\<close>

theorem keypresses_safe:
  assumes "client_ok s" "input_shown s" "P (net s)"
    and "\<And>bs w. P w \<Longrightarrow> line_bytes bs \<Longrightarrow> P (snd (wr bs w))"
  shows "\<exists>s'. iter_opt (\<lambda>(key, mods). handle_keypress wr key mods) keys s = Some s' \<and>
    client_ok s' \<and> input_shown s' \<and> P (net s') \<and>
    current_msg_row (dp s') = current_msg_row (dp s) \<and> current_msg_col (dp s') = current_msg_col (dp s) \<and>
    (\<forall>row col x. on_screen row col \<and> row \<noteq> 23 \<longrightarrow>
       shows_char (d_fb (dp s')) row col x = shows_char (d_fb (dp s)) row col x)"
  using assms(1-3)
proof (induction keys arbitrary: s)
  case (Cons km keys)
  obtain key mods where km: "km = (key, mods)" by (cases km)
  obtain s1 where s1: "handle_keypress wr key mods s = Some s1" "key_step s s1" "P (net s1)"
    using keypress_offers [of s P wr key mods] Cons.prems assms(4) by blast
  with Cons.IH [of s1] Cons.prems(2) show ?case by (auto simp: km key_step_def)
qed simp

text \<open>The log of a socket that notes what it is offered and accepts one byte at a time.\<close>

definition slow_write :: "u8 list list write_call" where
  "slow_write bs w = (1, w @ [bs])"

lemma xga_input_shown:
  "\<exists>s. redraw_input \<lparr>kb = idle_kbd, dp = xga_disp, net = w\<rparr> = Some s \<and> client_ok s \<and> input_shown s \<and> net s = w"
  using redraw_step [OF xga_client_ok idle_kbd_ok(1), of w] by (auto simp: edit_step_def)

theorem keypresses_safe_witness:
  "\<exists>s s'. redraw_input \<lparr>kb = idle_kbd, dp = xga_disp, net = []\<rparr> = Some s \<and>
     iter_opt (\<lambda>(key, mods). handle_keypress slow_write key mods) [(0x0b, 0), (0x0c, 2), (HID_ENTER, 0)] s = Some s' \<and>
     input_shown s' \<and> (\<forall>bs \<in> set (net s'). bs \<noteq> [] \<and> length bs \<le> 255)"
proof -
  obtain s where s: "redraw_input \<lparr>kb = idle_kbd, dp = xga_disp, net = [] :: u8 list list\<rparr> = Some s"
    "client_ok s" "input_shown s" "net s = []"
    using xga_input_shown [of "[]"] by (elim exE conjE)
  let ?P = "\<lambda>w. \<forall>bs \<in> set w. line_bytes bs"
  have P: "?P (net s)" "\<And>bs w. ?P w \<Longrightarrow> line_bytes bs \<Longrightarrow> ?P (snd (slow_write bs w))"
    using s(4) by (auto simp: slow_write_def)
  from keypresses_safe [of s ?P slow_write "[(0x0b, 0), (0x0c, 2), (HID_ENTER, 0)]", OF s(2,3) P] obtain s' where
    "iter_opt (\<lambda>(key, mods). handle_keypress slow_write key mods) [(0x0b, 0), (0x0c, 2), (HID_ENTER, 0)] s = Some s'"
    "input_shown s'" "?P (net s')" by blast
  with s(1) show ?thesis unfolding line_bytes_def by blast
qed

text \<open>
  C20: Enter on a non-empty line: either the whole line was accepted by the socket, exactly once
  and in order, the editor is empty and the input row shows that; or a proper prefix of the line
  was accepted, the call of \<open>write\<close> that offered the rest accepted nothing, and nothing but the
  socket has changed: the line is kept for another try.
\<close>

theorem enter_sends_line:
  assumes "client_ok s" "write_contract wr sent_log" "text_of (kb s) \<noteq> []"
  shows "\<exists>s'. handle_keypress wr HID_ENTER mods s = Some s' \<and>
    ((sent_log (net s') = sent_log (net s) @ text_of (kb s) \<and> editor_of (kb s') = ([], []) \<and> input_shown s') \<or>
     (\<exists>m w. m < length (text_of (kb s)) \<and> sent_log w = sent_log (net s) @ take m (text_of (kb s)) \<and>
        fst (wr (drop m (text_of (kb s))) w) \<le> 0 \<and> s' = s\<lparr>net := snd (wr (drop m (text_of (kb s))) w)\<rparr> \<and>
        sent_log (net s') = sent_log (net s) @ take m (text_of (kb s))))"
proof -
  have ok: "kbd_ok (kb s)" and len: "0 < input_length (kb s)"
    using assms(1,3) by (auto simp: client_ok_def text_of_def)
  obtain rc w' where send: "send_input_buffer_to_server wr s = Some (rc, s\<lparr>net := w'\<rparr>)" and
    res: "(rc = 0 \<and> sent_log w' = sent_log (net s) @ text_of (kb s)) \<or>
     (rc = -1 \<and> (\<exists>m w1. m < length (text_of (kb s)) \<and> sent_log w1 = sent_log (net s) @ take m (text_of (kb s)) \<and>
        fst (wr (drop m (text_of (kb s))) w1) \<le> 0 \<and> w' = snd (wr (drop m (text_of (kb s))) w1)))"
    using send_result [OF assms(2) ok] by blast
  have "client_ok (s\<lparr>net := w'\<rparr>)" using assms(1) by simp
  then obtain s2 where s2: "input_buf_clear (s\<lparr>net := w'\<rparr>) = Some s2" "edit_step (s\<lparr>net := w'\<rparr>) s2 ([], [])" "input_shown s2"
    using clear_step by blast
  have kept: "sent_log (snd (wr bs w)) = sent_log w" if "fst (wr bs w) \<le> 0" for bs w
    using assms(2) that by (metis append_Nil2 nat_le_0 prod.collapse take_0 write_contract_def)
  have enter: "handle_keypress wr HID_ENTER mods s = (if rc = 0 then input_buf_clear (s\<lparr>net := w'\<rparr>) else Some (s\<lparr>net := w'\<rparr>))"
    using send len by (simp add: handle_keypress_def hid_codes)
  show ?thesis
  proof (cases "rc = 0")
    case True
    with res s2 enter show ?thesis by (auto simp: edit_step_def)
  next
    case False
    with res obtain m w1 where "m < length (text_of (kb s))" "sent_log w1 = sent_log (net s) @ take m (text_of (kb s))"
      "fst (wr (drop m (text_of (kb s))) w1) \<le> 0" "w' = snd (wr (drop m (text_of (kb s))) w1)" by blast
    with False enter kept show ?thesis by (intro exI [of _ "s\<lparr>net := w'\<rparr>"]) auto
  qed
qed

lemma write_contract_full: "write_contract (\<lambda>bs w. (int (length bs), w @ bs)) id"
  by (simp add: write_contract_def)

theorem enter_sends_line_witness:
  "\<exists>s'. handle_keypress (\<lambda>bs w. (int (length bs), w @ bs)) HID_ENTER 0
     \<lparr>kb = idle_kbd\<lparr>input_buffer := 0x68 # replicate 255 0, input_length := 1, cursor_position := 1\<rparr>,
      dp = xga_disp, net = []\<rparr> = Some s' \<and> net s' = [0x68] \<and> editor_of (kb s') = ([], [])"
proof -
  let ?k = "idle_kbd\<lparr>input_buffer := 0x68 # replicate 255 0, input_length := 1, cursor_position := 1\<rparr>"
  have t: "text_of ?k = [0x68]" by (simp add: text_of_def)
  have "kbd_ok ?k" by (simp add: kbd_ok_def t)
  then have "client_ok \<lparr>kb = ?k, dp = xga_disp, net = []\<rparr>"
    by (simp add: client_ok_def xga_disp_def xga_fits pos_ok_def)
  from enter_sends_line [OF this write_contract_full, of 0] t show ?thesis
    by auto
qed

end
