(* ===== verification/UsbKeyboard.thy ===== *)
theory UsbKeyboard
  imports Prelude
begin

text \<open>
  Finding the USB keyboard, \<open>src/lab2/usbkeyboard.c\<close>.  The libusb library is a parameter: the
  record \<open>libusb\<close> of the calls the code makes, over an arbitrary library state \<open>'u\<close>, with
  devices \<open>'d\<close> and device handles \<open>'h\<close>.  The descriptors are libusb's structures.

  A call of the component ends with \<open>Done\<close> and the returned value, with \<open>Exited\<close> where the
  code calls \<open>exit\<close>, or with \<open>Undef\<close> where it follows an uninitialised pointer or leaves an
  array.  The loop over the alternate settings counts with a \<open>uint8_t\<close> up to an \<open>int\<close> bound,
  so it need not end; it is a partial function whose \<open>None\<close> means that it runs forever.
\<close>

datatype 'a outcome = Exited int | Undef | Done 'a

record interface_descriptor =
  bInterfaceClass :: u8
  bInterfaceProtocol :: u8
  endpoint :: "u8 list"

record usb_interface =
  altsetting :: "interface_descriptor list"
  num_altsetting :: int

record config_descriptor =
  bNumInterfaces :: u8
  interfaces :: "usb_interface list"

definition LIBUSB_CLASS_PER_INTERFACE :: u8 where "LIBUSB_CLASS_PER_INTERFACE = 0"
definition LIBUSB_CLASS_HID :: u8 where "LIBUSB_CLASS_HID = 3"
definition USB_HID_KEYBOARD_PROTOCOL :: u8 where "USB_HID_KEYBOARD_PROTOCOL = 1"

text \<open>
  \<open>get_device_list\<close> answers a negative code or the list; \<open>get_device_descriptor\<close> a code and the
  device class; \<open>get_config_descriptor\<close> a configuration, or \<open>None\<close> when it fails and leaves the
  caller's pointer unset.
\<close>

record ('d, 'h, 'u) libusb =
  usb_init :: "'u \<Rightarrow> int \<times> 'u"
  get_device_list :: "'u \<Rightarrow> (int + 'd list) \<times> 'u"
  get_device_descriptor :: "'d \<Rightarrow> 'u \<Rightarrow> (int \<times> u8) \<times> 'u"
  get_config_descriptor :: "'d \<Rightarrow> 'u \<Rightarrow> config_descriptor option \<times> 'u"
  usb_open :: "'d \<Rightarrow> 'u \<Rightarrow> (int \<times> 'h) \<times> 'u"
  kernel_driver_active :: "'h \<Rightarrow> u8 \<Rightarrow> 'u \<Rightarrow> int \<times> 'u"
  detach_kernel_driver :: "'h \<Rightarrow> u8 \<Rightarrow> 'u \<Rightarrow> 'u"
  set_auto_detach :: "'h \<Rightarrow> u8 \<Rightarrow> 'u \<Rightarrow> 'u"
  claim_interface :: "'h \<Rightarrow> u8 \<Rightarrow> 'u \<Rightarrow> int \<times> 'u"
  free_device_list :: "'d list \<Rightarrow> 'u \<Rightarrow> 'u"

type_synonym 'h found = "('h \<times> u8) option"

subsection \<open>The search\<close>

definition is_keyboard :: "interface_descriptor \<Rightarrow> bool" where
  "is_keyboard idesc \<longleftrightarrow>
     bInterfaceClass idesc = LIBUSB_CLASS_HID \<and> bInterfaceProtocol idesc = USB_HID_KEYBOARD_PROTOCOL"

definition open_keyboard_interface ::
  "('d, 'h, 'u) libusb \<Rightarrow> 'd \<Rightarrow> u8 \<Rightarrow> interface_descriptor \<Rightarrow> 'u \<Rightarrow> ('h found \<times> 'u) outcome" where
  "open_keyboard_interface L dev i idesc u =
     (case usb_open L dev u of ((r, h), u) \<Rightarrow>
        if r \<noteq> 0 then Exited 1
        else case kernel_driver_active L h i u of (active, u) \<Rightarrow>
          let u = (if active \<noteq> 0 then detach_kernel_driver L h i u else u);
              u = set_auto_detach L h i u
          in case claim_interface L h i u of (r, u) \<Rightarrow>
               if r \<noteq> 0 then Exited 1
               else case endpoint idesc of
                      [] \<Rightarrow> Undef
                    | ep # _ \<Rightarrow> Done (Some (h, ep), u))"

partial_function (option) scan_altsettings ::
  "('d, 'h, 'u) libusb \<Rightarrow> 'd \<Rightarrow> usb_interface \<Rightarrow> u8 \<Rightarrow> u8 \<Rightarrow> 'u \<Rightarrow> ('h found \<times> 'u) outcome option" where
  "scan_altsettings L dev itf i k u =
     (if uint k < num_altsetting itf then
        if unat k < length (altsetting itf) then
          (if is_keyboard (altsetting itf ! unat k)
           then Some (open_keyboard_interface L dev i (altsetting itf ! unat k) u)
           else scan_altsettings L dev itf i (k + 1) u)
        else Some Undef
      else Some (Done (None, u)))"

partial_function (option) scan_interfaces ::
  "('d, 'h, 'u) libusb \<Rightarrow> 'd \<Rightarrow> config_descriptor \<Rightarrow> u8 \<Rightarrow> 'u \<Rightarrow> ('h found \<times> 'u) outcome option" where
  "scan_interfaces L dev config i u =
     (if i < bNumInterfaces config then
        if unat i < length (interfaces config) then
          Option.bind (scan_altsettings L dev (interfaces config ! unat i) i 0 u)
            (\<lambda>r. case r of
                   Exited e \<Rightarrow> Some (Exited e)
                 | Undef \<Rightarrow> Some Undef
                 | Done x \<Rightarrow> (case fst x of
                      None \<Rightarrow> scan_interfaces L dev config (i + 1) (snd x)
                    | Some h \<Rightarrow> Some (Done x)))
        else Some Undef
      else Some (Done (None, u)))"

fun scan_devices ::
  "('d, 'h, 'u) libusb \<Rightarrow> 'd list \<Rightarrow> 'u \<Rightarrow> ('h found \<times> 'u) outcome option" where
  "scan_devices L [] u = Some (Done (None, u))"
| "scan_devices L (dev # devs) u =
     (case get_device_descriptor L dev u of ((r, cls), u) \<Rightarrow>
        if r < 0 then Some (Exited 1)
        else if cls = LIBUSB_CLASS_PER_INTERFACE then
          (case get_config_descriptor L dev u of
             (None, u) \<Rightarrow> Some Undef
           | (Some config, u) \<Rightarrow>
               Option.bind (scan_interfaces L dev config 0 u)
                 (\<lambda>r. case r of
                        Done (None, u) \<Rightarrow> scan_devices L devs u
                      | _ \<Rightarrow> Some r))
        else scan_devices L devs u)"

text \<open>The result: the handle (\<open>None\<close> is \<open>NULL\<close>), the endpoint address stored and the library state.\<close>

definition openkeyboard ::
  "('d, 'h, 'u) libusb \<Rightarrow> u8 \<Rightarrow> 'u \<Rightarrow> ('h option \<times> u8 \<times> 'u) outcome option" where
  "openkeyboard L endpoint_address u =
     (case usb_init L u of (r, u) \<Rightarrow>
        if r < 0 then Some (Exited 1)
        else case get_device_list L u of
          (Inl e, u) \<Rightarrow> Some (Exited 1)
        | (Inr devs, u) \<Rightarrow>
            Option.bind (scan_devices L devs u)
              (\<lambda>r. case r of
                     Exited e \<Rightarrow> Some (Exited e)
                   | Undef \<Rightarrow> Some Undef
                   | Done (None, u) \<Rightarrow> Some (Done (None, endpoint_address, free_device_list L devs u))
                   | Done (Some (h, ep), u) \<Rightarrow> Some (Done (Some h, ep, free_device_list L devs u))))"

subsection \<open>What the search finds\<close>

text \<open>
  The documented behaviour of the descriptor calls: they succeed, do not change the library
  state, and the counts they report are the lengths of the arrays, with at most 255 alternate
  settings per interface (\<open>bAlternateSetting\<close> is one byte).
\<close>

definition config_ok :: "config_descriptor \<Rightarrow> bool" where
  "config_ok c \<longleftrightarrow> length (interfaces c) = unat (bNumInterfaces c) \<and>
     (\<forall>itf \<in> set (interfaces c). num_altsetting itf = int (length (altsetting itf)) \<and>
        length (altsetting itf) \<le> 255)"

definition descriptors_ok ::
  "('d, 'h, 'u) libusb \<Rightarrow> 'd list \<Rightarrow> ('d \<Rightarrow> u8) \<Rightarrow> ('d \<Rightarrow> config_descriptor) \<Rightarrow> bool" where
  "descriptors_ok L devs cls conf \<longleftrightarrow>
     (\<forall>dev \<in> set devs. config_ok (conf dev) \<and>
        (\<forall>u. get_device_descriptor L dev u = ((0, cls dev), u) \<and>
             get_config_descriptor L dev u = (Some (conf dev), u)))"

text \<open>
  The specification: all keyboard interfaces in enumeration order, device by device, interface
  by interface and setting by setting; the first one is opened.
\<close>

definition keyboards_of :: "config_descriptor \<Rightarrow> (u8 \<times> interface_descriptor) list" where
  "keyboards_of c =
     concat (map (\<lambda>i. map (Pair (of_nat i)) (filter is_keyboard (altsetting (interfaces c ! i))))
       [0..<length (interfaces c)])"

definition all_keyboards ::
  "'d list \<Rightarrow> ('d \<Rightarrow> u8) \<Rightarrow> ('d \<Rightarrow> config_descriptor) \<Rightarrow> ('d \<times> u8 \<times> interface_descriptor) list" where
  "all_keyboards devs cls conf =
     concat (map (\<lambda>dev. if cls dev = LIBUSB_CLASS_PER_INTERFACE
                        then map (Pair dev) (keyboards_of (conf dev)) else []) devs)"

definition open_first ::
  "('d, 'h, 'u) libusb \<Rightarrow> ('d \<times> u8 \<times> interface_descriptor) list \<Rightarrow> 'u \<Rightarrow> ('h found \<times> 'u) outcome" where
  "open_first L ks u =
     (case ks of [] \<Rightarrow> Done (None, u) | (dev, i, idesc) # _ \<Rightarrow> open_keyboard_interface L dev i idesc u)"

lemma open_keyboard_not_None: "open_keyboard_interface L dev i idesc u \<noteq> Done (None, u')"
  by (auto simp: open_keyboard_interface_def Let_def split: prod.splits list.splits)

lemma open_first_append:
  "open_first L (ks @ ks') u =
     (case open_first L ks u of Done (None, u) \<Rightarrow> open_first L ks' u | r \<Rightarrow> r)"
proof (cases ks)
  case (Cons k rest)
  obtain dev i idesc where k: "k = (dev, i, idesc)" by (cases k)
  show ?thesis
    using open_keyboard_not_None [of L dev i idesc u]
    by (cases "open_keyboard_interface L dev i idesc u")
       (auto simp: Cons k open_first_def split: prod.splits option.splits)
qed (simp add: open_first_def)

lemma scan_altsettings_eq:
  assumes "num_altsetting itf = int (length (altsetting itf))" "length (altsetting itf) \<le> 255"
    "n \<le> length (altsetting itf)"
  shows "scan_altsettings L dev itf i (of_nat n) u =
    Some (open_first L (map (\<lambda>x. (dev, i, x)) (filter is_keyboard (drop n (altsetting itf)))) u)"
  using assms(3)
proof (induction n rule: inc_induct)
  case base
  have "uint (of_nat (length (altsetting itf)) :: u8) = int (length (altsetting itf))"
    using assms(2) by (simp add: uint_nat unat_of_nat_small)
  then show ?case by (subst scan_altsettings.simps) (simp add: assms(1) open_first_def)
next
  case (step n)
  have n: "unat (of_nat n :: u8) = n" using step.hyps assms(2) by (simp add: unat_of_nat_small)
  then have "uint (of_nat n :: u8) = int n" by (simp add: uint_nat)
  moreover have "(of_nat n :: u8) + 1 = of_nat (Suc n)" by simp
  ultimately show ?case
    using step n
    by (subst scan_altsettings.simps)
       (auto simp: assms(1) open_first_def Cons_nth_drop_Suc [symmetric] add.commute)
qed

lemma scan_interfaces_eq:
  assumes ok: "config_ok c" and n: "n \<le> length (interfaces c)"
  shows "scan_interfaces L dev c (of_nat n) u =
    Some (open_first L (map (Pair dev)
      (concat (map (\<lambda>i. map (Pair (of_nat i)) (filter is_keyboard (altsetting (interfaces c ! i))))
        [n..<length (interfaces c)]))) u)"
  using n
proof (induction n arbitrary: u rule: inc_induct)
  case base
  have "(of_nat (length (interfaces c)) :: u8) = bNumInterfaces c"
    using ok by (simp add: config_ok_def)
  then show ?case by (subst scan_interfaces.simps) (simp add: open_first_def)
next
  case (step n)
  have len: "length (interfaces c) = unat (bNumInterfaces c)" using ok by (simp add: config_ok_def)
  have un: "unat (of_nat n :: u8) = n"
    using step.hyps len unsigned_less [of "bNumInterfaces c", where 'a = nat] by (intro unat_of_nat_small) simp
  have lt: "(of_nat n :: u8) < bNumInterfaces c" using step.hyps len un by (simp add: word_less_nat_alt)
  let ?itf = "interfaces c ! n"
  have "?itf \<in> set (interfaces c)" using step.hyps by simp
  then have alt: "scan_altsettings L dev ?itf (of_nat n) 0 u =
      Some (open_first L (map (\<lambda>x. (dev, of_nat n, x)) (filter is_keyboard (altsetting ?itf))) u)"
    using ok scan_altsettings_eq [of ?itf 0 L dev "of_nat n" u] by (auto simp: config_ok_def)
  have upt: "[n..<length (interfaces c)] = n # [Suc n..<length (interfaces c)]"
    using step.hyps by (simp add: upt_conv_Cons)
  have add1: "(of_nat n :: u8) + 1 = of_nat (Suc n)" by simp
  show ?case
    unfolding upt
    by (subst scan_interfaces.simps)
       (use step.hyps lt un in \<open>auto simp: alt add1 step.IH open_first_append comp_def
          simp del: of_nat_Suc split: outcome.splits option.splits\<close>)
qed

lemma all_keyboards_Cons:
  "all_keyboards (dev # devs) cls conf =
     (if cls dev = LIBUSB_CLASS_PER_INTERFACE then map (Pair dev) (keyboards_of (conf dev)) else []) @
     all_keyboards devs cls conf"
  by (simp add: all_keyboards_def)

lemma open_first_Nil [simp]: "open_first L [] u = Done (None, u)"
  by (simp add: open_first_def)

lemma scan_devices_eq:
  assumes "descriptors_ok L devs cls conf"
  shows "scan_devices L devs u = Some (open_first L (all_keyboards devs cls conf) u)"
  using assms
proof (induction devs arbitrary: u)
  case (Cons dev devs)
  have ok: "config_ok (conf dev)" "\<And>u. get_device_descriptor L dev u = ((0, cls dev), u)"
    "\<And>u. get_config_descriptor L dev u = (Some (conf dev), u)" "descriptors_ok L devs cls conf"
    using Cons.prems by (auto simp: descriptors_ok_def)
  have itf: "scan_interfaces L dev (conf dev) 0 u =
      Some (open_first L (map (Pair dev) (keyboards_of (conf dev))) u)"
    using scan_interfaces_eq [OF ok(1), of 0 L dev u] by (simp add: keyboards_of_def)
  show ?case
    using ok Cons.IH [OF ok(4)]
    by (simp add: all_keyboards_Cons itf open_first_append split: outcome.split option.split)
qed (simp add: all_keyboards_def open_first_def)

lemma openkeyboard_first:
  assumes "usb_init L u = (r, u1)" "0 \<le> r" "get_device_list L u1 = (Inr devs, u2)"
    and "descriptors_ok L devs cls conf"
  shows "openkeyboard L ep0 u = Some
    (case all_keyboards devs cls conf of
       [] \<Rightarrow> Done (None, ep0, free_device_list L devs u2)
     | (dev, i, idesc) # _ \<Rightarrow>
         (case open_keyboard_interface L dev i idesc u2 of
            Exited e \<Rightarrow> Exited e
          | Undef \<Rightarrow> Undef
          | Done (h, u3) \<Rightarrow> Done (map_option fst h, hd (endpoint idesc), free_device_list L devs u3)))"
  using assms scan_devices_eq [OF assms(4), of u2]
  by (auto simp: openkeyboard_def open_first_def open_keyboard_interface_def Let_def
      split: list.splits prod.splits)

text \<open>
  \<open>bus_ok\<close>: the devices the library lists have sound descriptors, and every keyboard interface has
  an endpoint, as the HID class demands.  Then the search comes to an end: it returns, or it exits
  with status 1.
\<close>

definition bus_ok ::
  "('d, 'h, 'u) libusb \<Rightarrow> 'u \<Rightarrow> ('d \<Rightarrow> u8) \<Rightarrow> ('d \<Rightarrow> config_descriptor) \<Rightarrow> bool" where
  "bus_ok L u cls conf \<longleftrightarrow>
     (case get_device_list L (snd (usb_init L u)) of
        (Inl e, u2) \<Rightarrow> True
      | (Inr devs, u2) \<Rightarrow> descriptors_ok L devs cls conf \<and>
          (\<forall>(dev, i, idesc) \<in> set (all_keyboards devs cls conf). endpoint idesc \<noteq> []))"

lemma openkeyboard_ends:
  assumes "bus_ok L u cls conf"
  shows "openkeyboard L ep0 u = Some (Exited 1) \<or> (\<exists>x. openkeyboard L ep0 u = Some (Done x))"
proof -
  obtain r u1 where init: "usb_init L u = (r, u1)" by fastforce
  show ?thesis
  proof (cases "0 \<le> r")
    case False
    with init show ?thesis by (simp add: openkeyboard_def)
  next
    case True
    obtain l u2 where l: "get_device_list L u1 = (l, u2)" by fastforce
    show ?thesis
    proof (cases l)
      case (Inl e)
      with init l show ?thesis by (simp add: openkeyboard_def)
    next
      case (Inr devs)
      with assms init l have ok: "descriptors_ok L devs cls conf"
        "\<forall>(dev, i, idesc) \<in> set (all_keyboards devs cls conf). endpoint idesc \<noteq> []"
        by (simp_all add: bus_ok_def)
      from openkeyboard_first [OF init True l [unfolded Inr] ok(1), of ep0] ok(2) show ?thesis
        by (auto simp: open_keyboard_interface_def Let_def split: list.splits prod.splits)
    qed
  qed
qed

text \<open>A bus with a mouse and a keyboard, and a library whose state is the list of claims.\<close>

definition hid_config :: "u8 \<Rightarrow> u8 \<Rightarrow> config_descriptor" where
  "hid_config proto ep =
     \<lparr>bNumInterfaces = 1, interfaces = [\<lparr>altsetting =
        [\<lparr>bInterfaceClass = 3, bInterfaceProtocol = proto, endpoint = [ep]\<rparr>], num_altsetting = 1\<rparr>]\<rparr>"

definition test_bus :: "(u8, u8, u8 list) libusb" where
  "test_bus =
     \<lparr>usb_init = (\<lambda>u. (0, u)), get_device_list = (\<lambda>u. (Inr [2, 1], u)),
      get_device_descriptor = (\<lambda>d u. ((0, 0), u)),
      get_config_descriptor = (\<lambda>d u. (Some (hid_config d (0x80 + d)), u)),
      usb_open = (\<lambda>d u. ((0, d), u)), kernel_driver_active = (\<lambda>h i u. (1, u)),
      detach_kernel_driver = (\<lambda>h i u. u), set_auto_detach = (\<lambda>h i u. u),
      claim_interface = (\<lambda>h i u. (0, h # u)), free_device_list = (\<lambda>ds u. u)\<rparr>"

lemma test_bus_opens: "openkeyboard test_bus 0 [] = Some (Done (Some 1, 0x81, [1]))"
proof -
  have "descriptors_ok test_bus [2, 1] (\<lambda>_. 0) (\<lambda>d. hid_config d (0x80 + d))"
    by (auto simp: descriptors_ok_def test_bus_def config_ok_def hid_config_def)
  from openkeyboard_first [OF _ _ _ this, of "[]" 0 "[]" "[]" 0] show ?thesis
    by (simp add: test_bus_def all_keyboards_def keyboards_of_def hid_config_def is_keyboard_def
        LIBUSB_CLASS_PER_INTERFACE_def LIBUSB_CLASS_HID_def USB_HID_KEYBOARD_PROTOCOL_def
        open_keyboard_interface_def)
qed

lemma test_bus_ok: "bus_ok test_bus u (\<lambda>_. 0) (\<lambda>d. hid_config d (0x80 + d))"
  by (auto simp: bus_ok_def descriptors_ok_def test_bus_def config_ok_def hid_config_def all_keyboards_def
      keyboards_of_def)

text \<open>
  C27: The search opens the first keyboard: when the library starts and lists the devices, the
  call returns; the handle and the endpoint address are those of the first HID keyboard
  interface in enumeration order, it is \<open>NULL\<close> with the address untouched when there is none,
  and the device list is released in both cases.
\<close>

theorem openkeyboard_opens_first:
  assumes "usb_init L u = (r, u1)" "0 \<le> r" "get_device_list L u1 = (Inr devs, u2)"
    and "descriptors_ok L devs cls conf"
  shows "openkeyboard L ep0 u = Some
    (case all_keyboards devs cls conf of
       [] \<Rightarrow> Done (None, ep0, free_device_list L devs u2)
     | (dev, i, idesc) # _ \<Rightarrow>
         (case open_keyboard_interface L dev i idesc u2 of
            Exited e \<Rightarrow> Exited e
          | Undef \<Rightarrow> Undef
          | Done (h, u3) \<Rightarrow> Done (map_option fst h, hd (endpoint idesc), free_device_list L devs u3)))"
  by (rule openkeyboard_first [OF assms])

theorem openkeyboard_opens_first_witness:
  "openkeyboard test_bus 0 [] = Some (Done (Some 1, 0x81, [1]))"
proof -
  have "descriptors_ok test_bus [2, 1] (\<lambda>_. 0) (\<lambda>d. hid_config d (0x80 + d))"
    by (auto simp: descriptors_ok_def test_bus_def config_ok_def hid_config_def)
  from openkeyboard_opens_first [OF _ _ _ this, of "[]" 0 "[]" "[]" 0] show ?thesis
    by (simp add: test_bus_def all_keyboards_def keyboards_of_def hid_config_def is_keyboard_def
        LIBUSB_CLASS_PER_INTERFACE_def LIBUSB_CLASS_HID_def USB_HID_KEYBOARD_PROTOCOL_def
        open_keyboard_interface_def)
qed

text \<open>
  The unchecked call: when a device that defines its class per interface fails to deliver
  its configuration (an unconfigured device does), the search follows an uninitialised pointer,
  whatever comes after it on the bus.
\<close>

theorem openkeyboard_unchecked_config:
  assumes "usb_init L u = (r, u1)" "0 \<le> r" "get_device_list L u1 = (Inr (dev # devs), u2)"
    and "get_device_descriptor L dev u2 = ((r', LIBUSB_CLASS_PER_INTERFACE), u3)" "0 \<le> r'"
    and "get_config_descriptor L dev u3 = (None, u4)"
  shows "openkeyboard L ep0 u = Some Undef"
  using assms by (simp add: openkeyboard_def)

theorem openkeyboard_unchecked_config_witness:
  "openkeyboard (test_bus\<lparr>get_config_descriptor := \<lambda>d u. (None, u)\<rparr>) 0 [] = Some Undef"
  by (rule openkeyboard_unchecked_config [where r = 0 and r' = 0 and dev = 2 and devs = "[1]"])
    (simp_all add: test_bus_def LIBUSB_CLASS_PER_INTERFACE_def)

end
