(* ===== verification/ChatClient.thy ===== *)
theory ChatClient
  imports Keyboard UsbKeyboard
begin

text \<open>
  The chat client program, \<open>src/lab2/lab2.c\<close>: start-up with its error exits, the keyboard loop
  of \<open>main\<close> with edge detection and key repeat, and the network thread.  The operating system,
  libusb and the socket are parameters.  One iteration of the endless loop of \<open>main\<close> is
  \<open>main_iteration\<close>, one iteration of the network thread \<open>network_iteration\<close>; the theory
  \<open>Threads\<close> runs the two threads together.

  The lemmas show which key presses an iteration handles and when a held key repeats, that the
  network thread comes to its end, and that start-up either reaches a valid state or exits with
  status 1.
\<close>

definition BUFFER_SIZE :: nat where "BUFFER_SIZE = 128"
definition KEY_REPEAT_INITIAL_DELAY_MS :: u64 where "KEY_REPEAT_INITIAL_DELAY_MS = 500"
definition KEY_REPEAT_INTERVAL_MS :: u64 where "KEY_REPEAT_INTERVAL_MS = 80"
definition LIBUSB_ERROR_TIMEOUT :: int where "LIBUSB_ERROR_TIMEOUT = -7"
definition sizeof_packet :: int where "sizeof_packet = 8"

lemmas chat_consts [bounds_simps] =
  BUFFER_SIZE_def KEY_REPEAT_INITIAL_DELAY_MS_def KEY_REPEAT_INTERVAL_MS_def
  LIBUSB_ERROR_TIMEOUT_def sizeof_packet_def

record 'w chat =
  cl :: "'w client"
  repeat_keycode :: u8
  repeat_modifiers :: u8
  next_repeat_ms :: u64

definition monotonic_time_ms :: "int \<Rightarrow> int \<Rightarrow> u64" where
  "monotonic_time_ms tv_sec tv_nsec = of_int tv_sec * 1000 + of_int tv_nsec div 1000000"

text \<open>The outcome of \<open>libusb_interrupt_transfer\<close>: return code, bytes transferred, packet.\<close>

type_synonym transfer = "int \<times> int \<times> usb_keyboard_packet"

subsection \<open>The keyboard loop\<close>

definition press :: "'w write_call \<Rightarrow> u8 \<Rightarrow> u8 \<Rightarrow> 'w chat \<Rightarrow> 'w chat option" where
  "press wr key mods s = map_option (\<lambda>c. s\<lparr>cl := c\<rparr>) (handle_keypress wr key mods (cl s))"

definition press_new :: "'w write_call \<Rightarrow> usb_keyboard_packet \<Rightarrow> 'w chat \<Rightarrow> 'w chat option" where
  "press_new wr p s =
     iter_opt (\<lambda>i s. let key = keycode p ! i in
         if key \<noteq> 0 \<and> is_new_keypress key (kb (cl s)) then press wr key (modifiers p) s else Some s)
       [0..<6] s"

definition held_keycode :: "usb_keyboard_packet \<Rightarrow> u8" where
  "held_keycode p = (case find (\<lambda>i. keycode p ! i \<noteq> 0) [0..<6] of None \<Rightarrow> 0 | Some i \<Rightarrow> keycode p ! i)"

definition packet_repeat ::
  "'w write_call \<Rightarrow> usb_keyboard_packet \<Rightarrow> u64 \<Rightarrow> 'w chat \<Rightarrow> 'w chat option" where
  "packet_repeat wr p now_ms s =
     (let held = held_keycode p in
      if held = 0 then Some (s\<lparr>repeat_keycode := 0\<rparr>)
      else if held \<noteq> repeat_keycode s \<or> modifiers p \<noteq> repeat_modifiers s then
        Some (s\<lparr>repeat_keycode := held, repeat_modifiers := modifiers p,
                next_repeat_ms := now_ms + KEY_REPEAT_INITIAL_DELAY_MS\<rparr>)
      else if is_repeatable_key held \<and> next_repeat_ms s \<le> now_ms then
        do { s \<leftarrow> press wr held (modifiers p) s;
             Some (s\<lparr>next_repeat_ms := now_ms + KEY_REPEAT_INTERVAL_MS\<rparr>) }
      else Some s)"

definition save_packet :: "usb_keyboard_packet \<Rightarrow> 'w chat \<Rightarrow> 'w chat" where
  "save_packet p s = s\<lparr>cl := (cl s)\<lparr>kb := keyboard_save_packet p (kb (cl s))\<rparr>\<rparr>"

definition idle_repeat :: "'w write_call \<Rightarrow> u64 \<Rightarrow> 'w chat \<Rightarrow> 'w chat option" where
  "idle_repeat wr now_ms s =
     (if repeat_keycode s \<noteq> 0 \<and> is_repeatable_key (repeat_keycode s) then
        if next_repeat_ms s \<le> now_ms then
          do { s \<leftarrow> press wr (repeat_keycode s) (repeat_modifiers s) s;
               Some (s\<lparr>next_repeat_ms := now_ms + KEY_REPEAT_INTERVAL_MS\<rparr>) }
        else Some s
      else Some s)"

text \<open>
  One iteration of the loop; \<open>t1\<close> and \<open>t2\<close> are what the two calls of \<open>monotonic_time_ms\<close>
  return.  A failed or short transfer is only reported on the terminal.
\<close>

definition main_iteration ::
  "'w write_call \<Rightarrow> transfer \<Rightarrow> u64 \<Rightarrow> u64 \<Rightarrow> 'w chat \<Rightarrow> 'w chat option" where
  "main_iteration wr x t1 t2 s =
     (case x of (transfer_rc, transferred, p) \<Rightarrow>
        do { s \<leftarrow> (if transfer_rc = 0 \<and> transferred = sizeof_packet then
                     do { s \<leftarrow> press_new wr p s;
                          s \<leftarrow> packet_repeat wr p t1 s;
                          Some (save_packet p s) }
                   else Some s);
             idle_repeat wr t2 s })"

subsection \<open>The network thread\<close>

text \<open>
  One iteration after \<open>read\<close> delivered the bytes \<open>chunk\<close> into the receive buffer: the buffer is
  terminated and displayed.  The outer \<open>None\<close> is an endless \<open>display_message\<close>.
\<close>

definition network_iteration ::
  "u8 list \<Rightarrow> u8 list \<times> 'w client \<Rightarrow> (u8 list \<times> 'w client) option option" where
  "network_iteration chunk s =
     (case s of (recvBuf, c) \<Rightarrow>
        let n = length chunk; buf = chunk @ drop n recvBuf in
        if length recvBuf \<le> n then Some None
        else let buf = buf[n := 0] in
             map_option (map_option (\<lambda>d. (buf, c\<lparr>dp := d\<rparr>))) (display_message buf 255 255 255 (dp c)))"

text \<open>
  The whole thread: \<open>rd\<close> is the \<open>read\<close> call, given the bytes requested.  The thread returns
  when \<open>read\<close> reports the end of the stream or an error.
\<close>

type_synonym 'w read_call = "nat \<Rightarrow> 'w \<Rightarrow> (int \<times> u8 list) \<times> 'w"

partial_function (option) network_thread_f ::
  "'w read_call \<Rightarrow> u8 list \<times> 'w client \<Rightarrow> 'w client option option" where
  "network_thread_f rd s =
     (let x = rd (BUFFER_SIZE - 1) (net (snd s)); n = fst (fst x); c = (snd s)\<lparr>net := snd x\<rparr> in
      if 0 < n then
        Option.bind (network_iteration (take (nat n) (snd (fst x))) (fst s, c))
          (\<lambda>r. case r of None \<Rightarrow> Some None | Some s' \<Rightarrow> network_thread_f rd s')
      else Some (Some c))"

subsection \<open>Start-up\<close>


definition prompt :: "u8 list" where
  "prompt = [0x54, 0x79, 0x70, 0x65, 0x20, 0x68, 0x65, 0x72, 0x65, 0x3a, 0x20]"



subsection \<open>Which keys an iteration handles\<close>

text \<open>The new keys of a packet against the previous one, and the keys of one iteration.\<close>

definition new_keys :: "usb_keyboard_packet \<Rightarrow> usb_keyboard_packet \<Rightarrow> u8 list" where
  "new_keys prev p =
     filter (\<lambda>key. key \<noteq> 0 \<and> list_all (\<lambda>i. keycode prev ! i \<noteq> key) [0..<6]) (map ((!) (keycode p)) [0..<6])"

lemma press_eq:
  assumes "client_ok (cl s)"
  shows "\<exists>c. handle_keypress wr key mods (cl s) = Some c \<and> press wr key mods s = Some (s\<lparr>cl := c\<rparr>) \<and>
    key_step (cl s) c"
  using keypress_step [OF assms, of wr key mods] by (auto simp: press_def)

lemma iter_filter:
  assumes "client_ok (cl s)" "previous_packet (kb (cl s)) = prev"
  shows "\<exists>c. iter_opt (\<lambda>key s. if key \<noteq> 0 \<and> is_new_keypress key (kb (cl s)) then press wr key mods s else Some s)
      keys s = Some (s\<lparr>cl := c\<rparr>) \<and> key_step (cl s) c \<and>
    iter_opt (\<lambda>key. handle_keypress wr key mods)
      (filter (\<lambda>key. key \<noteq> 0 \<and> list_all (\<lambda>i. keycode prev ! i \<noteq> key) [0..<6]) keys) (cl s) = Some c"
  using assms
proof (induction keys arbitrary: s)
  case Nil
  then show ?case by (intro exI [of _ "cl s"]) (simp add: key_step_refl)
next
  case (Cons key keys)
  show ?case
  proof (cases "key \<noteq> 0 \<and> is_new_keypress key (kb (cl s))")
    case True
    from press_eq [OF Cons.prems(1), of wr key mods] obtain c1 where
      c1: "handle_keypress wr key mods (cl s) = Some c1" "press wr key mods s = Some (s\<lparr>cl := c1\<rparr>)"
        "key_step (cl s) c1" by blast
    from Cons.IH [of "s\<lparr>cl := c1\<rparr>"] Cons.prems(2) c1(3)
    obtain c where c: "key_step c1 c"
      "iter_opt (\<lambda>key s. if key \<noteq> 0 \<and> is_new_keypress key (kb (cl s)) then press wr key mods s else Some s)
        keys (s\<lparr>cl := c1\<rparr>) = Some (s\<lparr>cl := c\<rparr>)"
      "iter_opt (\<lambda>key. handle_keypress wr key mods)
        (filter (\<lambda>key. key \<noteq> 0 \<and> list_all (\<lambda>i. keycode prev ! i \<noteq> key) [0..<6]) keys) c1 = Some c"
      by (auto simp: key_step_def)
    show ?thesis
      using True c1 c key_step_trans [OF c1(3) c(1)] Cons.prems(2)
      by (intro exI [of _ c]) (simp add: is_new_keypress_def)
  next
    case False
    with Cons show ?thesis by (auto simp: is_new_keypress_def)
  qed
qed

lemma press_new_keys:
  assumes "client_ok (cl s)"
  shows "\<exists>c. press_new wr p s = Some (s\<lparr>cl := c\<rparr>) \<and> key_step (cl s) c \<and>
    iter_opt (\<lambda>key. handle_keypress wr key (modifiers p)) (new_keys (previous_packet (kb (cl s))) p) (cl s) = Some c"
proof -
  have "press_new wr p s =
    iter_opt (\<lambda>key s. if key \<noteq> 0 \<and> is_new_keypress key (kb (cl s)) then press wr key (modifiers p) s else Some s)
      (map ((!) (keycode p)) [0..<6]) s"
    by (simp only: press_new_def iter_opt_map Let_def)
  with iter_filter [OF assms refl, of wr "modifiers p" "map ((!) (keycode p)) [0..<6]"]
  show ?thesis by (simp add: new_keys_def)
qed

text \<open>
  The specification of key repeat: a state of key, modifiers and deadline; what a packet and
  what the end of an iteration at a given time press and leave.
\<close>

type_synonym repeat_state = "u8 \<times> u8 \<times> u64"
type_synonym key_press = "u8 \<times> u8"

definition repeat_of :: "'w chat \<Rightarrow> repeat_state" where
  "repeat_of s = (repeat_keycode s, repeat_modifiers s, next_repeat_ms s)"

fun packet_presses :: "usb_keyboard_packet \<Rightarrow> u64 \<Rightarrow> repeat_state \<Rightarrow> key_press list \<times> repeat_state" where
  "packet_presses p now (k, m, n) =
     (let held = held_keycode p in
      if held = 0 then ([], (0, m, n))
      else if (held, modifiers p) \<noteq> (k, m) then ([], (held, modifiers p, now + 500))
      else if is_repeatable_key held \<and> n \<le> now then ([(k, m)], (k, m, now + 80))
      else ([], (k, m, n)))"

fun idle_presses :: "u64 \<Rightarrow> repeat_state \<Rightarrow> key_press list \<times> repeat_state" where
  "idle_presses now (k, m, n) =
     (if k \<noteq> 0 \<and> is_repeatable_key k \<and> n \<le> now then ([(k, m)], (k, m, now + 80)) else ([], (k, m, n)))"

definition handle_presses :: "'w write_call \<Rightarrow> key_press list \<Rightarrow> 'w client \<Rightarrow> 'w client option" where
  "handle_presses wr = iter_opt (\<lambda>(key, mods). handle_keypress wr key mods)"

definition chat_at :: "'w client \<Rightarrow> repeat_state \<Rightarrow> 'w chat" where
  "chat_at c r = (case r of (k, m, n) \<Rightarrow>
     \<lparr>cl = c, repeat_keycode = k, repeat_modifiers = m, next_repeat_ms = n\<rparr>)"

lemma chat_at_sel [simp]: "cl (chat_at c r) = c" "repeat_of (chat_at c r) = r"
  by (simp_all add: chat_at_def repeat_of_def split: prod.splits)

lemma chat_at_eq: "chat_at (cl s) (repeat_of s) = s"
  by (simp add: chat_at_def repeat_of_def)

lemma packet_repeat_eq:
  "packet_repeat wr p now (chat_at c r) =
     map_option (\<lambda>c. chat_at c (snd (packet_presses p now r))) (handle_presses wr (fst (packet_presses p now r)) c)"
  by (cases r) (auto simp: packet_repeat_def handle_presses_def chat_at_def press_def chat_consts Let_def
      split: Option.bind_splits)

lemma idle_repeat_eq:
  "idle_repeat wr now (chat_at c r) =
     map_option (\<lambda>c. chat_at c (snd (idle_presses now r))) (handle_presses wr (fst (idle_presses now r)) c)"
  by (cases r) (auto simp: idle_repeat_def handle_presses_def chat_at_def press_def chat_consts
      split: Option.bind_splits)

lemma handle_presses_step:
  assumes "client_ok c"
  shows "\<exists>c'. handle_presses wr ks c = Some c' \<and> key_step c c'"
  using assms
proof (induction ks arbitrary: c)
  case Nil
  then show ?case by (simp add: handle_presses_def key_step_refl)
next
  case (Cons k ks)
  obtain key mods where k: "k = (key, mods)" by (cases k)
  from keypress_step [OF Cons.prems, of wr key mods] obtain c1 where
    c1: "handle_keypress wr key mods c = Some c1" "key_step c c1" by blast
  then have "client_ok c1" by (simp add: key_step_def)
  from Cons.IH [OF this] c1 show ?case
    by (auto simp: handle_presses_def k intro: key_step_trans)
qed

lemma handle_presses_append:
  "handle_presses wr (ks @ ls) c = Option.bind (handle_presses wr ks c) (handle_presses wr ls)"
  by (simp add: handle_presses_def iter_opt_append)

lemma press_new_presses:
  assumes "client_ok c"
  shows "press_new wr p (chat_at c r) =
    map_option (\<lambda>c. chat_at c r)
      (handle_presses wr (map (\<lambda>k. (k, modifiers p)) (new_keys (previous_packet (kb c)) p)) c)"
proof -
  from press_new_keys [of "chat_at c r" wr p] assms obtain c' where
    "press_new wr p (chat_at c r) = Some ((chat_at c r)\<lparr>cl := c'\<rparr>)"
    "iter_opt (\<lambda>key. handle_keypress wr key (modifiers p)) (new_keys (previous_packet (kb c)) p) c = Some c'"
    by auto
  then show ?thesis
    by (simp add: handle_presses_def iter_opt_map chat_at_def split: prod.splits)
qed

lemma save_packet_at [simp]: "save_packet p (chat_at c r) = chat_at (c\<lparr>kb := keyboard_save_packet p (kb c)\<rparr>) r"
  by (simp add: save_packet_def chat_at_def split: prod.splits)

lemma saved_ok [simp]: "client_ok (c\<lparr>kb := keyboard_save_packet p (kb c)\<rparr>) = client_ok c"
  by (simp add: client_ok_def keyboard_save_packet_def kbd_ok_def text_of_def)

lemma main_iteration_packet:
  assumes "client_ok (cl s)"
  shows "main_iteration wr (0, 8, p) t1 t2 s =
      (let new = map (\<lambda>k. (k, modifiers p)) (new_keys (previous_packet (kb (cl s))) p);
           (ks, r1) = packet_presses p t1 (repeat_of s);
           (ls, r2) = idle_presses t2 r1
       in do { c \<leftarrow> handle_presses wr (new @ ks) (cl s);
               c \<leftarrow> handle_presses wr ls (c\<lparr>kb := keyboard_save_packet p (kb c)\<rparr>);
               Some (chat_at c r2) })"
proof -
  have s: "s = chat_at (cl s) (repeat_of s)" by (simp add: chat_at_eq)
  show ?thesis
    by (subst s) (auto simp: main_iteration_def chat_consts press_new_presses [OF assms] packet_repeat_eq
        idle_repeat_eq handle_presses_append Let_def split: prod.splits Option.bind_splits)
qed

lemma main_iteration_quiet:
  assumes "\<not> (rc = 0 \<and> n = 8)"
  shows "main_iteration wr (rc, n, p) t1 t2 s =
    map_option (\<lambda>c. chat_at c (snd (idle_presses t2 (repeat_of s))))
      (handle_presses wr (fst (idle_presses t2 (repeat_of s))) (cl s))"
  using assms idle_repeat_eq [of wr t2 "cl s" "repeat_of s"]
  by (auto simp: main_iteration_def chat_consts chat_at_eq)

text \<open>What the keyboard loop leaves alone: everything on the screen but the input row.\<close>

definition loop_step :: "'w client \<Rightarrow> 'w client \<Rightarrow> bool" where
  "loop_step c c' \<longleftrightarrow> client_ok c' \<and>
     current_msg_row (dp c') = current_msg_row (dp c) \<and> current_msg_col (dp c') = current_msg_col (dp c) \<and>
     (\<forall>row col x. on_screen row col \<and> row \<noteq> 23 \<longrightarrow>
        shows_char (d_fb (dp c')) row col x = shows_char (d_fb (dp c)) row col x)"

lemma main_iteration_step:
  assumes "client_ok (cl s)"
  shows "\<exists>s'. main_iteration wr x t1 t2 s = Some s' \<and> loop_step (cl s) (cl s')"
proof -
  obtain rc n p where x: "x = (rc, n, p)" by (cases x)
  show ?thesis
  proof (cases "rc = 0 \<and> n = 8")
    case True
    obtain ks r1 where 1: "packet_presses p t1 (repeat_of s) = (ks, r1)" by (metis surj_pair)
    obtain ls r2 where 2: "idle_presses t2 r1 = (ls, r2)" by (metis surj_pair)
    let ?new = "map (\<lambda>k. (k, modifiers p)) (new_keys (previous_packet (kb (cl s))) p)"
    obtain c1 where c1: "handle_presses wr (?new @ ks) (cl s) = Some c1" "key_step (cl s) c1"
      using handle_presses_step [OF assms] by blast
    let ?c1 = "c1\<lparr>kb := keyboard_save_packet p (kb c1)\<rparr>"
    have "client_ok ?c1" using c1(2) by (simp add: key_step_def)
    from handle_presses_step [OF this] obtain c2 where
      c2: "handle_presses wr ls ?c1 = Some c2" "key_step ?c1 c2" by blast
    show ?thesis
      using main_iteration_packet [OF assms, of wr p t1 t2] 1 2 c1 c2 True
      by (auto simp: x Let_def key_step_def loop_step_def)
  next
    case False
    from handle_presses_step [OF assms] obtain c where
      "handle_presses wr (fst (idle_presses t2 (repeat_of s))) (cl s) = Some c" "key_step (cl s) c" by blast
    with main_iteration_quiet [OF False, of wr p t1 t2 s] show ?thesis
      by (simp add: x key_step_def loop_step_def)
  qed
qed

text \<open>
  C21: What one iteration of the keyboard loop does with a complete packet: it presses exactly
  the keys that were not down in the previous packet, in slot order, then the held key if its
  repeat is due, and remembers the packet as the previous one; the end of the iteration presses
  the held key if its repeat is due.
\<close>

theorem main_iteration_presses:
  assumes "client_ok (cl s)"
  shows "main_iteration wr (0, 8, p) t1 t2 s =
      (let new = map (\<lambda>k. (k, modifiers p)) (new_keys (previous_packet (kb (cl s))) p);
           (ks, r1) = packet_presses p t1 (repeat_of s);
           (ls, r2) = idle_presses t2 r1
       in do { c \<leftarrow> handle_presses wr (new @ ks) (cl s);
               c \<leftarrow> handle_presses wr ls (c\<lparr>kb := keyboard_save_packet p (kb c)\<rparr>);
               Some (chat_at c r2) })"
  by (rule main_iteration_packet [OF assms])

definition idle_chat :: "'w \<Rightarrow> 'w chat" where
  "idle_chat w = \<lparr>cl = \<lparr>kb = idle_kbd, dp = xga_disp, net = w\<rparr>, repeat_keycode = 0, repeat_modifiers = 0,
     next_repeat_ms = 0\<rparr>"

definition h_packet :: usb_keyboard_packet where
  "h_packet = \<lparr>modifiers = 0, reserved = 0, keycode = [0x0b, 0, 0, 0, 0, 0]\<rparr>"

theorem main_iteration_presses_witness:
  "main_iteration (\<lambda>bs w. (-1, w)) (0, 8, h_packet) 1000 1001 (idle_chat ()) =
     do { c \<leftarrow> handle_keypress (\<lambda>bs w. (-1, w)) 0x0b 0 (cl (idle_chat ()));
          Some (chat_at (c\<lparr>kb := keyboard_save_packet h_packet (kb c)\<rparr>) (0x0b, 0, 1500)) }"
proof -
  have "client_ok (cl (idle_chat ()))" by (simp add: idle_chat_def xga_client_ok)
  from main_iteration_presses [OF this, of "\<lambda>bs w. (-1, w)" h_packet 1000 1001]
  show ?thesis
    by (simp add: idle_chat_def repeat_of_def idle_kbd_def new_keys_def h_packet_def upt_rec held_keycode_def
        Let_def handle_presses_def split: Option.bind_splits)
qed

subsection \<open>Key repeat over time\<close>

text \<open>
  A run of the keyboard loop over what its polls deliver, each with the two clock readings of
  its iteration.  While the same keys are held, a poll delivers the same packet again or no
  complete packet; \<open>readings\<close> are the clock readings the iterations take.
\<close>

type_synonym poll = "transfer \<times> u64 \<times> u64"

definition loop_run :: "'w write_call \<Rightarrow> poll list \<Rightarrow> 'w chat \<Rightarrow> 'w chat option" where
  "loop_run wr = iter_opt (\<lambda>(x, t1, t2). main_iteration wr x t1 t2)"

fun same_keys :: "usb_keyboard_packet \<Rightarrow> poll \<Rightarrow> bool" where
  "same_keys p ((rc, n, q), t1, t2) \<longleftrightarrow> (rc = 0 \<and> n = 8 \<longrightarrow> q = p)"

fun poll_readings :: "poll \<Rightarrow> u64 list" where
  "poll_readings ((rc, n, q), t1, t2) = (if rc = 0 \<and> n = 8 then [t1, t2] else [t2])"

definition readings :: "poll list \<Rightarrow> u64 list" where
  "readings xs = concat (map poll_readings xs)"

text \<open>The clock readings at which a held key repeats, given its deadline, and the deadline they leave.\<close>

fun repeat_times :: "u64 \<Rightarrow> u64 list \<Rightarrow> u64 list" where
  "repeat_times n [] = []"
| "repeat_times n (t # ts) = (if n \<le> t then t # repeat_times (t + 80) ts else repeat_times n ts)"

fun next_deadline :: "u64 \<Rightarrow> u64 list \<Rightarrow> u64" where
  "next_deadline n [] = n"
| "next_deadline n (t # ts) = next_deadline (if n \<le> t then t + 80 else n) ts"

lemma repeat_times_append:
  "repeat_times n (ts @ us) = repeat_times n ts @ repeat_times (next_deadline n ts) us"
  by (induction ts arbitrary: n) simp_all

definition repeats :: "u8 \<Rightarrow> u8 \<Rightarrow> u64 list \<Rightarrow> key_press list" where
  "repeats k m rs = (if is_repeatable_key k then replicate (length rs) (k, m) else [])"

lemma repeats_append: "repeats k m (rs @ qs) = repeats k m rs @ repeats k m qs"
  by (simp add: repeats_def replicate_add)

lemma new_keys_same: "new_keys p p = []"
  by (auto simp: new_keys_def filter_empty_conv list_all_iff)

lemma idle_presses_repeats:
  "k \<noteq> 0 \<Longrightarrow> idle_presses t (k, m, n) =
     (repeats k m (repeat_times n [t]), k, m, if is_repeatable_key k then next_deadline n [t] else n)"
  by (simp add: repeats_def)

lemma packet_presses_repeats:
  "held_keycode p \<noteq> 0 \<Longrightarrow> packet_presses p t (held_keycode p, modifiers p, n) =
     (repeats (held_keycode p) (modifiers p) (repeat_times n [t]), held_keycode p, modifiers p,
      if is_repeatable_key (held_keycode p) then next_deadline n [t] else n)"
  by (simp add: repeats_def Let_def)

lemma save_packet_same: "previous_packet (kb c) = p \<Longrightarrow> c\<lparr>kb := keyboard_save_packet p (kb c)\<rparr> = c"
  by (auto simp: keyboard_save_packet_def)

text \<open>One iteration while the keys of \<open>p\<close> stay held.\<close>

lemma held_iteration:
  assumes "client_ok (cl s)" "previous_packet (kb (cl s)) = p" "same_keys p (x, t1, t2)"
    and "repeat_of s = (held_keycode p, modifiers p, n)" "held_keycode p \<noteq> 0"
  shows "\<exists>c n'. main_iteration wr x t1 t2 s = Some (chat_at c (held_keycode p, modifiers p, n')) \<and>
    handle_presses wr (repeats (held_keycode p) (modifiers p) (repeat_times n (poll_readings (x, t1, t2)))) (cl s) = Some c \<and>
    key_step (cl s) c \<and> (is_repeatable_key (held_keycode p) \<longrightarrow> n' = next_deadline n (poll_readings (x, t1, t2)))"
proof -
  let ?k = "held_keycode p" and ?m = "modifiers p"
  obtain rc l q where x: "x = (rc, l, q)" by (cases x)
  show ?thesis
  proof (cases "rc = 0 \<and> l = 8")
    case True
    then have q: "q = p" using assms(3) x by simp
    let ?n1 = "if is_repeatable_key ?k then next_deadline n [t1] else n"
    obtain c1 where c1: "handle_presses wr (repeats ?k ?m (repeat_times n [t1])) (cl s) = Some c1" "key_step (cl s) c1"
      using handle_presses_step [OF assms(1)] by blast
    obtain c2 where c2: "handle_presses wr (repeats ?k ?m (repeat_times ?n1 [t2])) c1 = Some c2" "key_step c1 c2"
      using handle_presses_step c1(2) unfolding key_step_def [of "cl s"] by blast
    have "main_iteration wr x t1 t2 s = Some (chat_at c2 (?k, ?m, if is_repeatable_key ?k then next_deadline ?n1 [t2] else ?n1))"
      using main_iteration_packet [OF assms(1), of wr p t1 t2] True c1 c2 assms(2)
      by (simp add: x q assms(4) new_keys_same packet_presses_repeats [OF assms(5)] idle_presses_repeats [OF assms(5)]
          save_packet_same key_step_def del: repeat_times.simps next_deadline.simps packet_presses.simps idle_presses.simps)
    moreover have "handle_presses wr (repeats ?k ?m (repeat_times n [t1, t2])) (cl s) = Some c2"
    proof (cases "is_repeatable_key ?k")
      case True
      with c1(1) c2(1) show ?thesis
        using repeat_times_append [of n "[t1]" "[t2]"] by (simp add: repeats_append handle_presses_append del: repeat_times.simps next_deadline.simps)
    next
      case False
      with c1(1) c2(1) show ?thesis by (simp add: repeats_def handle_presses_def)
    qed
    ultimately show ?thesis
      using True c1(2) c2(2) key_step_trans x by (auto simp del: repeat_times.simps)
  next
    case False
    obtain c where c: "handle_presses wr (repeats ?k ?m (repeat_times n [t2])) (cl s) = Some c" "key_step (cl s) c"
      using handle_presses_step [OF assms(1)] by blast
    have "poll_readings (x, t1, t2) = [t2]" using False by (auto simp: x)
    moreover have "main_iteration wr x t1 t2 s =
        Some (chat_at c (?k, ?m, if is_repeatable_key ?k then next_deadline n [t2] else n))"
      using main_iteration_quiet [OF False, of wr q t1 t2 s] c(1)
      by (simp add: x assms(4) idle_presses_repeats [OF assms(5)] del: repeat_times.simps next_deadline.simps idle_presses.simps)
    ultimately show ?thesis using c by (auto simp del: repeat_times.simps)
  qed
qed

lemma held_run:
  assumes "client_ok (cl s)" "previous_packet (kb (cl s)) = p" "list_all (same_keys p) xs"
    and "repeat_of s = (held_keycode p, modifiers p, n)" "held_keycode p \<noteq> 0"
  shows "\<exists>s'. loop_run wr xs s = Some s' \<and>
    handle_presses wr (repeats (held_keycode p) (modifiers p) (repeat_times n (readings xs))) (cl s) = Some (cl s')"
  using assms(1-4)
proof (induction xs arbitrary: s n)
  case Nil
  then show ?case by (simp add: loop_run_def readings_def repeats_def handle_presses_def)
next
  case (Cons x xs)
  let ?k = "held_keycode p" and ?m = "modifiers p"
  obtain y t1 t2 where x: "x = (y, t1, t2)" by (cases x)
  from held_iteration [OF Cons.prems(1,2) _ Cons.prems(4) assms(5), of y t1 t2 wr] Cons.prems(3) obtain c n' where
    c: "main_iteration wr y t1 t2 s = Some (chat_at c (?k, ?m, n'))"
      "handle_presses wr (repeats ?k ?m (repeat_times n (poll_readings x))) (cl s) = Some c" "key_step (cl s) c"
      "is_repeatable_key ?k \<longrightarrow> n' = next_deadline n (poll_readings x)"
    by (auto simp: x simp del: poll_readings.simps)
  from Cons.IH [of "chat_at c (?k, ?m, n')" n'] c(3) Cons.prems obtain s' where
    s': "loop_run wr xs (chat_at c (?k, ?m, n')) = Some s'"
      "handle_presses wr (repeats ?k ?m (repeat_times n' (readings xs))) c = Some (cl s')"
    by (auto simp: key_step_def)
  have "repeats ?k ?m (repeat_times n (readings (x # xs))) =
      repeats ?k ?m (repeat_times n (poll_readings x)) @ repeats ?k ?m (repeat_times n' (readings xs))"
  proof (cases "is_repeatable_key ?k")
    case True
    with c(4) show ?thesis by (simp add: readings_def repeat_times_append repeats_append)
  next
    case False
    then show ?thesis by (simp add: repeats_def)
  qed
  with c(1,2) s' show ?case by (auto simp: loop_run_def x handle_presses_append simp del: poll_readings.simps)
qed

lemma repeat_times_spaced:
  assumes "sorted ts" "\<forall>t \<in> set ts. t \<le> 2 ^ 64 - 81"
  shows "sorted_wrt (\<lambda>a b. a + 80 \<le> b) (repeat_times n ts) \<and> (\<forall>t \<in> set (repeat_times n ts). n \<le> t \<and> t \<in> set ts)"
  using assms
proof (induction ts arbitrary: n)
  case (Cons t ts)
  have "unat t + 80 < 2 ^ 64" using Cons.prems(2) by (simp add: word_le_nat_alt)
  then have "t \<le> t + 80" by (simp add: no_olen_add_nat)
  have ts: "sorted ts" "\<forall>t \<in> set ts. t \<le> 2 ^ 64 - 81"
    using Cons.prems by simp_all
  have "n \<le> u" if "n \<le> t" "t + 80 \<le> u" for u
    using that \<open>t \<le> t + 80\<close> by (meson order_trans)
  with Cons.IH [OF ts, of "t + 80"] Cons.IH [OF ts, of n] show ?case by simp
qed simp

text \<open>
  Every reading from the deadline on is at or less than 80 ms after a repeat.
\<close>

lemma repeat_times_dense:
  assumes "sorted ts" "\<forall>t \<in> set ts. t \<le> 2 ^ 64 - 81" "t \<in> set ts" "n \<le> t"
  shows "\<exists>r \<in> set (repeat_times n ts). r \<le> t \<and> t < r + 80"
  using assms
proof (induction ts arbitrary: n)
  case (Cons t0 ts)
  have "unat t0 + 80 < 2 ^ 64" using Cons.prems(2) by (simp add: word_le_nat_alt)
  then have up: "t0 < t0 + 80" by (simp add: word_less_nat_alt unat_word_ariths)
  show ?case
  proof (cases "n \<le> t0")
    case True
    show ?thesis
    proof (cases "t < t0 + 80")
      case True
      with \<open>n \<le> t0\<close> Cons.prems(1,3) show ?thesis by auto
    next
      case False
      then have "t \<in> set ts" "t0 + 80 \<le> t" using Cons.prems(3) up by auto
      with Cons.IH [of "t0 + 80"] Cons.prems(1,2) True show ?thesis by auto
    qed
  next
    case False
    with Cons.IH [of n] Cons.prems show ?thesis by auto
  qed
qed simp

text \<open>
  C22: Key repeat, from the moment a key goes down.  A packet arrives in which \<open>k\<close> is the first key
  and was not the repeating key before, at the clock reading \<open>t1\<close>; from then on the keyboard reports
  the same keys or nothing.  The iteration presses the new keys; then \<open>k\<close> is pressed again exactly
  once at each of the readings \<open>rs\<close>.  These come at least half a second after \<open>t1\<close> and at least 80 ms
  apart, and for a key that may repeat no reading after the half second is 80 ms or more past the
  last of them: the repeat neither stops nor falls behind.  Enter, Escape and Caps Lock never repeat.
\<close>

theorem key_repeat_rate:
  assumes "client_ok (cl s)" "k \<noteq> 0" "held_keycode p = k" "modifiers p = m"
    and "(k, m) \<noteq> (repeat_keycode s, repeat_modifiers s)" "list_all (same_keys p) xs"
    and "sorted (t1 # t2 # readings xs)" "\<forall>t \<in> set (t1 # t2 # readings xs). t \<le> 2 ^ 64 - 501"
  shows "\<exists>rs c s'. loop_run wr (((0, 8, p), t1, t2) # xs) s = Some s' \<and>
    handle_presses wr (map (\<lambda>key. (key, m)) (new_keys (previous_packet (kb (cl s))) p)) (cl s) = Some c \<and>
    handle_presses wr (replicate (length rs) (k, m)) (c\<lparr>kb := keyboard_save_packet p (kb c)\<rparr>) = Some (cl s') \<and>
    set rs \<subseteq> set (t2 # readings xs) \<and> (\<forall>r \<in> set rs. t1 + 500 \<le> r) \<and> sorted_wrt (\<lambda>a b. a + 80 \<le> b) rs \<and>
    (if k \<in> {HID_ENTER, HID_ESCAPE, HID_CAPSLOCK} then rs = []
     else \<forall>t \<in> set (t2 # readings xs). t1 + 500 \<le> t \<longrightarrow> (\<exists>r \<in> set rs. r \<le> t \<and> t < r + 80))"
proof -
  let ?ts = "t2 # readings xs" and ?n = "t1 + 500"
  let ?new = "map (\<lambda>key. (key, m)) (new_keys (previous_packet (kb (cl s))) p)"
  let ?rs = "if is_repeatable_key k then repeat_times ?n ?ts else []"
  obtain c where c: "handle_presses wr ?new (cl s) = Some c" "key_step (cl s) c"
    using handle_presses_step [OF assms(1)] by blast
  let ?c = "c\<lparr>kb := keyboard_save_packet p (kb c)\<rparr>"
  have ok: "client_ok ?c" "previous_packet (kb ?c) = p" using c(2) by (simp add: key_step_def) (simp add: keyboard_save_packet_def)
  have down: "packet_presses p t1 (repeat_of s) = ([], k, m, ?n)"
    using assms(2-5) by (auto simp: repeat_of_def)
  have first: "main_iteration wr (0, 8, p) t1 t2 s = main_iteration wr (-1, 0, p) t1 t2 (chat_at ?c (k, m, ?n))"
    using main_iteration_packet [OF assms(1), of wr p t1 t2] main_iteration_quiet [of "-1" 0 wr p t1 t2] down c(1) assms(4)
    by (simp add: handle_presses_append handle_presses_def case_prod_beta map_conv_bind_option o_def del: idle_presses.simps)
  obtain s' where s': "loop_run wr (((-1, 0, p), t1, t2) # xs) (chat_at ?c (k, m, ?n)) = Some s'"
    "handle_presses wr (repeats k m (repeat_times ?n ?ts)) ?c = Some (cl s')"
    using held_run [of "chat_at ?c (k, m, ?n)" p "((-1, 0, p), t1, t2) # xs" ?n wr] ok assms(2-4,6)
    by (auto simp: readings_def simp del: repeat_times.simps)
  have run: "loop_run wr (((0, 8, p), t1, t2) # xs) s = Some s'"
    using s'(1) first by (simp add: loop_run_def)
  have reps: "replicate (length ?rs) (k, m) = repeats k m (repeat_times ?n ?ts)" by (simp add: repeats_def)
  have clock: "sorted ?ts" "\<forall>t \<in> set ?ts. t \<le> 2 ^ 64 - 81"
    using assms(7,8) by (auto intro: order_trans)
  have rep: "is_repeatable_key k \<longleftrightarrow> k \<notin> {HID_ENTER, HID_ESCAPE, HID_CAPSLOCK}"
    by (simp add: is_repeatable_key_def)
  note spaced = repeat_times_spaced [OF clock, of ?n] and dense = repeat_times_dense [OF clock, of _ ?n]
  show ?thesis
    by (intro exI [of _ ?rs] exI [of _ c] exI [of _ s'] conjI)
       (use run c(1) s'(2) reps spaced dense rep in \<open>auto simp del: repeat_times.simps replicate.simps\<close>)
qed

theorem key_repeat_rate_witness:
  "\<exists>(rs :: u64 list) c s'. loop_run (\<lambda>bs w. (-1, w)) [((0, 8, h_packet), 1000, 1001), ((-7, 0, h_packet), 0, 1499), ((0, 8, h_packet), 1500, 1530)]
      (idle_chat ()) = Some s' \<and>
    handle_presses (\<lambda>bs w. (-1, w)) [(0x0b, 0)] (cl (idle_chat ())) = Some c \<and>
    handle_presses (\<lambda>bs w. (-1, w)) (replicate (length rs) (0x0b, 0)) (c\<lparr>kb := keyboard_save_packet h_packet (kb c)\<rparr>) = Some (cl s') \<and>
    1500 \<in> set rs \<and> 1499 \<notin> set rs \<and> 1530 \<notin> set rs"
proof -
  let ?xs = "[((-7, 0, h_packet), 0, 1499), ((0, 8, h_packet), 1500, 1530)] :: poll list"
  have r: "readings ?xs = [1499, 1500, 1530]" by (simp add: readings_def)
  have h: "held_keycode h_packet = 0x0b" "modifiers h_packet = 0" by (simp_all add: h_packet_def held_keycode_def upt_rec)
  have new: "new_keys (previous_packet (kb (cl (idle_chat ())))) h_packet = [0x0b]"
    by (simp add: idle_chat_def idle_kbd_def new_keys_def h_packet_def upt_rec)
  have idle: "repeat_keycode (idle_chat ()) = 0" by (simp add: idle_chat_def)
  have "client_ok (cl (idle_chat ()))" by (simp add: idle_chat_def xga_client_ok)
  from key_repeat_rate [OF this _ h, of ?xs 1000 1001 "\<lambda>bs w. (-1, w)"] obtain rs c s' where
    run: "loop_run (\<lambda>bs w. (-1, w)) (((0, 8, h_packet), 1000, 1001) # ?xs) (idle_chat ()) = Some s'"
      "handle_presses (\<lambda>bs w. (-1, w)) [(0x0b, 0)] (cl (idle_chat ())) = Some c"
      "handle_presses (\<lambda>bs w. (-1, w)) (replicate (length rs) (0x0b, 0)) (c\<lparr>kb := keyboard_save_packet h_packet (kb c)\<rparr>) = Some (cl s')"
    and rs: "set rs \<subseteq> {1001, 1499, 1500, 1530}" "\<forall>r \<in> set rs. (1500 :: u64) \<le> r" "sorted_wrt (\<lambda>a b. a + 80 \<le> b) rs"
      "\<exists>r \<in> set rs. r \<le> (1500 :: u64) \<and> 1500 < r + 80"
    by (auto simp: r new h idle hid_codes)
  have "1500 \<in> set rs" using rs(2,4) by (metis order_antisym)
  moreover have "1499 \<notin> set rs" using rs(2) by force
  moreover have "1530 \<notin> set rs"
  proof
    assume "1530 \<in> set rs"
    with \<open>1500 \<in> set rs\<close> rs(3) obtain i j where "i < length rs" "j < length rs" "rs ! i = 1500" "rs ! j = 1530"
      by (metis in_set_conv_nth)
    moreover have "i < j \<Longrightarrow> rs ! i + 80 \<le> rs ! j" "j < i \<Longrightarrow> rs ! j + 80 \<le> rs ! i"
      using sorted_wrt_nth_less [OF rs(3), of i j] sorted_wrt_nth_less [OF rs(3), of j i] calculation(1,2) by blast+
    ultimately show False by (cases i j rule: linorder_cases) simp_all
  qed
  ultimately show ?thesis using run by blast
qed

subsection \<open>Start-up\<close>

text \<open>The rows no thread may change: the divider and the prompt.\<close>

definition fixed_rows :: "fb \<Rightarrow> bool" where
  "fixed_rows f \<longleftrightarrow> (\<forall>col. 0 \<le> col \<and> col < 64 \<longrightarrow> shows_char f 21 col 0x2d \<and>
     shows_char f 22 col (if col < int (length prompt) then prompt ! nat col else 0x20))"

lemma fixed_rows_frame:
  assumes "fixed_rows f"
    and "\<And>row col x. on_screen row col \<Longrightarrow> row = 21 \<or> row = 22 \<Longrightarrow> shows_char f' row col x = shows_char f row col x"
  shows "fixed_rows f'"
  using assms by (simp add: fixed_rows_def on_screen_def)










subsection \<open>Messages from the network\<close>

lemma weight_count: "weight cs = int (length cs) + 63 * int (count_list cs 0x0a)"
  by (induction cs) auto

lemma network_chunk:
  assumes "client_ok c" "length buf = BUFFER_SIZE" "ascii_text chunk" "length chunk \<le> 127"
    and "count_list chunk 0x0a \<le> 19"
  shows "\<exists>buf' d. network_iteration chunk (buf, c) = Some (Some (buf', c\<lparr>dp := d\<rparr>)) \<and>
    msg_step (dp c) d \<and> length buf' = BUFFER_SIZE \<and> display_message buf' 255 255 255 (dp c) = Some (Some d) \<and>
    (\<exists>rest. buf' = chunk @ 0 # rest)"
proof -
  have "weight chunk \<le> 127 + 63 * 19" using assms(4,5) by (simp add: weight_count)
  then have "place 0 0 chunk \<noteq> None" by (intro place_fits) (auto simp: pos_ok_def)
  moreover have ok: "pos_ok (current_msg_row (dp c)) (current_msg_col (dp c))" "screen_fits (d_fb (dp c))"
    using assms(1) by (auto simp: client_ok_def)
  moreover have buf: "(chunk @ drop (length chunk) buf)[length chunk := 0] = chunk @ 0 # drop (Suc (length chunk)) buf"
    using assms(2,4) by (simp add: list_update_append Cons_nth_drop_Suc [symmetric] BUFFER_SIZE_def)
  moreover obtain d1 where d1: "display_loop (chunk @ 0 # drop (Suc (length chunk)) buf) 0 (dp c) = Some (Some d1)"
    "screen_fits (d_fb d1)" "pos_ok (current_msg_row d1) (current_msg_col d1)"
    using display_loop_returns [OF assms(3) ok] calculation(1) by blast
  moreover obtain d where "end_message d1 = Some d" using end_message_ok [OF d1(2,3)] by blast
  ultimately have msg: "display_message (chunk @ 0 # drop (Suc (length chunk)) buf) 255 255 255 (dp c) = Some (Some d)"
    by (simp add: display_message_def)
  have "msg_step (dp c) d" using display_message_keeps [OF msg] ok by (simp add: disp_ok_def)
  with msg buf assms(2,4) show ?thesis
    by (intro exI [of _ "chunk @ 0 # drop (Suc (length chunk)) buf"] exI [of _ d])
      (simp add: network_iteration_def BUFFER_SIZE_def)
qed

text \<open>
  The stream a socket delivers: \<open>chunks_of w\<close> lists what the coming \<open>read\<close> calls return, each
  between 1 and 127 bytes, until the end of the stream.
\<close>

definition read_contract :: "'w read_call \<Rightarrow> ('w \<Rightarrow> u8 list list) \<Rightarrow> bool" where
  "read_contract rd chunks_of \<longleftrightarrow>
     (\<forall>w. case chunks_of w of
            [] \<Rightarrow> fst (fst (rd 127 w)) \<le> 0
          | chunk # rest \<Rightarrow> fst (fst (rd 127 w)) = int (length chunk) \<and>
              take (length chunk) (snd (fst (rd 127 w))) = chunk \<and>
              chunks_of (snd (rd 127 w)) = rest \<and> 0 < length chunk \<and> length chunk \<le> 127)"

definition readable_chunk :: "u8 list \<Rightarrow> bool" where
  "readable_chunk chunk \<longleftrightarrow> ascii_text chunk \<and> count_list chunk 0x0a \<le> 19"

lemma network_thread_ends:
  assumes "read_contract rd chunks_of" "list_all readable_chunk (chunks_of (net c))"
    and "client_ok c" "length buf = BUFFER_SIZE"
  shows "\<exists>d w. network_thread_f rd (buf, c) = Some (Some (c\<lparr>dp := d, net := w\<rparr>)) \<and> msg_step (dp c) d"
  using assms(2-4)
proof (induction "chunks_of (net c)" arbitrary: buf c)
  case Nil
  from assms(1) have "(case chunks_of (net c) of [] \<Rightarrow> fst (fst (rd 127 (net c))) \<le> 0 | _ \<Rightarrow> True)"
    unfolding read_contract_def by (metis (mono_tags, lifting) list.case_eq_if)
  with Nil have "fst (fst (rd 127 (net c))) \<le> 0" by (simp flip: Nil.hyps)
  then show ?case
    using Nil.prems(2)
    by (subst network_thread_f.simps)
       (auto simp: Let_def BUFFER_SIZE_def msg_step_def client_ok_def intro!: exI [of _ "dp c"] exI [of _ "snd (rd 127 (net c))"])
next
  case (Cons chunk rest)
  let ?x = "rd 127 (net c)" and ?c = "c\<lparr>net := snd (rd 127 (net c))\<rparr>"
  have x: "fst (fst ?x) = int (length chunk)" "take (length chunk) (snd (fst ?x)) = chunk"
    "chunks_of (snd ?x) = rest" "0 < length chunk" "length chunk \<le> 127"
    using assms(1)[unfolded read_contract_def, rule_format, of "net c"] Cons.hyps(2) [symmetric] by simp_all
  have rc: "readable_chunk chunk" "list_all readable_chunk rest"
    using Cons.prems(1) Cons.hyps(2) [symmetric] by simp_all
  have "client_ok ?c" using Cons.prems(2) by (simp add: client_ok_def)
  from network_chunk [OF this Cons.prems(3) _ x(5)] rc(1) obtain buf' d where
    d: "network_iteration chunk (buf, ?c) = Some (Some (buf', ?c\<lparr>dp := d\<rparr>))" "msg_step (dp c) d"
      "length buf' = BUFFER_SIZE"
    by (auto simp: readable_chunk_def)
  have "client_ok (?c\<lparr>dp := d\<rparr>)" using Cons.prems(2) d(2) by (simp add: client_ok_def msg_step_def)
  with Cons.hyps(1) [of "?c\<lparr>dp := d\<rparr>" buf'] x(3) rc(2) d(3) obtain d' w where
    "network_thread_f rd (buf', ?c\<lparr>dp := d\<rparr>) = Some (Some (?c\<lparr>dp := d, dp := d', net := w\<rparr>))" "msg_step d d'"
    by auto
  with x d show ?case
    by (subst network_thread_f.simps)
       (auto simp: Let_def BUFFER_SIZE_def intro: msg_step_trans intro!: exI [of _ d'] exI [of _ w])
qed

text \<open>
  C25: The network thread returns at the end of the stream, for every stream whose pieces are
  ASCII with at most 19 newlines each: it never leaves its 128-byte buffer or the screen, and
  the editor, the divider, the prompt and the input row are as they were.
\<close>

theorem network_thread_returns:
  assumes "read_contract rd chunks_of" "list_all readable_chunk (chunks_of (net c))"
    and "client_ok c" "length buf = BUFFER_SIZE"
  shows "\<exists>c'. network_thread_f rd (buf, c) = Some (Some c') \<and> client_ok c' \<and> kb c' = kb c \<and>
    (\<forall>row col x. on_screen row col \<and> 20 < row \<longrightarrow>
       shows_char (d_fb (dp c')) row col x = shows_char (d_fb (dp c)) row col x)"
  using network_thread_ends [OF assms] assms(3) by (auto simp: msg_step_def client_ok_def)

definition list_read :: "u8 list list read_call" where
  "list_read n w =
     (case w of
        [] \<Rightarrow> ((0, []), [])
      | chunk # rest \<Rightarrow> if chunk \<noteq> [] \<and> length chunk \<le> n then ((int (length chunk), chunk), rest) else ((0, []), w))"

lemma list_read_contract: "read_contract list_read (takeWhile (\<lambda>ch. ch \<noteq> [] \<and> length ch \<le> 127))"
  by (auto simp: read_contract_def list_read_def split: list.splits)

theorem network_thread_returns_witness:
  "\<exists>c'. network_thread_f list_read (replicate 128 0, \<lparr>kb = idle_kbd, dp = xga_disp, net = [[0x68, 0x69, 0x0a], [0x21]]\<rparr>) =
     Some (Some c') \<and> client_ok c'"
proof -
  let ?c = "\<lparr>kb = idle_kbd, dp = xga_disp, net = [[0x68, 0x69, 0x0a], [0x21]]\<rparr> :: u8 list list client"
  have "list_all readable_chunk (takeWhile (\<lambda>ch. ch \<noteq> [] \<and> length ch \<le> 127) (net ?c))"
    by (simp add: readable_chunk_def)
  from network_thread_returns [OF list_read_contract this xga_client_ok, of "replicate 128 0"] show ?thesis
    by (auto simp: BUFFER_SIZE_def)
qed

end
