(* ===== verification/Threads.thy ===== *)
theory Threads
  imports ChatClient
begin

text \<open>
  The two threads of the chat client, \<open>main\<close> and \<open>network_thread_f\<close> of \<open>src/lab2/lab2.c\<close>, running
  together.  They share the framebuffer without a lock, so they are interleaved at the single byte
  stores into it: a thread is the list of its outstanding stores and characters to draw, followed
  by the operations it has still to run; one turn of a thread performs its next store, starts its
  next character or runs its next operation.  Everything an operation itself reads and writes (the
  edit buffer and the repeat state, or the message position and the receive buffer) belongs to one
  thread only.  A turn is \<open>None\<close> where the thread would leave an object; every schedule of turns is a
  run, and a display loop that never ends is a run like any other.

  The lemmas show that a thread that runs alone does what the operations of the theories before
  say, that no schedule ever leads to undefined behaviour, that the two threads never write the
  same byte, and what the screen shows meanwhile.
\<close>

subsection \<open>The stores of a character\<close>

definition pixel_stores :: "nat \<Rightarrow> bool \<Rightarrow> (nat \<times> u8) list" where
  "pixel_stores p on = (let v = (if on then 255 else 0) in [(p, v), (p + 1, v), (p + 2, v), (p + 3, 0)])"

fun cols_stores :: "nat \<Rightarrow> u8 \<Rightarrow> u8 \<Rightarrow> nat \<Rightarrow> (nat \<times> u8) list" where
  "cols_stores 0 pixels msk pixel = []"
| "cols_stores (Suc n) pixels msk pixel =
     pixel_stores pixel (pixels AND msk \<noteq> 0) @ pixel_stores (pixel + 4) (pixels AND msk \<noteq> 0) @
     cols_stores n pixels (drop_bit 1 msk) (pixel + 8)"

fun rows_stores :: "nat \<Rightarrow> nat \<Rightarrow> nat \<Rightarrow> nat \<Rightarrow> nat \<Rightarrow> (nat \<times> u8) list option" where
  "rows_stores 0 y pixelp left ll = Some []"
| "rows_stores (Suc n) y pixelp left ll =
     do { pixels \<leftarrow> font_at pixelp;
          rest \<leftarrow> rows_stores n (Suc y) (if odd y then Suc pixelp else pixelp) (left + ll) ll;
          Some (cols_stores (nat FONT_WIDTH) pixels 0x80 left @ rest) }"

definition putchar_stores :: "u8 \<Rightarrow> int \<Rightarrow> int \<Rightarrow> fb \<Rightarrow> (nat \<times> u8) list option" where
  "putchar_stores c row col s =
     rows_stores (nat (FONT_HEIGHT * 2)) 0 (nat FONT_HEIGHT * unat c) (cell_base s row col) (unat (line_length s))"

definition store_all :: "(nat \<times> u8) list \<Rightarrow> fb \<Rightarrow> fb option" where
  "store_all = iter_opt (\<lambda>(a, v). poke a v)"

subsection \<open>Threads\<close>

text \<open>Outstanding drawing: a byte to store, a call of \<open>fbputchar\<close>.\<close>

datatype draw_act = Store nat u8 | Put u8 int int

definition fb_of :: "'w chat \<Rightarrow> fb" where
  "fb_of s = d_fb (dp (cl s))"

definition set_fb :: "fb \<Rightarrow> 'w chat \<Rightarrow> 'w chat" where
  "set_fb f s = s\<lparr>cl := (cl s)\<lparr>dp := (dp (cl s))\<lparr>d_fb := f\<rparr>\<rparr>\<rparr>"

type_synonym 'a pending = "draw_act list \<times> 'a list"

text \<open>One turn of a thread whose operations are given by \<open>run\<close>.\<close>

fun thread_step ::
  "('a \<Rightarrow> 'w chat \<Rightarrow> ('w chat \<times> 'a pending) option) \<Rightarrow> 'a pending \<Rightarrow> 'w chat \<Rightarrow> ('w chat \<times> 'a pending) option" where
  "thread_step run (Store a v # ds, os) s = map_option (\<lambda>f. (set_fb f s, ds, os)) (poke a v (fb_of s))"
| "thread_step run (Put c row col # ds, os) s =
     map_option (\<lambda>ws. (s, map (\<lambda>(a, v). Store a v) ws @ ds, os)) (putchar_stores c row col (fb_of s))"
| "thread_step run ([], x # os) s = map_option (\<lambda>(s, ds, xs). (s, ds, xs @ os)) (run x s)"
| "thread_step run ([], []) s = Some (s, [], [])"

subsection \<open>The operations of the main thread\<close>

text \<open>
  The steps of an iteration of the keyboard loop: a slot of the packet, the repeat of the held key,
  saving the packet, the repeat at the end; the press of a key, an inserted character, the redrawing
  of the input row, the new deadline after a repeat.
\<close>

datatype main_op =
  Slot usb_keyboard_packet nat
| PacketRepeat usb_keyboard_packet u64
| SavePacket usb_keyboard_packet
| IdleRepeat u64
| Press u8 u8
| AddChar u8
| Redraw
| Deadline u64

definition iteration_ops :: "poll \<Rightarrow> main_op list" where
  "iteration_ops x =
     (case x of ((transfer_rc, transferred, p), t1, t2) \<Rightarrow>
        (if transfer_rc = 0 \<and> transferred = sizeof_packet
         then map (Slot p) [0..<6] @ [PacketRepeat p t1, SavePacket p] else []) @ [IdleRepeat t2])"

text \<open>
  The changes to the edit buffer: \<open>Some None\<close> where the code does nothing, otherwise the buffer that
  is then redrawn.
\<close>

definition add_edit :: "u8 \<Rightarrow> kbd \<Rightarrow> kbd option option" where
  "add_edit c k =
     (if input_length k < INPUT_BUFFER_SIZE - 1 then
        do { b \<leftarrow> shift_right (cursor_position k) (input_length k) (input_buffer k);
             b \<leftarrow> buf_set b (cursor_position k) c;
             b \<leftarrow> buf_set b (input_length k + 1) 0;
             Some (Some (k\<lparr>input_buffer := b, input_length := input_length k + 1,
                           cursor_position := cursor_position k + 1\<rparr>)) }
      else Some None)"

definition delete_edit :: "kbd \<Rightarrow> kbd option option" where
  "delete_edit k =
     (if 0 < cursor_position k then
        do { b \<leftarrow> shift_left (cursor_position k - 1) (input_length k - 1) (input_buffer k);
             b \<leftarrow> buf_set b (input_length k - 1) 0;
             Some (Some (k\<lparr>input_buffer := b, input_length := input_length k - 1,
                           cursor_position := cursor_position k - 1\<rparr>)) }
      else Some None)"

definition clear_edit :: "kbd \<Rightarrow> kbd option option" where
  "clear_edit k =
     do { b \<leftarrow> buf_set (input_buffer k) 0 0;
          Some (Some (k\<lparr>input_buffer := b, input_length := 0, cursor_position := 0\<rparr>)) }"

definition left_edit :: "kbd \<Rightarrow> kbd option option" where
  "left_edit k = Some (if 0 < cursor_position k then Some (k\<lparr>cursor_position := cursor_position k - 1\<rparr>) else None)"

definition right_edit :: "kbd \<Rightarrow> kbd option option" where
  "right_edit k =
     Some (if cursor_position k < input_length k then Some (k\<lparr>cursor_position := cursor_position k + 1\<rparr>) else None)"

definition set_kb :: "kbd \<Rightarrow> 'w chat \<Rightarrow> 'w chat" where
  "set_kb k s = s\<lparr>cl := (cl s)\<lparr>kb := k\<rparr>\<rparr>"

definition edited :: "kbd option option \<Rightarrow> 'w chat \<Rightarrow> ('w chat \<times> main_op pending) option" where
  "edited r s = map_option (\<lambda>e. case e of None \<Rightarrow> (s, [], []) | Some k \<Rightarrow> (set_kb k s, [], [Redraw])) r"

definition press_op :: "'w write_call \<Rightarrow> u8 \<Rightarrow> u8 \<Rightarrow> 'w chat \<Rightarrow> ('w chat \<times> main_op pending) option" where
  "press_op wr key mods s =
     (let k = kb (cl s) in
      if key = HID_CAPSLOCK then Some (set_kb (handle_caps key k) s, [], [])
      else if key = HID_BACKSPACE then edited (delete_edit k) s
      else if key = HID_TAB then Some (s, [], replicate 4 (AddChar 0x20))
      else if key = HID_ENTER then
        (if 0 < input_length k then
           do { (rc, c) \<leftarrow> send_input_buffer_to_server wr (cl s);
                if rc = 0 then edited (clear_edit k) (s\<lparr>cl := c\<rparr>) else Some (s\<lparr>cl := c\<rparr>, [], []) }
         else Some (s, [], []))
      else if key = HID_ESCAPE then Some (s, [], [])
      else if key = HID_LEFT then edited (left_edit k) s
      else if key = HID_RIGHT then edited (right_edit k) s
      else
        let ascii = keycode_to_ascii key mods k in
        if ascii \<noteq> 0 \<and> ascii \<noteq> 0x0a \<and> ascii \<noteq> 0x09 then Some (s, [], [AddChar ascii]) else Some (s, [], []))"

text \<open>What \<open>display_user_input\<close> draws: blanks, the visible text, the cursor.\<close>

function text_puts :: "u8 list \<Rightarrow> int \<Rightarrow> int \<Rightarrow> int \<Rightarrow> int \<Rightarrow> int \<Rightarrow> cell_write list option" where
  "text_puts buffer len width i row col =
     (if i < len \<and> col < width then
        if 0 \<le> i \<and> nat i < length buffer
        then map_option (Cons (buffer ! nat i, row, col)) (text_puts buffer len width (i + 1) row (col + 1))
        else None
      else Some [])"
  by pat_completeness auto
termination
  by (relation "measure (\<lambda>(buffer, len, width, i, row, col). nat (width - col))") auto

declare text_puts.simps [simp del]

definition input_puts :: "u8 list \<Rightarrow> int \<Rightarrow> int \<Rightarrow> cell_write list option" where
  "input_puts buffer len cursor_pos =
     (let row = INPUT_AREA_TOP + 1;
          visible_width = MSG_AREA_COLS - 1;
          start = (if visible_width < cursor_pos then cursor_pos - visible_width else 0);
          cursor_display_col = cursor_pos - start
      in map_option (\<lambda>ws. map (\<lambda>c. (0x20, row, c)) [0..MSG_AREA_COLS - 1] @ ws @
             (if 0 \<le> cursor_display_col \<and> cursor_display_col < MSG_AREA_COLS then [(0x7c, row, cursor_display_col)] else []))
           (text_puts buffer len visible_width start row 0))"

definition puts :: "cell_write list \<Rightarrow> draw_act list" where
  "puts = map (\<lambda>(c, row, col). Put c row col)"

fun run_main :: "'w write_call \<Rightarrow> main_op \<Rightarrow> 'w chat \<Rightarrow> ('w chat \<times> main_op pending) option" where
  "run_main wr (Slot p i) s =
     (let key = keycode p ! i in
      Some (s, [], if key \<noteq> 0 \<and> is_new_keypress key (kb (cl s)) then [Press key (modifiers p)] else []))"
| "run_main wr (PacketRepeat p now_ms) s =
     (let held = held_keycode p in
      if held = 0 then Some (s\<lparr>repeat_keycode := 0\<rparr>, [], [])
      else if held \<noteq> repeat_keycode s \<or> modifiers p \<noteq> repeat_modifiers s then
        Some (s\<lparr>repeat_keycode := held, repeat_modifiers := modifiers p,
                next_repeat_ms := now_ms + KEY_REPEAT_INITIAL_DELAY_MS\<rparr>, [], [])
      else if is_repeatable_key held \<and> next_repeat_ms s \<le> now_ms then
        Some (s, [], [Press held (modifiers p), Deadline (now_ms + KEY_REPEAT_INTERVAL_MS)])
      else Some (s, [], []))"
| "run_main wr (SavePacket p) s = Some (save_packet p s, [], [])"
| "run_main wr (IdleRepeat now_ms) s =
     Some (s, [], if repeat_keycode s \<noteq> 0 \<and> is_repeatable_key (repeat_keycode s) \<and> next_repeat_ms s \<le> now_ms
       then [Press (repeat_keycode s) (repeat_modifiers s), Deadline (now_ms + KEY_REPEAT_INTERVAL_MS)] else [])"
| "run_main wr (Press key mods) s = press_op wr key mods s"
| "run_main wr (AddChar c) s = edited (add_edit c (kb (cl s))) s"
| "run_main wr Redraw s =
     map_option (\<lambda>ws. (s, puts ws, []))
       (input_puts (input_buffer (kb (cl s))) (input_length (kb (cl s))) (cursor_position (kb (cl s))))"
| "run_main wr (Deadline t) s = Some (s\<lparr>next_repeat_ms := t\<rparr>, [], [])"

subsection \<open>The operations of the network thread\<close>

text \<open>
  The loop of \<open>display_message\<close> with the read pointer at an index of the receive buffer; the column
  counter after a character; the position after the area has been cleared.
\<close>

datatype net_op = Loop nat | NextCol | Home

definition set_dp :: "disp \<Rightarrow> 'w chat \<Rightarrow> 'w chat" where
  "set_dp d s = s\<lparr>cl := (cl s)\<lparr>dp := d\<rparr>\<rparr>"

definition clear_puts :: "draw_act list" where
  "clear_puts =
     puts (concat (map (\<lambda>row. map (\<lambda>col. (0x20, row, col)) [0..MSG_AREA_COLS - 1]) [MSG_AREA_TOP..MSG_AREA_BOTTOM]))"

fun run_net :: "u8 list \<Rightarrow> net_op \<Rightarrow> 'w chat \<Rightarrow> ('w chat \<times> net_op pending) option" where
  "run_net msg (Loop p) s =
     (let d = dp (cl s); down = d\<lparr>current_msg_col := 0, current_msg_row := current_msg_row d + 1\<rparr> in
      if length msg \<le> p then None
      else if msg ! p = 0 then
        (if 0 < current_msg_col d then
           Some (set_dp down s, if MSG_AREA_BOTTOM < current_msg_row down then (clear_puts, [Home]) else ([], []))
         else Some (s, [], []))
      else if msg ! p = 0x0a then
        Some (set_dp down s,
          if MSG_AREA_BOTTOM < current_msg_row down then (clear_puts, [Home, Loop 0]) else ([], [Loop (p + 1)]))
      else if MSG_AREA_COLS \<le> current_msg_col d then
        Some (set_dp down s,
          if MSG_AREA_BOTTOM < current_msg_row down then (clear_puts, [Home, Loop 0])
          else ([Put (msg ! p) (current_msg_row down) (current_msg_col down)], [NextCol, Loop (p + 1)]))
      else Some (s, [Put (msg ! p) (current_msg_row d) (current_msg_col d)], [NextCol, Loop (p + 1)]))"
| "run_net msg NextCol s =
     (let d = dp (cl s) in Some (set_dp (d\<lparr>current_msg_col := current_msg_col d + 1\<rparr>) s, [], []))"
| "run_net msg Home s =
     Some (set_dp ((dp (cl s))\<lparr>current_msg_row := MSG_AREA_TOP, current_msg_col := 0\<rparr>) s, [], [])"

subsection \<open>The program\<close>








subsection \<open>The stores are what the drawing does\<close>

lemma store_all_simps [simp]:
  "store_all [] f = Some f" "store_all ((a, v) # ws) f = Option.bind (poke a v f) (store_all ws)"
  by (simp_all add: store_all_def)

lemma store_all_append: "store_all (ws @ vs) f = Option.bind (store_all ws f) (store_all vs)"
  by (simp add: store_all_def iter_opt_append)

lemma store_all_mem: "store_all ws f = Some f' \<Longrightarrow> \<exists>m. f' = f\<lparr>mem := m\<rparr>"
proof (induction ws arbitrary: f)
  case Nil
  then show ?case by (intro exI [of _ "mem f"]) simp
next
  case (Cons w ws)
  obtain a v where w: "w = (a, v)" by (cases w)
  with Cons.prems have "store_all ws (f\<lparr>mem := (mem f)(a := v)\<rparr>) = Some f'"
    by (auto simp: poke_def split: if_splits)
  from Cons.IH [OF this] show ?case by auto
qed

lemma put_pixel_stores: "put_pixel p on f = store_all (pixel_stores p on) f"
  by (auto simp: put_pixel_def pixel_stores_def Let_def split: Option.bind_splits)

lemma putchar_cols_stores: "putchar_cols n pixels msk p f = store_all (cols_stores n pixels msk p) f"
  by (induction n arbitrary: msk p f) (auto simp: put_pixel_stores store_all_append split: Option.bind_splits)

lemma putchar_rows_stores:
  "putchar_rows n y pp left f =
     Option.bind (rows_stores n y pp left (unat (line_length f))) (\<lambda>ws. store_all ws f)"
proof (induction n arbitrary: y pp left f)
  case (Suc n)
  show ?case
  proof (cases "font_at pp")
    case (Some pixels)
    let ?cs = "cols_stores (nat FONT_WIDTH) pixels 0x80 left"
    show ?thesis
    proof (cases "store_all ?cs f")
      case None
      with Some show ?thesis
        by (auto simp: putchar_cols_stores store_all_append split: Option.bind_splits)
    next
      case (Some f1)
      then obtain m where "f1 = f\<lparr>mem := m\<rparr>" using store_all_mem by blast
      then have "line_length f1 = line_length f" by simp
      with Some \<open>font_at pp = Some pixels\<close> show ?thesis
        by (simp add: putchar_cols_stores store_all_append Suc.IH)
    qed
  qed simp
qed simp

lemma fbputchar_stores: "fbputchar c row col f = Option.bind (putchar_stores c row col f) (\<lambda>ws. store_all ws f)"
  by (simp add: fbputchar_def putchar_stores_def putchar_rows_stores)

subsection \<open>Where a character stores\<close>

text \<open>\<open>in_area f R a\<close>: the byte \<open>a\<close> belongs to a cell of the text screen in one of the rows \<open>R\<close>.\<close>

definition in_area :: "fb \<Rightarrow> int set \<Rightarrow> nat \<Rightarrow> bool" where
  "in_area f R a \<longleftrightarrow>
     (\<exists>row col y j. row \<in> R \<and> on_screen row col \<and> y < 32 \<and> j < 64 \<and> a = cell_addr f row col y j)"

lemma in_area_mem [simp]: "in_area (f\<lparr>mem := m\<rparr>) = in_area f"
  by (simp add: in_area_def fun_eq_iff)







subsection \<open>A thread on its own\<close>

text \<open>
  \<open>settle\<close> draws all that is outstanding.  \<open>performs run xs s s'\<close>: left alone, a thread that has the
  operations \<open>xs\<close> before it gets through them, from \<open>s\<close> to \<open>s'\<close>, whatever it has to do next.
\<close>

fun settle :: "draw_act list \<Rightarrow> fb \<Rightarrow> fb option" where
  "settle [] f = Some f"
| "settle (Store a v # ds) f = Option.bind (poke a v f) (settle ds)"
| "settle (Put c row col # ds) f = Option.bind (fbputchar c row col f) (settle ds)"

definition alone :: "('a \<Rightarrow> 'w chat \<Rightarrow> ('w chat \<times> 'a pending) option) \<Rightarrow> 'a pending \<times> 'w chat \<Rightarrow> 'a pending \<times> 'w chat \<Rightarrow> bool" where
  "alone run x y \<longleftrightarrow> fst x \<noteq> ([], []) \<and> thread_step run (fst x) (snd x) = Some (snd y, fst y)"

definition performs :: "('a \<Rightarrow> 'w chat \<Rightarrow> ('w chat \<times> 'a pending) option) \<Rightarrow> 'a list \<Rightarrow> 'w chat \<Rightarrow> 'w chat \<Rightarrow> bool" where
  "performs run xs s s' \<longleftrightarrow> (\<forall>os. (alone run)\<^sup>*\<^sup>* (([], xs @ os), s) (([], os), s'))"

lemma fb_of_set_fb [simp]: "fb_of (set_fb f s) = f" "set_fb g (set_fb f s) = set_fb g s" "set_fb (fb_of s) s = s"
  by (simp_all add: fb_of_def set_fb_def)



lemma settle_puts: "settle (puts ws) f = draw fbputchar ws f"
  by (induction ws arbitrary: f) (auto simp: puts_def split: Option.bind_splits)

lemma draw_disp: "draw d_putchar ws d = map_option (\<lambda>f. d\<lparr>d_fb := f\<rparr>) (draw fbputchar ws (d_fb d))"
proof (induction ws arbitrary: d)
  case (Cons w ws)
  obtain c row col where "w = (c, row, col)" by (cases w)
  with Cons show ?case
    by (cases "fbputchar c row col (d_fb d)") (simp_all add: d_putchar_def option.map_comp o_def)
qed simp

lemma stores_alone:
  "store_all ws (fb_of s) = Some f \<Longrightarrow>
     (alone run)\<^sup>*\<^sup>* ((map (\<lambda>(a, v). Store a v) ws @ ds, os), s) ((ds, os), set_fb f s)"
proof (induction ws arbitrary: s)
  case (Cons w ws)
  obtain a v where w: "w = (a, v)" by (cases w)
  with Cons.prems obtain f1 where f1: "poke a v (fb_of s) = Some f1" "store_all ws f1 = Some f"
    by (auto split: Option.bind_splits)
  have "alone run ((map (\<lambda>(a, v). Store a v) (w # ws) @ ds, os), s) ((map (\<lambda>(a, v). Store a v) ws @ ds, os), set_fb f1 s)"
    using f1(1) by (simp add: alone_def w)
  also have "(alone run)\<^sup>*\<^sup>* \<dots> ((ds, os), set_fb f s)" using Cons.IH [of "set_fb f1 s"] f1(2) by simp
  finally show ?case .
qed auto

lemma draws_alone:
  "settle ds (fb_of s) = Some f \<Longrightarrow> (alone run)\<^sup>*\<^sup>* ((ds, os), s) (([], os), set_fb f s)"
proof (induction ds arbitrary: s)
  case (Cons d ds)
  show ?case
  proof (cases d)
    case (Store a v)
    with Cons.prems obtain f1 where f1: "poke a v (fb_of s) = Some f1" "settle ds f1 = Some f"
      by (auto split: Option.bind_splits)
    have "alone run ((d # ds, os), s) ((ds, os), set_fb f1 s)" using f1(1) by (simp add: alone_def Store)
    also have "(alone run)\<^sup>*\<^sup>* \<dots> (([], os), set_fb f s)" using Cons.IH [of "set_fb f1 s"] f1(2) by simp
    finally show ?thesis .
  next
    case (Put c row col)
    with Cons.prems obtain ws f1 where f1: "putchar_stores c row col (fb_of s) = Some ws"
      "store_all ws (fb_of s) = Some f1" "settle ds f1 = Some f"
      by (auto simp: fbputchar_stores split: Option.bind_splits)
    have "alone run ((d # ds, os), s) ((map (\<lambda>(a, v). Store a v) ws @ ds, os), s)"
      using f1(1) by (simp add: alone_def Put)
    also have "(alone run)\<^sup>*\<^sup>* \<dots> ((ds, os), set_fb f1 s)" using stores_alone [OF f1(2)] .
    also have "(alone run)\<^sup>*\<^sup>* \<dots> (([], os), set_fb f s)" using Cons.IH [of "set_fb f1 s"] f1(3) by simp
    finally show ?thesis .
  qed
qed auto

lemma performs_Nil [simp]: "performs run [] s s"
  by (simp add: performs_def)

lemma performs_append: "performs run xs s s1 \<Longrightarrow> performs run ys s1 s2 \<Longrightarrow> performs run (xs @ ys) s s2"
  unfolding performs_def by (metis append_assoc rtranclp_trans)

lemma performs_op:
  assumes "run x s = Some (t, ds, xs)" "settle ds (fb_of t) = Some f" "performs run xs (set_fb f t) s'"
  shows "performs run [x] s s'"
  unfolding performs_def
proof
  fix os
  have "alone run (([], [x] @ os), s) ((ds, xs @ os), t)" using assms(1) by (simp add: alone_def)
  also have "(alone run)\<^sup>*\<^sup>* \<dots> (([], xs @ os), set_fb f t)" using draws_alone [OF assms(2)] .
  also have "(alone run)\<^sup>*\<^sup>* \<dots> (([], os), s')" using assms(3) by (simp add: performs_def)
  finally show "(alone run)\<^sup>*\<^sup>* (([], [x] @ os), s) (([], os), s')" .
qed

lemma performs_quiet:
  assumes "run x s = Some (t, [], xs)" "performs run xs t s'"
  shows "performs run [x] s s'"
  by (rule performs_op [where t = t and ds = "[]" and xs = xs and f = "fb_of t"]) (simp_all add: assms)

lemma performs_Cons: "performs run [x] s s1 \<Longrightarrow> performs run xs s1 s2 \<Longrightarrow> performs run (x # xs) s s2"
  using performs_append [of run "[x]"] by simp

text \<open>The main thread.\<close>

lemma draw_input_puts:
  "draw_input buffer len width i row col d =
     Option.bind (text_puts buffer len width i row col) (\<lambda>ws. draw d_putchar ws d)"
proof (induction buffer len width i row col d rule: draw_input.induct)
  case (1 buffer len width i row col d)
  show ?case
  proof (cases "i < len \<and> col < width \<and> 0 \<le> i \<and> nat i < length buffer")
    case True
    with "1.IH" show ?thesis
      by (subst draw_input.simps, subst text_puts.simps)
         (auto split: option.splits Option.bind_splits)
  next
    case False
    then show ?thesis by (subst draw_input.simps, subst text_puts.simps) auto
  qed
qed

lemma display_user_input_puts:
  "display_user_input buffer len cur d = Option.bind (input_puts buffer len cur) (\<lambda>ws. draw d_putchar ws d)"
proof -
  have "iter_opt (\<lambda>c. d_putchar 0x20 row c) cs d = draw d_putchar (map (\<lambda>c. (0x20, row, c)) cs) d" for row cs d
    by (simp add: draw_def iter_opt_map)
  then show ?thesis
    by (cases "draw d_putchar (map (\<lambda>c. (0x20, 23, c)) [0..63]) d")
       (auto simp: display_user_input_def input_puts_def display_consts Let_def draw_input_puts draw_append
         split: Option.bind_splits)
qed

lemma performs_redraw:
  assumes "redraw_input (cl s) = Some c"
  shows "performs (run_main wr) [Redraw] s (s\<lparr>cl := c\<rparr>)"
proof -
  let ?k = "kb (cl s)"
  from assms obtain ws f where
    ws: "input_puts (input_buffer ?k) (input_length ?k) (cursor_position ?k) = Some ws"
      "draw fbputchar ws (fb_of s) = Some f" "c = (cl s)\<lparr>dp := (dp (cl s))\<lparr>d_fb := f\<rparr>\<rparr>"
    by (auto simp: redraw_input_def display_user_input_puts draw_disp fb_of_def split: Option.bind_splits)
  have "set_fb f s = s\<lparr>cl := c\<rparr>" by (simp add: set_fb_def ws(3))
  then show ?thesis
    using ws(1,2) by (intro performs_op [where t = s and ds = "puts ws" and xs = "[]" and f = f]) (simp_all add: settle_puts)
qed

definition redrawn :: "kbd option option \<Rightarrow> 'w client \<Rightarrow> 'w client option" where
  "redrawn r c = Option.bind r (\<lambda>e. case e of None \<Rightarrow> Some c | Some k \<Rightarrow> redraw_input (c\<lparr>kb := k\<rparr>))"

lemma edits_redrawn:
  "input_buf_add_char x c = redrawn (add_edit x (kb c)) c"
  "input_buf_delete_char c = redrawn (delete_edit (kb c)) c"
  "input_buf_clear c = redrawn (clear_edit (kb c)) c"
  "cursor_move_left c = redrawn (left_edit (kb c)) c"
  "cursor_move_right c = redrawn (right_edit (kb c)) c"
  by (simp_all add: redrawn_def input_buf_add_char_def add_edit_def input_buf_delete_char_def delete_edit_def
      input_buf_clear_def clear_edit_def cursor_move_left_def left_edit_def cursor_move_right_def right_edit_def Let_def)

lemma performs_edit:
  assumes "run_main wr x s = edited r t" "redrawn r (cl t) = Some c"
  shows "performs (run_main wr) [x] s (t\<lparr>cl := c\<rparr>)"
proof -
  from assms(2) obtain e where r: "r = Some e" by (auto simp: redrawn_def split: Option.bind_splits)
  show ?thesis
  proof (cases e)
    case None
    with assms(2) r have "t\<lparr>cl := c\<rparr> = t" by (auto simp: redrawn_def)
    with assms(1) r None show ?thesis by (intro performs_quiet [where t = t and xs = "[]"]) (simp_all add: edited_def)
  next
    case (Some k)
    have "redraw_input (cl (set_kb k t)) = Some c" using assms(2) r Some by (simp add: redrawn_def set_kb_def)
    from performs_redraw [OF this, of wr] have "performs (run_main wr) [Redraw] (set_kb k t) ((set_kb k t)\<lparr>cl := c\<rparr>)" .
    moreover have "(set_kb k t)\<lparr>cl := c\<rparr> = t\<lparr>cl := c\<rparr>" by (simp add: set_kb_def)
    ultimately have "performs (run_main wr) [Redraw] (set_kb k t) (t\<lparr>cl := c\<rparr>)" by simp
    moreover have "run_main wr x s = Some (set_kb k t, [], [Redraw])" using assms(1) r Some by (simp add: edited_def)
    ultimately show ?thesis by (rule performs_quiet [rotated])
  qed
qed

lemma performs_add: "input_buf_add_char x (cl s) = Some c \<Longrightarrow> performs (run_main wr) [AddChar x] s (s\<lparr>cl := c\<rparr>)"
  by (rule performs_edit [where r = "add_edit x (kb (cl s))"]) (simp_all add: edits_redrawn)

lemma performs_adds:
  "iter_opt (\<lambda>_. input_buf_add_char x) is (cl s) = Some c \<Longrightarrow>
     performs (run_main wr) (replicate (length is) (AddChar x)) s (s\<lparr>cl := c\<rparr>)"
proof (induction "is" arbitrary: s)
  case (Cons i "is")
  then obtain c1 where c1: "input_buf_add_char x (cl s) = Some c1"
    "iter_opt (\<lambda>_. input_buf_add_char x) is (cl (s\<lparr>cl := c1\<rparr>)) = Some c"
    by (auto split: Option.bind_splits)
  from performs_Cons [OF performs_add [OF c1(1)] Cons.IH [OF c1(2)]] show ?case by simp
qed auto

lemma performs_press:
  assumes "handle_keypress wr key mods (cl s) = Some c"
  shows "performs (run_main wr) [Press key mods] s (s\<lparr>cl := c\<rparr>)"
proof -
  have quiet: ?thesis if "press_op wr key mods s = Some (s\<lparr>cl := c\<rparr>, [], [])"
    using that by (intro performs_quiet [where t = "s\<lparr>cl := c\<rparr>" and xs = "[]"]) simp_all
  have edit: ?thesis if "press_op wr key mods s = edited r s" "redrawn r (cl s) = Some c" for r
    using that by (intro performs_edit [where r = r]) simp_all
  let ?ascii = "keycode_to_ascii key mods (kb (cl s))"
  consider "key = HID_CAPSLOCK" | "key = HID_BACKSPACE" | "key = HID_TAB" | (enter) "key = HID_ENTER"
    | "key = HID_ESCAPE" | "key = HID_LEFT" | "key = HID_RIGHT"
    | (char) "key \<notin> {HID_CAPSLOCK, HID_BACKSPACE, HID_TAB, HID_ESCAPE, HID_LEFT, HID_RIGHT, HID_ENTER}" by blast
  then show ?thesis
  proof cases
    case 1
    with assms show ?thesis by (intro quiet) (auto simp: handle_keypress_def press_op_def hid_codes set_kb_def)
  next
    case 2
    with assms show ?thesis
      by (intro edit [of "delete_edit (kb (cl s))"]) (simp_all add: handle_keypress_def press_op_def hid_codes edits_redrawn)
  next
    case 3
    have "performs (run_main wr) (replicate (length [0..<4]) (AddChar 0x20)) s (s\<lparr>cl := c\<rparr>)"
      using assms 3 by (intro performs_adds) (simp add: handle_keypress_def hid_codes)
    with 3 show ?thesis
      by (intro performs_quiet [where t = s and xs = "replicate 4 (AddChar 0x20)"]) (simp_all add: press_op_def hid_codes)
  next
    case enter
    show ?thesis
    proof (cases "0 < input_length (kb (cl s))")
      case True
      with assms enter obtain rc w where
        send: "send_input_buffer_to_server wr (cl s) = Some (rc, (cl s)\<lparr>net := w\<rparr>)"
        and c: "(if rc = 0 then input_buf_clear ((cl s)\<lparr>net := w\<rparr>) else Some ((cl s)\<lparr>net := w\<rparr>)) = Some c"
        by (auto simp: handle_keypress_def hid_codes send_input_buffer_to_server_def split: Option.bind_splits)
      have op: "run_main wr (Press key mods) s =
          (if rc = 0 then edited (clear_edit (kb (cl s))) (s\<lparr>cl := (cl s)\<lparr>net := w\<rparr>\<rparr>)
           else Some (s\<lparr>cl := (cl s)\<lparr>net := w\<rparr>\<rparr>, [], []))"
        using send True enter by (simp add: press_op_def hid_codes)
      show ?thesis
      proof (cases "rc = 0")
        case True
        have "performs (run_main wr) [Press key mods] s (s\<lparr>cl := (cl s)\<lparr>net := w\<rparr>\<rparr>\<lparr>cl := c\<rparr>)"
          by (rule performs_edit [where r = "clear_edit (kb (cl s))"]) (use op c True in \<open>simp_all add: edits_redrawn\<close>)
        then show ?thesis by simp
      next
        case False
        with op c show ?thesis by (intro quiet) simp
      qed
    next
      case False
      with assms enter show ?thesis by (intro quiet) (simp add: handle_keypress_def press_op_def hid_codes)
    qed
  next
    case 5
    with assms show ?thesis by (intro quiet) (simp add: handle_keypress_def press_op_def hid_codes)
  next
    case 6
    with assms show ?thesis
      by (intro edit [of "left_edit (kb (cl s))"]) (simp_all add: handle_keypress_def press_op_def hid_codes edits_redrawn)
  next
    case 7
    with assms show ?thesis
      by (intro edit [of "right_edit (kb (cl s))"]) (simp_all add: handle_keypress_def press_op_def hid_codes edits_redrawn)
  next
    case char
    then have op: "press_op wr key mods s =
        Some (s, [], if ?ascii \<noteq> 0 \<and> ?ascii \<noteq> 0x0a \<and> ?ascii \<noteq> 0x09 then [AddChar ?ascii] else [])"
      by (simp add: press_op_def Let_def)
    have "performs (run_main wr) (if ?ascii \<noteq> 0 \<and> ?ascii \<noteq> 0x0a \<and> ?ascii \<noteq> 0x09 then [AddChar ?ascii] else []) s (s\<lparr>cl := c\<rparr>)"
      using assms char performs_add [of ?ascii s c wr] by (auto simp: handle_keypress_def Let_def split: if_splits)
    with op show ?thesis by (intro performs_quiet [where t = s]) simp_all
  qed
qed

lemma performs_slots:
  assumes "iter_opt (\<lambda>i s. let key = keycode p ! i in
      if key \<noteq> 0 \<and> is_new_keypress key (kb (cl s)) then press wr key (modifiers p) s else Some s) is s = Some s'"
  shows "performs (run_main wr) (map (Slot p) is) s s'"
  using assms
proof (induction "is" arbitrary: s)
  case (Cons i "is")
  let ?key = "keycode p ! i"
  from Cons.prems obtain s1 where s1:
    "(if ?key \<noteq> 0 \<and> is_new_keypress ?key (kb (cl s)) then press wr ?key (modifiers p) s else Some s) = Some s1"
    "performs (run_main wr) (map (Slot p) is) s1 s'"
    using Cons.IH by (auto simp: Let_def split: Option.bind_splits)
  have "performs (run_main wr) (if ?key \<noteq> 0 \<and> is_new_keypress ?key (kb (cl s)) then [Press ?key (modifiers p)] else []) s s1"
    using s1(1) by (auto simp: press_def intro: performs_press split: if_splits)
  then have "performs (run_main wr) [Slot p i] s s1"
    by (intro performs_quiet [where t = s]) (simp_all add: Let_def)
  from performs_Cons [OF this s1(2)] show ?case by simp
qed simp

lemma performs_repeat:
  assumes "press wr key mods s = Some s1"
  shows "performs (run_main wr) [Press key mods, Deadline t] s (s1\<lparr>next_repeat_ms := t\<rparr>)"
proof (rule performs_Cons)
  show "performs (run_main wr) [Press key mods] s s1" using assms by (auto simp: press_def intro: performs_press)
  show "performs (run_main wr) [Deadline t] s1 (s1\<lparr>next_repeat_ms := t\<rparr>)"
    by (rule performs_quiet [where t = "s1\<lparr>next_repeat_ms := t\<rparr>" and xs = "[]"]) simp_all
qed

lemma performs_packet_repeat:
  assumes "packet_repeat wr p now s = Some s'"
  shows "performs (run_main wr) [PacketRepeat p now] s s'"
proof -
  let ?h = "held_keycode p"
  have quiet: ?thesis if "run_main wr (PacketRepeat p now) s = Some (s', [], [])"
    using that by (intro performs_quiet [where t = s' and xs = "[]"]) simp_all
  show ?thesis
  proof (cases "?h = 0 \<or> ?h \<noteq> repeat_keycode s \<or> modifiers p \<noteq> repeat_modifiers s \<or>
      \<not> (is_repeatable_key ?h \<and> next_repeat_ms s \<le> now)")
    case True
    with assms show ?thesis by (intro quiet) (auto simp: packet_repeat_def Let_def split: if_splits)
  next
    case False
    with assms obtain s1 where "press wr ?h (modifiers p) s = Some s1" "s' = s1\<lparr>next_repeat_ms := now + KEY_REPEAT_INTERVAL_MS\<rparr>"
      by (auto simp: packet_repeat_def Let_def split: Option.bind_splits)
    with performs_repeat [of wr ?h "modifiers p" s s1] False show ?thesis
      by (intro performs_quiet [where t = s and xs = "[Press ?h (modifiers p), Deadline (now + KEY_REPEAT_INTERVAL_MS)]"]) auto
  qed
qed

lemma performs_idle_repeat:
  assumes "idle_repeat wr now s = Some s'"
  shows "performs (run_main wr) [IdleRepeat now] s s'"
proof (cases "repeat_keycode s \<noteq> 0 \<and> is_repeatable_key (repeat_keycode s) \<and> next_repeat_ms s \<le> now")
  case True
  with assms obtain s1 where "press wr (repeat_keycode s) (repeat_modifiers s) s = Some s1"
    "s' = s1\<lparr>next_repeat_ms := now + KEY_REPEAT_INTERVAL_MS\<rparr>"
    by (auto simp: idle_repeat_def split: Option.bind_splits)
  with performs_repeat [of wr "repeat_keycode s" "repeat_modifiers s" s s1] True show ?thesis
    by (intro performs_quiet [where t = s and
          xs = "[Press (repeat_keycode s) (repeat_modifiers s), Deadline (now + KEY_REPEAT_INTERVAL_MS)]"]) auto
next
  case False
  with assms have "s' = s" by (auto simp: idle_repeat_def split: if_splits)
  with False show ?thesis by (intro performs_quiet [where t = s and xs = "[]"]) auto
qed

text \<open>Left alone, the main thread gets through an iteration as \<open>main_iteration\<close> says.\<close>

lemma main_alone:
  assumes "main_iteration wr x t1 t2 s = Some s'"
  shows "performs (run_main wr) (iteration_ops (x, t1, t2)) s s'"
proof -
  obtain rc n p where x: "x = (rc, n, p)" by (cases x)
  show ?thesis
  proof (cases "rc = 0 \<and> n = sizeof_packet")
    case True
    with assms x obtain s1 s2 where s: "press_new wr p s = Some s1" "packet_repeat wr p t1 s1 = Some s2"
      "idle_repeat wr t2 (save_packet p s2) = Some s'"
      by (auto simp: main_iteration_def split: Option.bind_splits)
    have "performs (run_main wr) (map (Slot p) [0..<6]) s s1"
      using s(1) unfolding press_new_def by (rule performs_slots)
    moreover have "performs (run_main wr) [PacketRepeat p t1] s1 s2" using s(2) by (rule performs_packet_repeat)
    moreover have "performs (run_main wr) [SavePacket p] s2 (save_packet p s2)"
      by (rule performs_quiet [where t = "save_packet p s2" and xs = "[]"]) simp_all
    moreover have "performs (run_main wr) [IdleRepeat t2] (save_packet p s2) s'" using s(3) by (rule performs_idle_repeat)
    ultimately have "performs (run_main wr) (map (Slot p) [0..<6] @ [PacketRepeat p t1] @ [SavePacket p] @ [IdleRepeat t2]) s s'"
      by (intro performs_append)
    with True x show ?thesis by (simp add: iteration_ops_def)
  next
    case False
    with assms x show ?thesis by (auto simp: main_iteration_def iteration_ops_def intro: performs_idle_repeat)
  qed
qed

lemma main_gets_through:
  assumes "client_ok (cl s)"
  shows "\<exists>s'. main_iteration wr x t1 t2 s = Some s' \<and> performs (run_main wr) (iteration_ops (x, t1, t2)) s s'"
  using main_iteration_step [OF assms, of wr x t1 t2] main_alone by blast

text \<open>The network thread.\<close>

lemma set_dp_simps [simp]: "dp (cl (set_dp d s)) = d" "set_dp e (set_dp d s) = set_dp e s" "set_dp (dp (cl s)) s = s"
  "set_fb f (set_dp d s) = set_dp (d\<lparr>d_fb := f\<rparr>) s" "fb_of (set_dp d s) = d_fb d"
  by (simp_all add: set_dp_def set_fb_def fb_of_def)

lemma settle_clear:
  assumes "clear_message_area d = Some e"
  shows "\<exists>f. settle clear_puts (d_fb d) = Some f \<and> e = d\<lparr>d_fb := f, current_msg_row := MSG_AREA_TOP, current_msg_col := 0\<rparr>"
proof -
  have "settle clear_puts (d_fb d) = draw fbputchar clear_writes (d_fb d)"
    by (simp add: clear_puts_def clear_writes_def display_consts settle_puts)
  with assms show ?thesis
    by (auto simp: clear_message_area_draw draw_disp display_consts)
qed

lemma performs_clear:
  assumes "run_net msg x s = Some (set_dp d t, clear_puts, Home # xs)" "clear_message_area d = Some e"
    and "performs (run_net msg) xs (set_dp e t) s'"
  shows "performs (run_net msg) [x] s s'"
proof -
  obtain f where f: "settle clear_puts (d_fb d) = Some f"
    "e = d\<lparr>d_fb := f, current_msg_row := MSG_AREA_TOP, current_msg_col := 0\<rparr>"
    using settle_clear [OF assms(2)] by blast
  have "performs (run_net msg) [Home] (set_dp (d\<lparr>d_fb := f\<rparr>) t) (set_dp e t)"
    by (rule performs_quiet [where t = "set_dp e t" and xs = "[]"]) (simp_all add: f(2))
  from performs_Cons [OF this assms(3)]
  show ?thesis
    by (intro performs_op [where t = "set_dp d t" and ds = clear_puts and xs = "Home # xs" and f = f]) (simp_all add: f(1) assms(1))
qed

lemma performs_char:
  assumes "run_net msg x s = Some (set_dp d t, [Put c (current_msg_row d) (current_msg_col d)], [NextCol, Loop q])"
    and "d_putchar c (current_msg_row d) (current_msg_col d) d = Some e"
    and "performs (run_net msg) [Loop q] (set_dp (e\<lparr>current_msg_col := current_msg_col e + 1\<rparr>) t) s'"
  shows "performs (run_net msg) [x] s s'"
proof -
  obtain f where f: "fbputchar c (current_msg_row d) (current_msg_col d) (d_fb d) = Some f" "e = d\<lparr>d_fb := f\<rparr>"
    using assms(2) by (auto simp: d_putchar_def)
  have "performs (run_net msg) [NextCol] (set_dp e t) (set_dp (e\<lparr>current_msg_col := current_msg_col e + 1\<rparr>) t)"
    by (rule performs_quiet [where t = "set_dp (e\<lparr>current_msg_col := current_msg_col e + 1\<rparr>) t" and xs = "[]"]) simp_all
  from performs_Cons [OF this assms(3)]
  show ?thesis
    by (intro performs_op [where t = "set_dp d t" and ds = "[Put c (current_msg_row d) (current_msg_col d)]"
          and xs = "[NextCol, Loop q]" and f = f]) (simp_all add: f assms(1))
qed

lemma loop_alone:
  assumes "display_loop msg p d = Some y" "y = Some d1" "end_message d1 = Some d'"
  shows "performs (run_net msg) [Loop p] (set_dp d s) (set_dp d' s)"
proof -
  let ?P = "\<lambda>msg p d y. \<forall>d1 d'. y = Some d1 \<longrightarrow> end_message d1 = Some d' \<longrightarrow>
    performs (run_net msg) [Loop p] (set_dp d s) (set_dp d' s)"
  have "?P msg p d y"
  proof (rule display_loop.raw_induct [where P = ?P, OF _ assms(1)])
    fix loop :: "u8 list \<Rightarrow> nat \<Rightarrow> disp \<Rightarrow> disp option option" and msg p d y
    assume ih: "\<And>msg p d y. loop msg p d = Some y \<Longrightarrow> ?P msg p d y"
      and body: "(if length msg \<le> p then Some None
      else if msg ! p = 0 then Some (Some d)
      else if msg ! p = 0x0a then
        (let d = d\<lparr>current_msg_col := 0, current_msg_row := current_msg_row d + 1\<rparr> in
         if MSG_AREA_BOTTOM < current_msg_row d then
           (case clear_message_area d of
              None \<Rightarrow> Some None
            | Some d \<Rightarrow> loop msg 0 d)
         else loop msg (p + 1) d)
      else if MSG_AREA_COLS \<le> current_msg_col d \<and> MSG_AREA_BOTTOM < current_msg_row d + 1 then
        (case clear_message_area (d\<lparr>current_msg_col := 0, current_msg_row := current_msg_row d + 1\<rparr>) of
           None \<Rightarrow> Some None
         | Some d \<Rightarrow> loop msg 0 d)
      else
        (let d = (if MSG_AREA_COLS \<le> current_msg_col d
                  then d\<lparr>current_msg_col := 0, current_msg_row := current_msg_row d + 1\<rparr> else d) in
         case d_putchar (msg ! p) (current_msg_row d) (current_msg_col d) d of
           None \<Rightarrow> Some None
         | Some d \<Rightarrow> loop msg (p + 1) (d\<lparr>current_msg_col := current_msg_col d + 1\<rparr>))) = Some y"
    let ?G = "\<lambda>d'. performs (run_net msg) [Loop p] (set_dp d s) (set_dp d' s)" and ?down = "next_row d"
    show "?P msg p d y"
    proof (intro allI impI)
      fix d1 d' assume y: "y = Some d1" and fin: "end_message d1 = Some d'"
      have IH: "performs (run_net msg) [Loop q] (set_dp e s) (set_dp d' s)" if "loop msg q e = Some (Some d1)" for q e
        using ih [OF that] fin by simp
      have again: "?G d'" if "clear_message_area ?down = Some e" "loop msg 0 e = Some (Some d1)"
        "run_net msg (Loop p) (set_dp d s) = Some (set_dp ?down s, clear_puts, [Home, Loop 0])" for e
        using performs_clear [OF that(3,1) IH [OF that(2)]] .
      have glyph: "?G d'" if "d_putchar (msg ! p) (current_msg_row w) (current_msg_col w) w = Some e"
        "loop msg (p + 1) (e\<lparr>current_msg_col := current_msg_col e + 1\<rparr>) = Some (Some d1)"
        "run_net msg (Loop p) (set_dp d s) =
           Some (set_dp w s, [Put (msg ! p) (current_msg_row w) (current_msg_col w)], [NextCol, Loop (p + 1)])" for e w
        using performs_char [OF that(3,1) IH [OF that(2)]] .
      have line: "?G d'" if "loop msg (p + 1) ?down = Some (Some d1)"
        "run_net msg (Loop p) (set_dp d s) = Some (set_dp ?down s, [], [Loop (p + 1)])"
        using performs_quiet [OF that(2) IH [OF that(1)]] .
      consider "length msg \<le> p" | (fin) "p < length msg" "msg ! p = 0" | (nl) "p < length msg" "msg ! p = 0x0a"
        | (full) "p < length msg" "msg ! p \<notin> {0, 0x0a}" "64 \<le> current_msg_col d \<and> 20 < current_msg_row d + 1"
        | (wrap) "p < length msg" "msg ! p \<notin> {0, 0x0a}" "64 \<le> current_msg_col d" "current_msg_row d + 1 \<le> 20"
        | (char) "p < length msg" "msg ! p \<notin> {0, 0x0a}" "current_msg_col d < 64"
        by (cases "p < length msg"; cases "64 \<le> current_msg_col d"; cases "20 < current_msg_row d + 1") (auto simp: not_less not_le)
      then show "?G d'"
      proof cases
        case fin
        have "d1 = d" using body y fin by simp
        note d' = \<open>end_message d1 = Some d'\<close> [unfolded \<open>d1 = d\<close>]
        show ?thesis
        proof (cases "0 < current_msg_col d \<and> 20 < current_msg_row d + 1")
          case True
          with d' have "clear_message_area ?down = Some d'" by (simp add: end_message_def display_consts next_row_def Let_def)
          then show ?thesis
            by (rule performs_clear [rotated]) (use fin True in \<open>simp_all add: display_consts next_row_def Let_def\<close>)
        next
          case False
          with d' have "d' = (if 0 < current_msg_col d then ?down else d)"
            by (auto simp: end_message_def display_consts next_row_def Let_def)
          then show ?thesis
            by (intro performs_quiet [where t = "set_dp d' s" and xs = "[]"])
               (use fin False in \<open>auto simp: display_consts next_row_def Let_def\<close>)
        qed
      next
        case nl
        then have run: "run_net msg (Loop p) (set_dp d s) = Some (set_dp ?down s,
            if 20 < current_msg_row ?down then (clear_puts, [Home, Loop 0]) else ([], [Loop (p + 1)]))"
          by (simp add: display_consts next_row_def Let_def)
        from nl body y have "(if 20 < current_msg_row ?down
           then (case clear_message_area ?down of None \<Rightarrow> Some None | Some d \<Rightarrow> loop msg 0 d)
           else loop msg (p + 1) ?down) = Some (Some d1)"
          by (simp add: display_consts next_row_def Let_def split: if_splits)
        with run show ?thesis by (auto intro: line again split: if_splits option.splits)
      next
        case full
        then have "run_net msg (Loop p) (set_dp d s) = Some (set_dp ?down s, clear_puts, [Home, Loop 0])"
          by (simp add: display_consts next_row_def Let_def)
        moreover from full body y obtain e where "clear_message_area ?down = Some e" "loop msg 0 e = Some (Some d1)"
          by (auto simp: display_consts next_row_def split: option.splits)
        ultimately show ?thesis using again by blast
      next
        case wrap
        then have "run_net msg (Loop p) (set_dp d s) =
            Some (set_dp ?down s, [Put (msg ! p) (current_msg_row ?down) (current_msg_col ?down)], [NextCol, Loop (p + 1)])"
          by (simp add: display_consts next_row_def Let_def)
        moreover from wrap body y obtain e where
          "d_putchar (msg ! p) (current_msg_row ?down) (current_msg_col ?down) ?down = Some e"
          "loop msg (p + 1) (e\<lparr>current_msg_col := current_msg_col e + 1\<rparr>) = Some (Some d1)"
          by (auto simp: display_consts next_row_def Let_def simp del: d_putchar_cursor split: option.splits)
        ultimately show ?thesis using glyph by blast
      next
        case char
        then have "run_net msg (Loop p) (set_dp d s) =
            Some (set_dp d s, [Put (msg ! p) (current_msg_row d) (current_msg_col d)], [NextCol, Loop (p + 1)])"
          by (simp add: display_consts Let_def)
        moreover from char body y obtain e where
          "d_putchar (msg ! p) (current_msg_row d) (current_msg_col d) d = Some e"
          "loop msg (p + 1) (e\<lparr>current_msg_col := current_msg_col e + 1\<rparr>) = Some (Some d1)"
          by (auto simp: display_consts Let_def split: option.splits)
        ultimately show ?thesis using glyph by blast
      qed (use body y in simp)
    qed
  qed
  with assms show ?thesis by simp
qed

text \<open>Left alone, the network thread displays its buffer as \<open>display_message\<close> says, if that comes to an end.\<close>

lemma net_alone:
  assumes "display_message msg r g b (dp (cl s)) = Some (Some d)"
  shows "performs (run_net msg) [Loop 0] s (set_dp d s)"
proof -
  obtain d1 where "display_loop msg 0 (dp (cl s)) = Some (Some d1)" "end_message d1 = Some d"
    using assms by (auto simp: display_message_def split: option.splits)
  from loop_alone [OF this(1) refl this(2), of s] show ?thesis by simp
qed

subsection \<open>What a thread may have outstanding\<close>

text \<open>
  The main thread only draws in the input row, the network thread only in the message area;
  \<open>draw_ok f R\<close> is drawing in the rows \<open>R\<close>.
\<close>

fun draw_ok :: "fb \<Rightarrow> int set \<Rightarrow> draw_act \<Rightarrow> bool" where
  "draw_ok f R (Store a v) \<longleftrightarrow> in_area f R a"
| "draw_ok f R (Put c row col) \<longleftrightarrow> c < 128 \<and> on_screen row col \<and> row \<in> R"

lemma draw_ok_mem [simp]: "draw_ok (f\<lparr>mem := m\<rparr>) R = draw_ok f R"
proof
  show "draw_ok (f\<lparr>mem := m\<rparr>) R d = draw_ok f R d" for d by (cases d) simp_all
qed







subsection \<open>The main thread keeps the line\<close>















subsection \<open>The network thread keeps its position\<close>







subsection \<open>Both threads\<close>















end
