(* ===== verification/VgaBall.thy ===== *)
theory VgaBall
  imports Prelude
begin

text \<open>
  The VGA ball peripheral and its kernel driver: the register block of
  \<open>src/lab3/vga_ball.sv\<close> and \<open>src/lab3/lab3-sw/vga_ball.c\<close>.  The driver's static structure
  \<open>dev\<close> is the record \<open>vga_ball_dev\<close>; what the kernel holds for it (the device node, the memory
  region, the register mapping) are flags of the record \<open>drv\<close>, and the kernel's answers are the
  record \<open>kernel\<close>.  \<open>None\<close> is an access through a mapping that does not exist, or releasing
  what was never obtained.

  The lemmas show that probing releases exactly what it obtained on every error path, that the
  driver's copy of the registers agrees with the hardware on everything the hardware accepts,
  and what each request does.
\<close>

record color =
  red :: u8
  green :: u8
  blue :: u8

record vga_ball_arg =
  background :: color
  ball_x :: u16
  ball_y :: u16

subsection \<open>The register block\<close>

record vga_hw =
  background_r :: u8
  background_g :: u8
  background_b :: u8
  hw_x :: u16
  hw_y :: u16

definition hw_reset :: vga_hw where
  "hw_reset = \<lparr>background_r = 0x80, background_g = 0, background_b = 0x80, hw_x = 320, hw_y = 240\<rparr>"

text \<open>A write of the bus master: the word address has three bits.\<close>

definition hw_write :: "3 word \<Rightarrow> u32 \<Rightarrow> vga_hw \<Rightarrow> vga_hw" where
  "hw_write a writedata h =
     (if a = 0 then h\<lparr>background_r := ucast (drop_bit 16 writedata), background_g := ucast (drop_bit 8 writedata),
                      background_b := ucast writedata\<rparr>
      else if a = 1 then
        (if (ucast writedata :: u16) \<le> 639 then h\<lparr>hw_x := ucast writedata\<rparr> else h)
      else if a = 2 then
        (if (ucast writedata :: u16) \<le> 479 then h\<lparr>hw_y := ucast writedata\<rparr> else h)
      else h)"

text \<open>Which pixels are ball: the difference of two 11-bit signed values, squared in 22 bits.\<close>

definition in_ball :: "vga_hw \<Rightarrow> 10 word \<Rightarrow> 10 word \<Rightarrow> bool" where
  "in_ball h pixel_x pixel_y =
     (let x_diff = (ucast pixel_x :: 11 word) - ucast (hw_x h);
          y_diff = (ucast pixel_y :: 11 word) - ucast (hw_y h);
          dist2 = (scast x_diff * scast x_diff + scast y_diff * scast y_diff :: 22 word)
      in dist2 \<le> 16 * 16)"

definition pixel_color :: "vga_hw \<Rightarrow> 10 word \<Rightarrow> 10 word \<Rightarrow> color" where
  "pixel_color h pixel_x pixel_y =
     (if in_ball h pixel_x pixel_y then \<lparr>red = 0xff, green = 0, blue = 0\<rparr>
      else \<lparr>red = background_r h, green = background_g h, blue = background_b h\<rparr>)"

subsection \<open>The driver\<close>

record vga_ball_dev =
  res :: "(u32 \<times> u32) option"
  virtbase :: "u32 option"
  dev_background :: color
  dev_x :: u16
  dev_y :: u16

record drv =
  dev :: vga_ball_dev
  registered :: bool
  region :: bool
  mapped :: bool
  hw :: vga_hw

text \<open>
  The kernel's answers: the return code of \<open>misc_register\<close>, the register resource of the device
  tree (\<open>None\<close>: an error), whether the region is free, and the address \<open>of_iomap\<close> maps it to.
\<close>

record kernel =
  misc_register_rc :: int
  of_address :: "(u32 \<times> u32) option"
  region_free :: bool
  of_iomap_result :: "u32 option"

definition ENOENT :: int where "ENOENT = 2"
definition ENOMEM :: int where "ENOMEM = 12"
definition EACCES :: int where "EACCES = 13"
definition EBUSY :: int where "EBUSY = 16"
definition EINVAL :: int where "EINVAL = 22"

lemmas errnos [bounds_simps] = ENOENT_def ENOMEM_def EACCES_def EBUSY_def EINVAL_def

text \<open>
  \<open>iowrite32\<close> reaches the register block through the mapping; the bus selects the word by the
  address bits 4 to 2.
\<close>

definition iowrite32 :: "u32 \<Rightarrow> u32 \<Rightarrow> drv \<Rightarrow> drv option" where
  "iowrite32 v offset s =
     (case virtbase (dev s) of
        None \<Rightarrow> None
      | Some base \<Rightarrow> if mapped s then Some (s\<lparr>hw := hw_write (ucast (drop_bit 2 offset)) v (hw s)\<rparr>) else None)"

definition BG_COLOR :: u32 where "BG_COLOR = 0"
definition BALL_X :: u32 where "BALL_X = 4"
definition BALL_Y :: u32 where "BALL_Y = 8"

definition color_word :: "color \<Rightarrow> u32" where
  "color_word c = push_bit 16 (ucast (red c)) OR push_bit 8 (ucast (green c)) OR ucast (blue c)"

definition write_background :: "color \<Rightarrow> drv \<Rightarrow> drv option" where
  "write_background c s =
     do { s \<leftarrow> iowrite32 (color_word c) BG_COLOR s;
          Some (s\<lparr>dev := (dev s)\<lparr>dev_background := c\<rparr>\<rparr>) }"

definition write_ball_pos :: "u16 \<Rightarrow> u16 \<Rightarrow> drv \<Rightarrow> drv option" where
  "write_ball_pos x y s =
     do { s \<leftarrow> iowrite32 (ucast x) BALL_X s;
          s \<leftarrow> iowrite32 (ucast y) BALL_Y s;
          Some (s\<lparr>dev := (dev s)\<lparr>dev_x := x, dev_y := y\<rparr>\<rparr>) }"

text \<open>
  The request codes: \<open>iow\<close> and \<open>ior\<close> are the kernel's encoders of direction, type, number and
  argument size; the argument structure has 8 bytes.
\<close>

type_synonym ioc = "u8 \<Rightarrow> u8 \<Rightarrow> nat \<Rightarrow> u32"

definition VGA_BALL_WRITE_BACKGROUND :: "ioc \<Rightarrow> u32" where "VGA_BALL_WRITE_BACKGROUND iow = iow 0x71 1 8"
definition VGA_BALL_READ_BACKGROUND :: "ioc \<Rightarrow> u32" where "VGA_BALL_READ_BACKGROUND ior = ior 0x71 2 8"
definition VGA_BALL_SET_POS :: "ioc \<Rightarrow> u32" where "VGA_BALL_SET_POS iow = iow 0x71 3 8"

text \<open>
  The handler.  User memory maps an address to the argument structure there; \<open>None\<close> is an
  address the copy functions refuse.  \<open>vla\<close> is the uninitialised local of the handler.
\<close>

type_synonym umem = "u32 \<Rightarrow> vga_ball_arg option"

definition vga_ball_ioctl ::
  "ioc \<Rightarrow> ioc \<Rightarrow> vga_ball_arg \<Rightarrow> u32 \<Rightarrow> u32 \<Rightarrow> umem \<times> drv \<Rightarrow> (int \<times> umem \<times> drv) option" where
  "vga_ball_ioctl iow ior vla cmd arg st =
     (case st of (um, s) \<Rightarrow>
        if cmd = VGA_BALL_WRITE_BACKGROUND iow then
          (case um arg of
             None \<Rightarrow> Some (- EACCES, um, s)
           | Some vla \<Rightarrow> map_option (\<lambda>s. (0, um, s)) (write_background (background vla) s))
        else if cmd = VGA_BALL_READ_BACKGROUND ior then
          (let vla = vla\<lparr>background := dev_background (dev s)\<rparr> in
           if um arg = None then Some (- EACCES, um, s) else Some (0, um(arg \<mapsto> vla), s))
        else if cmd = VGA_BALL_SET_POS iow then
          (case um arg of
             None \<Rightarrow> Some (- EACCES, um, s)
           | Some vla \<Rightarrow> map_option (\<lambda>s. (0, um, s)) (write_ball_pos (ball_x vla) (ball_y vla) s))
        else Some (- EINVAL, um, s))"

subsection \<open>Probing and removing\<close>

definition misc_register :: "kernel \<Rightarrow> drv \<Rightarrow> int \<times> drv" where
  "misc_register K s =
     (misc_register_rc K, if misc_register_rc K = 0 then s\<lparr>registered := True\<rparr> else s)"

definition misc_deregister :: "drv \<Rightarrow> drv option" where
  "misc_deregister s = (if registered s then Some (s\<lparr>registered := False\<rparr>) else None)"

definition release_mem_region :: "drv \<Rightarrow> drv option" where
  "release_mem_region s = (if region s then Some (s\<lparr>region := False\<rparr>) else None)"

definition iounmap :: "drv \<Rightarrow> drv option" where
  "iounmap s = (if mapped s then Some (s\<lparr>mapped := False\<rparr>) else None)"

definition beige :: color where
  "beige = \<lparr>red = 0xf9, green = 0xe4, blue = 0xb7\<rparr>"

definition vga_ball_probe :: "kernel \<Rightarrow> drv \<Rightarrow> (int \<times> drv) option" where
  "vga_ball_probe K s =
     (case misc_register K s of (ret, s) \<Rightarrow>
        case of_address K of
          None \<Rightarrow> map_option (\<lambda>s. (- ENOENT, s)) (misc_deregister s)
        | Some r \<Rightarrow>
            (let s = s\<lparr>dev := (dev s)\<lparr>res := Some r\<rparr>\<rparr> in
             if \<not> region_free K then map_option (\<lambda>s. (- EBUSY, s)) (misc_deregister s)
             else
               let s = s\<lparr>region := True\<rparr>; v = of_iomap_result K;
                   s = s\<lparr>dev := (dev s)\<lparr>virtbase := v\<rparr>, mapped := (v \<noteq> None)\<rparr>
               in if v = None then
                    do { s \<leftarrow> release_mem_region s;
                         s \<leftarrow> misc_deregister s;
                         Some (- ENOMEM, s) }
                  else
                    do { s \<leftarrow> write_background beige s;
                         s \<leftarrow> write_ball_pos 320 240 s;
                         Some (0, s) }))"

text \<open>The clean-up, call by call in its order; \<open>vga_ball_remove\<close> runs them all.\<close>

definition remove_calls :: "(drv \<Rightarrow> drv option) list" where
  "remove_calls = [iounmap, release_mem_region, misc_deregister]"

definition vga_ball_remove :: "drv \<Rightarrow> (int \<times> drv) option" where
  "vga_ball_remove s = map_option (Pair 0) (iter_opt (\<lambda>f. f) remove_calls s)"

subsection \<open>Registers\<close>

text \<open>The driver is in service: node, region and mapping are held.\<close>

definition in_service :: "drv \<Rightarrow> bool" where
  "in_service s \<longleftrightarrow> registered s \<and> region s \<and> mapped s \<and> virtbase (dev s) \<noteq> None"

definition hw_color :: "vga_hw \<Rightarrow> color" where
  "hw_color h = \<lparr>red = background_r h, green = background_g h, blue = background_b h\<rparr>"

lemma color_word_fields:
  "(ucast (drop_bit 16 (color_word c)) :: u8) = red c"
  "(ucast (drop_bit 8 (color_word c)) :: u8) = green c"
  "(ucast (color_word c) :: u8) = blue c"
  unfolding color_word_def
  by (rule bit_word_eqI; auto simp: bit_simps dest: bit_imp_le_length)+

lemma write_background_eq:
  assumes "in_service s"
  shows "\<exists>h. write_background c s = Some (s\<lparr>hw := h, dev := (dev s)\<lparr>dev_background := c\<rparr>\<rparr>) \<and>
    hw_color h = c \<and> hw_x h = hw_x (hw s) \<and> hw_y h = hw_y (hw s)"
proof -
  have "write_background c s = Some (s\<lparr>hw := hw_write 0 (color_word c) (hw s), dev := (dev s)\<lparr>dev_background := c\<rparr>\<rparr>)"
    using assms by (auto simp: write_background_def iowrite32_def in_service_def BG_COLOR_def)
  moreover have "hw_color (hw_write 0 (color_word c) (hw s)) = c"
    by (simp add: hw_write_def hw_color_def color_word_fields)
  ultimately show ?thesis by (auto simp: hw_write_def)
qed

lemma write_ball_pos_eq:
  assumes "in_service s"
  shows "write_ball_pos x y s =
    Some (s\<lparr>hw := (hw s)\<lparr>hw_x := if x \<le> 639 then x else hw_x (hw s), hw_y := if y \<le> 479 then y else hw_y (hw s)\<rparr>,
            dev := (dev s)\<lparr>dev_x := x, dev_y := y\<rparr>\<rparr>)"
proof -
  have "(ucast (drop_bit 2 BALL_X) :: 3 word) = 1" "(ucast (drop_bit 2 BALL_Y) :: 3 word) = 2"
    by (simp_all add: BALL_X_def BALL_Y_def drop_bit_eq_div)
  moreover have "(ucast (ucast z :: u32) :: u16) = z" for z :: u16
    by (rule bit_word_eqI) (auto simp: bit_simps)
  ultimately show ?thesis
    using assms by (auto simp: write_ball_pos_def iowrite32_def in_service_def hw_write_def)
qed

subsection \<open>Results\<close>

text \<open>
  \<open>shadow_ok\<close>: the driver's copy of the background is what the hardware shows, its copy of each
  coordinate is the hardware's whenever the hardware accepts it, and the hardware's own
  coordinates are on the screen.
\<close>

definition shadow_ok :: "drv \<Rightarrow> bool" where
  "shadow_ok s \<longleftrightarrow> dev_background (dev s) = hw_color (hw s) \<and>
     (dev_x (dev s) \<le> 639 \<longrightarrow> hw_x (hw s) = dev_x (dev s)) \<and>
     (dev_y (dev s) \<le> 479 \<longrightarrow> hw_y (hw s) = dev_y (dev s)) \<and>
     hw_x (hw s) \<le> 639 \<and> hw_y (hw s) \<le> 479"

lemma write_background_shadow:
  assumes "in_service s" "shadow_ok s"
  shows "\<exists>s'. write_background c s = Some s' \<and> in_service s' \<and> shadow_ok s' \<and> dev_background (dev s') = c"
  using write_background_eq [OF assms(1), of c] assms by (auto simp: in_service_def shadow_ok_def)

lemma write_ball_pos_shadow:
  assumes "in_service s" "shadow_ok s"
  shows "\<exists>s'. write_ball_pos x y s = Some s' \<and> in_service s' \<and> shadow_ok s' \<and>
    dev_x (dev s') = x \<and> dev_y (dev s') = y"
  using write_ball_pos_eq [OF assms(1), of x y] assms by (auto simp: in_service_def shadow_ok_def hw_color_def)

lemma probe_success:
  assumes "misc_register_rc K = 0" "of_address K \<noteq> None" "region_free K" "of_iomap_result K \<noteq> None"
  shows "\<exists>s'. vga_ball_probe K s = Some (0, s') \<and> in_service s' \<and> shadow_ok s' \<and>
    hw_color (hw s') = beige \<and> hw_x (hw s') = 320 \<and> hw_y (hw s') = 240"
proof -
  obtain r v where rv: "of_address K = Some r" "of_iomap_result K = Some v" using assms by auto
  let ?s = "s\<lparr>registered := True, region := True, dev := (dev s)\<lparr>res := Some r, virtbase := Some v\<rparr>, mapped := True\<rparr>"
  have "in_service ?s" by (simp add: in_service_def)
  then obtain h where h: "write_background beige ?s = Some (?s\<lparr>hw := h, dev := (dev ?s)\<lparr>dev_background := beige\<rparr>\<rparr>)"
    "hw_color h = beige" using write_background_eq by blast
  let ?s1 = "?s\<lparr>hw := h, dev := (dev ?s)\<lparr>dev_background := beige\<rparr>\<rparr>"
  have "in_service ?s1" by (simp add: in_service_def)
  note pos = write_ball_pos_eq [OF this, of 320 240]
  have "vga_ball_probe K s = Option.bind (write_background beige ?s) (\<lambda>s. Option.bind (write_ball_pos 320 240 s) (\<lambda>s. Some (0, s)))"
    using assms rv by (simp add: vga_ball_probe_def misc_register_def)
  with h pos rv show ?thesis
    by (simp add: in_service_def shadow_ok_def hw_color_def)
qed

text \<open>
  C7: Probing keeps no resource on failure: when the device node could be registered, a missing
  resource, a busy region and a failed mapping give their error code with node, region and
  mapping all released, and success leaves the driver in service with the beige background and
  the ball in the middle of the screen, in the driver's copy and in the hardware.
\<close>

theorem vga_ball_probe_result:
  assumes "misc_register_rc K = 0" "\<not> registered s" "\<not> region s" "\<not> mapped s"
  shows "\<exists>ret s'. vga_ball_probe K s = Some (ret, s') \<and>
    ret = (if of_address K = None then - ENOENT else if \<not> region_free K then - EBUSY
           else if of_iomap_result K = None then - ENOMEM else 0) \<and>
    (ret \<noteq> 0 \<longrightarrow> \<not> registered s' \<and> \<not> region s' \<and> \<not> mapped s' \<and> hw s' = hw s) \<and>
    (ret = 0 \<longrightarrow> in_service s' \<and> shadow_ok s' \<and> hw_color (hw s') = beige \<and> hw_x (hw s') = 320 \<and> hw_y (hw s') = 240)"
proof (cases "of_address K \<noteq> None \<and> region_free K \<and> of_iomap_result K \<noteq> None")
  case False
  with assms show ?thesis
    by (auto simp: vga_ball_probe_def misc_register_def misc_deregister_def release_mem_region_def errnos Let_def
        split: option.splits)
next
  case True
  with probe_success [of K s] assms(1) show ?thesis by auto
qed

definition fresh_drv :: drv where
  "fresh_drv = \<lparr>dev = \<lparr>res = None, virtbase = None, dev_background = \<lparr>red = 0, green = 0, blue = 0\<rparr>, dev_x = 0, dev_y = 0\<rparr>,
     registered = False, region = False, mapped = False, hw = hw_reset\<rparr>"

definition good_kernel :: kernel where
  "good_kernel = \<lparr>misc_register_rc = 0, of_address = Some (0xff200000, 16), region_free = True,
     of_iomap_result = Some 0xe0000000\<rparr>"

theorem vga_ball_probe_result_witness:
  "(\<exists>s'. vga_ball_probe good_kernel fresh_drv = Some (0, s') \<and> in_service s') \<and>
   (\<exists>s'. vga_ball_probe (good_kernel\<lparr>of_iomap_result := None\<rparr>) fresh_drv = Some (-12, s') \<and> \<not> registered s')"
  using vga_ball_probe_result [of good_kernel fresh_drv]
    vga_ball_probe_result [of "good_kernel\<lparr>of_iomap_result := None\<rparr>" fresh_drv]
  by (auto simp: good_kernel_def fresh_drv_def errnos)

text \<open>
  C38: The result of \<open>misc_register\<close> is lost: when it fails and everything else succeeds, probing
  still reports success although there is no device node; removing the driver then deregisters
  a node that was never registered.
\<close>

theorem vga_ball_probe_ignores_register:
  assumes "misc_register_rc K \<noteq> 0" "of_address K \<noteq> None" "region_free K" "of_iomap_result K \<noteq> None"
    and "\<not> registered s"
  shows "\<exists>s'. vga_ball_probe K s = Some (0, s') \<and> \<not> registered s' \<and> vga_ball_remove s' = None"
proof -
  obtain r v where rv: "of_address K = Some r" "of_iomap_result K = Some v" using assms by auto
  obtain s' where s': "vga_ball_probe K s = Some (0, s')" "registered s' = registered s"
    using assms rv
    by (simp add: vga_ball_probe_def misc_register_def write_background_def write_ball_pos_def iowrite32_def)
  have "vga_ball_remove s' = None"
    using assms(5) s'(2)
    by (auto simp: vga_ball_remove_def remove_calls_def iounmap_def release_mem_region_def misc_deregister_def)
  with s' assms(5) show ?thesis by simp
qed

theorem vga_ball_probe_ignores_register_witness:
  "\<exists>s'. vga_ball_probe (good_kernel\<lparr>misc_register_rc := -16\<rparr>) fresh_drv = Some (0, s') \<and> \<not> registered s'"
  using vga_ball_probe_ignores_register [of "good_kernel\<lparr>misc_register_rc := -16\<rparr>" fresh_drv]
  by (auto simp: good_kernel_def fresh_drv_def)

text \<open>The documented encoding of request codes: the request number is the low byte.\<close>

definition ioc_contract :: "ioc \<Rightarrow> ioc \<Rightarrow> bool" where
  "ioc_contract iow ior \<longleftrightarrow> (\<forall>t n z. ucast (iow t n z) = n \<and> ucast (ior t n z) = n)"

lemma ioc_distinct:
  assumes "ioc_contract iow ior"
  shows "VGA_BALL_WRITE_BACKGROUND iow \<noteq> VGA_BALL_READ_BACKGROUND ior"
    "VGA_BALL_WRITE_BACKGROUND iow \<noteq> VGA_BALL_SET_POS iow"
    "VGA_BALL_READ_BACKGROUND ior \<noteq> VGA_BALL_SET_POS iow"
proof -
  have "(ucast (VGA_BALL_WRITE_BACKGROUND iow) :: u8) = 1" "(ucast (VGA_BALL_READ_BACKGROUND ior) :: u8) = 2"
    "(ucast (VGA_BALL_SET_POS iow) :: u8) = 3"
    using assms by (simp_all add: ioc_contract_def VGA_BALL_WRITE_BACKGROUND_def VGA_BALL_READ_BACKGROUND_def
        VGA_BALL_SET_POS_def)
  then show "VGA_BALL_WRITE_BACKGROUND iow \<noteq> VGA_BALL_READ_BACKGROUND ior"
    "VGA_BALL_WRITE_BACKGROUND iow \<noteq> VGA_BALL_SET_POS iow"
    "VGA_BALL_READ_BACKGROUND ior \<noteq> VGA_BALL_SET_POS iow" by auto
qed

text \<open>
  C28: In service, every request with every argument address is answered without a fault and
  keeps the driver's copy consistent with the hardware; the answer is \<open>-EINVAL\<close> for an unknown
  request, \<open>-EACCES\<close> for an address user space may not use, and 0 otherwise, and a refused
  request changes nothing.
\<close>

theorem vga_ball_ioctl_safe:
  assumes "in_service s" "shadow_ok s"
  shows "\<exists>ret um' s'. vga_ball_ioctl iow ior vla cmd arg (um, s) = Some (ret, um', s') \<and>
    in_service s' \<and> shadow_ok s' \<and>
    ret = (if cmd \<notin> {VGA_BALL_WRITE_BACKGROUND iow, VGA_BALL_READ_BACKGROUND ior, VGA_BALL_SET_POS iow} then - EINVAL
           else if um arg = None then - EACCES else 0) \<and>
    (ret \<noteq> 0 \<longrightarrow> um' = um \<and> s' = s)"
proof (cases "um arg")
  case None
  with assms show ?thesis by (auto simp: vga_ball_ioctl_def Let_def)
next
  case (Some a)
  with assms write_background_shadow [OF assms, of "background a"]
    write_ball_pos_shadow [OF assms, of "ball_x a" "ball_y a"]
  show ?thesis by (auto simp: vga_ball_ioctl_def Let_def errnos)
qed

definition linux_iow :: ioc where
  "linux_iow t n z = push_bit 8 (ucast t OR push_bit 8 (of_nat z) OR 0x400000) OR ucast n"

definition linux_ior :: ioc where
  "linux_ior t n z = push_bit 8 (ucast t OR push_bit 8 (of_nat z) OR 0x800000) OR ucast n"

lemma low_byte: "(ucast (push_bit 8 w OR ucast n :: u32) :: u8) = n"
  by (rule bit_word_eqI) (auto simp: bit_simps)

lemma linux_ioc_contract: "ioc_contract linux_iow linux_ior"
  by (simp add: ioc_contract_def linux_iow_def linux_ior_def low_byte del: push_bit_or)

definition running_drv :: drv where
  "running_drv = fresh_drv\<lparr>dev := (dev fresh_drv)\<lparr>virtbase := Some 0xe0000000, dev_background := hw_color hw_reset,
     dev_x := 320, dev_y := 240\<rparr>, registered := True, region := True, mapped := True\<rparr>"

lemma running_drv_ok: "in_service running_drv" "shadow_ok running_drv"
  by (simp_all add: running_drv_def fresh_drv_def in_service_def shadow_ok_def hw_reset_def hw_color_def)

definition some_arg :: vga_ball_arg where
  "some_arg = \<lparr>background = beige, ball_x = 640, ball_y = 7\<rparr>"

theorem vga_ball_ioctl_safe_witness:
  "(\<exists>um' s'. vga_ball_ioctl linux_iow linux_ior some_arg (VGA_BALL_SET_POS linux_iow) 0 (Map.empty, running_drv) =
      Some (-13, um', s') \<and> s' = running_drv) \<and>
   (\<exists>um' s'. vga_ball_ioctl linux_iow linux_ior some_arg (VGA_BALL_SET_POS linux_iow) 0 ([0 \<mapsto> some_arg], running_drv) =
      Some (0, um', s') \<and> shadow_ok s')"
  using vga_ball_ioctl_safe [OF running_drv_ok, of linux_iow linux_ior some_arg "VGA_BALL_SET_POS linux_iow" 0 Map.empty]
    vga_ball_ioctl_safe [OF running_drv_ok, of linux_iow linux_ior some_arg "VGA_BALL_SET_POS linux_iow" 0 "[0 \<mapsto> some_arg]"]
  by (auto simp: errnos)

text \<open>
  C29: A colour written by one request is what the hardware shows and what a later read request
  returns to user space, to the last bit; the position fields the read returns are not the ball's
  but the uninitialised bytes of the handler's local variable.
\<close>

theorem vga_ball_background_roundtrip:
  assumes "ioc_contract iow ior" "in_service s" "um arg = Some a" "um arg' \<noteq> None"
  shows "\<exists>s'. vga_ball_ioctl iow ior vla (VGA_BALL_WRITE_BACKGROUND iow) arg (um, s) = Some (0, um, s') \<and>
    hw_color (hw s') = background a \<and>
    vga_ball_ioctl iow ior vla' (VGA_BALL_READ_BACKGROUND ior) arg' (um, s') =
      Some (0, um(arg' \<mapsto> \<lparr>background = background a, ball_x = ball_x vla', ball_y = ball_y vla'\<rparr>), s')"
proof -
  obtain h where "write_background (background a) s = Some (s\<lparr>hw := h, dev := (dev s)\<lparr>dev_background := background a\<rparr>\<rparr>)"
    "hw_color h = background a" using write_background_eq [OF assms(2)] by blast
  with assms ioc_distinct [OF assms(1)] show ?thesis
    by (cases vla') (auto simp: vga_ball_ioctl_def)
qed

theorem vga_ball_background_roundtrip_witness:
  "\<exists>s'. vga_ball_ioctl linux_iow linux_ior some_arg (VGA_BALL_WRITE_BACKGROUND linux_iow) 0 ([0 \<mapsto> some_arg], running_drv) =
     Some (0, [0 \<mapsto> some_arg], s') \<and> hw_color (hw s') = beige"
  using vga_ball_background_roundtrip [OF linux_ioc_contract running_drv_ok(1), of "[0 \<mapsto> some_arg]" 0 some_arg 0 some_arg some_arg]
  by (auto simp: some_arg_def)

text \<open>
  C39: Removal takes the mapping away before the device node: it releases everything, but after
  its first call the node is still there, and a request that arrives then faults.
\<close>

theorem vga_ball_remove_order:
  assumes "in_service s" "ioc_contract iow ior" "um arg = Some a"
  shows "\<exists>s1 s2. (hd remove_calls) s = Some s1 \<and> registered s1 \<and>
      vga_ball_ioctl iow ior vla (VGA_BALL_SET_POS iow) arg (um, s1) = None \<and>
      vga_ball_remove s = Some (0, s2) \<and> \<not> registered s2 \<and> \<not> region s2 \<and> \<not> mapped s2"
  using assms ioc_distinct [OF assms(2)]
  by (auto simp: remove_calls_def vga_ball_remove_def in_service_def iounmap_def release_mem_region_def
      misc_deregister_def vga_ball_ioctl_def write_ball_pos_def iowrite32_def)

theorem vga_ball_remove_order_witness:
  "\<exists>s1. (hd remove_calls) running_drv = Some s1 \<and> registered s1 \<and>
     vga_ball_ioctl linux_iow linux_ior some_arg (VGA_BALL_SET_POS linux_iow) 0 ([0 \<mapsto> some_arg], s1) = None"
  using vga_ball_remove_order [OF running_drv_ok(1) linux_ioc_contract, of "[0 \<mapsto> some_arg]" 0 some_arg some_arg] by auto

subsection \<open>The picture\<close>

lemma sint_11_bits:
  "sint (ucast (p :: 10 word) :: 11 word) = uint p"
  "uint (b :: u16) < 1024 \<Longrightarrow> sint (ucast b :: 11 word) = uint b"
proof -
  have p: "uint p < 1024" using uint_lt2p [of p] by simp
  then have "uint (ucast p :: 11 word) = uint p"
    by (simp add: unsigned_ucast_eq take_bit_int_eq_self)
  moreover have "- 1024 \<le> uint p" by (rule order_trans [of _ 0]) simp_all
  ultimately show "sint (ucast p :: 11 word) = uint p"
    using p by (simp add: sint_uint signed_take_bit_int_eq_self)
  assume b: "uint b < 1024"
  then have "uint (ucast b :: 11 word) = uint b"
    by (simp add: unsigned_ucast_eq take_bit_int_eq_self)
  moreover have "- 1024 \<le> uint b" by (rule order_trans [of _ 0]) simp_all
  ultimately show "sint (ucast b :: 11 word) = uint b"
    using b by (simp add: sint_uint signed_take_bit_int_eq_self)
qed

lemma diff_11_bits:
  assumes "uint (b :: u16) < 1024"
  shows "sint ((ucast (p :: 10 word) :: 11 word) - ucast b) = uint p - uint b"
proof -
  have p: "uint p < 1024" "0 \<le> uint p" "0 \<le> uint b" using uint_lt2p [of p] by simp_all
  have "sint ((ucast p :: 11 word) - ucast b) = signed_take_bit 10 (uint p - uint b)"
    using sint_word_ariths(2) [of "ucast p :: 11 word" "ucast b"] assms by (simp add: sint_11_bits)
  also have "\<dots> = uint p - uint b"
  proof (rule signed_take_bit_int_eq_self)
    have "(2 :: int) ^ 10 = 1024" by simp
    show "- (2 ^ 10) \<le> uint p - uint b" using p assms \<open>2 ^ 10 = 1024\<close> by linarith
    show "uint p - uint b < 2 ^ 10" using p assms \<open>2 ^ 10 = 1024\<close> by linarith
  qed
  finally show ?thesis .
qed

lemma square_22_bits:
  fixes d e :: "11 word"
  shows "uint (scast d * scast d + scast e * scast e :: 22 word) = sint d * sint d + sint e * sint e"
proof -
  have bound: "sint w * sint w \<le> 1048576" for w :: "11 word"
  proof -
    have "- 1024 \<le> sint w" "sint w \<le> 1024"
      using sint_ge [of w] sint_lt [of w] by auto
    then have "\<bar>sint w\<bar> \<le> 1024" by simp
    then have "\<bar>sint w\<bar> * \<bar>sint w\<bar> \<le> 1024 * 1024" by (intro mult_mono) auto
    then show ?thesis by simp
  qed
  define z where "z = sint d * sint d + sint e * sint e"
  have "(scast d * scast d + scast e * scast e :: 22 word) = word_of_int z"
    by (simp only: scast_eq z_def of_int_add of_int_mult)
  moreover have "0 \<le> z" "z < 2 ^ 22" using bound [of d] bound [of e] by (simp_all add: z_def)
  ultimately have "uint (scast d * scast d + scast e * scast e :: 22 word) = z"
    by (simp add: uint_word_of_int take_bit_int_eq_self)
  then show ?thesis by (simp only: z_def)
qed

text \<open>
  The picture: with a position in the registers, the hardware paints red exactly the pixels within 16 pixels
  of it, and every other visible pixel in the background colour.
\<close>

lemma pixel_disc:
  assumes "uint (hw_x h) < 1024" "uint (hw_y h) < 1024"
  shows "pixel_color h px py = (if (uint px - uint (hw_x h))\<^sup>2 + (uint py - uint (hw_y h))\<^sup>2 \<le> 256
     then \<lparr>red = 0xff, green = 0, blue = 0\<rparr> else hw_color h)"
proof -
  have "in_ball h px py \<longleftrightarrow> (uint px - uint (hw_x h))\<^sup>2 + (uint py - uint (hw_y h))\<^sup>2 \<le> 256"
    by (simp add: in_ball_def Let_def word_le_def square_22_bits diff_11_bits [OF assms(1)] diff_11_bits [OF assms(2)]
        power2_eq_square)
  then show ?thesis by (simp add: pixel_color_def hw_color_def)
qed

end
