(* ===== verification/BallApp.thy ===== *)
theory BallApp
  imports VgaBall
begin

text \<open>
  The user program of the ball, \<open>src/lab3/lab3-sw/hello.c\<close>: it opens the device, sets the
  background and moves the ball for 10000 frames, reversing at the walls.  Its requests go
  through the driver of \<open>VgaBall\<close>; the structure it passes lies at an address of its own stack,
  with the fields it does not set left as they were.

  The lemmas give the position of every frame in closed form and what the hardware shows.
\<close>

text \<open>A request: the argument structure at the stack address \<open>vla_addr\<close>.\<close>

definition vla_addr :: u32 where "vla_addr = 0x7efff000"

record app_env =
  iow_code :: ioc
  ior_code :: ioc
  kernel_stack :: vga_ball_arg
  user_stack :: vga_ball_arg

definition app_ioctl :: "app_env \<Rightarrow> u32 \<Rightarrow> vga_ball_arg \<Rightarrow> drv \<Rightarrow> (int \<times> drv) option" where
  "app_ioctl E cmd vla s =
     (case vga_ball_ioctl (iow_code E) (ior_code E) (kernel_stack E) cmd vla_addr ([vla_addr \<mapsto> vla], s) of
        None \<Rightarrow> None
      | Some (ret, um, s) \<Rightarrow> Some (ret, s))"

definition set_background_color :: "app_env \<Rightarrow> color \<Rightarrow> drv \<Rightarrow> drv option" where
  "set_background_color E c s =
     map_option snd (app_ioctl E (VGA_BALL_WRITE_BACKGROUND (iow_code E)) ((user_stack E)\<lparr>background := c\<rparr>) s)"

definition set_ball_pos :: "app_env \<Rightarrow> u16 \<Rightarrow> u16 \<Rightarrow> drv \<Rightarrow> drv option" where
  "set_ball_pos E x y s =
     map_option snd (app_ioctl E (VGA_BALL_SET_POS (iow_code E)) ((user_stack E)\<lparr>ball_x := x, ball_y := y\<rparr>) s)"

record ball =
  bx :: int
  b_y :: int
  dx :: int
  dy :: int

definition start_ball :: ball where
  "start_ball = \<lparr>bx = 320, b_y = 240, dx = 2, dy = 2\<rparr>"

definition move_ball :: "ball \<Rightarrow> ball" where
  "move_ball b =
     (let x = bx b + dx b; y = b_y b + dy b in
      \<lparr>bx = x, b_y = y, dx = (if x \<le> 0 \<or> 640 \<le> x then - dx b else dx b),
       dy = (if y \<le> 0 \<or> 480 \<le> y then - dy b else dy b)\<rparr>)"

text \<open>The frame loop: \<open>n\<close> frames are left.\<close>

fun frames :: "app_env \<Rightarrow> nat \<Rightarrow> ball \<times> drv \<Rightarrow> (ball \<times> drv) option" where
  "frames E 0 st = Some st"
| "frames E (Suc n) (b, s) =
     do { s \<leftarrow> set_ball_pos E (word_of_int (bx b)) (word_of_int (b_y b)) s;
          frames E n (move_ball b, s) }"

definition hello_main :: "app_env \<Rightarrow> bool \<Rightarrow> drv \<Rightarrow> (int \<times> drv) option" where
  "hello_main E opened s =
     (if \<not> opened then Some (-1, s)
      else do { s \<leftarrow> set_background_color E \<lparr>red = 0, green = 0, blue = 0x40\<rparr> s;
                st \<leftarrow> frames E 10000 (start_ball, s);
                Some (0, snd st) })"

subsection \<open>The path of the ball\<close>

text \<open>A triangle wave between 0 and \<open>w\<close>, at phase \<open>p\<close>.\<close>

definition wave :: "int \<Rightarrow> int \<Rightarrow> int" where
  "wave w p = (let m = p mod (2 * w) in if m \<le> w then m else 2 * w - m)"

definition rising :: "int \<Rightarrow> int \<Rightarrow> bool" where
  "rising w p \<longleftrightarrow> p mod (2 * w) < w"

definition ball_at :: "nat \<Rightarrow> ball" where
  "ball_at n = \<lparr>bx = wave 640 (320 + 2 * int n), b_y = wave 480 (240 + 2 * int n),
     dx = (if rising 640 (320 + 2 * int n) then 2 else -2), dy = (if rising 480 (240 + 2 * int n) then 2 else -2)\<rparr>"

lemma phase_step:
  assumes "even p" "0 < (w :: int)"
  obtains m where "p mod (2 * w) = 2 * m" "0 \<le> m" "m < w" "(p + 2) mod (2 * w) = (if m + 1 < w then 2 * (m + 1) else 0)"
proof -
  obtain k where k: "p = 2 * k" using assms(1) by (elim evenE)
  have "(k + 1) mod w = (if k mod w + 1 < w then k mod w + 1 else 0)"
  proof -
    have "(k + 1) mod w = (k mod w + 1) mod w" by (simp add: mod_add_left_eq)
    also have "\<dots> = (if k mod w + 1 < w then k mod w + 1 else 0)"
    proof (cases "k mod w + 1 < w")
      case True
      moreover have "0 \<le> k mod w" using assms(2) by simp
      ultimately show ?thesis by (simp add: mod_pos_pos_trivial)
    next
      case False
      moreover have "k mod w < w" using assms(2) by simp
      ultimately have "k mod w + 1 = w" by linarith
      then show ?thesis by (simp only: mod_self less_irrefl if_False)
    qed
    finally show ?thesis .
  qed
  moreover have "p mod (2 * w) = 2 * (k mod w)" by (simp only: k mult_mod_right)
  moreover have "(p + 2) mod (2 * w) = 2 * ((k + 1) mod w)"
    by (simp only: k mult_mod_right distrib_left mult_1_right)
  moreover have "0 \<le> k mod w" "k mod w < w" using assms(2) by simp_all
  ultimately show ?thesis using that [of "k mod w"] by simp
qed

lemma wave_step:
  assumes "2 < w" "even w" "even p"
  shows "wave w p + (if rising w p then 2 else -2) = wave w (p + 2)"
    and "(if wave w (p + 2) \<le> 0 \<or> w \<le> wave w (p + 2) then - (if rising w p then 2 else -2)
      else (if rising w p then 2 else -2)) = (if rising w (p + 2) then 2 else -2 :: int)"
proof -
  obtain v where v: "w = 2 * v" using assms(2) by (elim evenE)
  obtain m where m: "p mod (2 * w) = 2 * m" "0 \<le> m" "m < w"
    "(p + 2) mod (2 * w) = (if m + 1 < w then 2 * (m + 1) else 0)"
    using phase_step [OF assms(3), of w] assms(1) by auto
  note m = m assms(1)
  show "wave w p + (if rising w p then 2 else -2) = wave w (p + 2)"
    using m v by (auto simp: wave_def rising_def Let_def)
  show "(if wave w (p + 2) \<le> 0 \<or> w \<le> wave w (p + 2) then - (if rising w p then 2 else -2)
      else (if rising w p then 2 else -2)) = (if rising w (p + 2) then 2 else -2 :: int)"
    using m v by (auto simp: wave_def rising_def Let_def)
qed

lemma wave_range:
  assumes "0 < w"
  shows "0 \<le> wave w p \<and> wave w p \<le> w"
proof -
  have "0 \<le> p mod (2 * w)" "p mod (2 * w) < 2 * w" using assms by simp_all
  then show ?thesis by (auto simp: wave_def Let_def)
qed

lemma move_ball_at: "move_ball (ball_at n) = ball_at (Suc n)"
proof -
  have "320 + 2 * int (Suc n) = 320 + 2 * int n + 2" "240 + 2 * int (Suc n) = 240 + 2 * int n + 2" by simp_all
  note phase = this
  let ?p = "320 + 2 * int n" and ?q = "240 + 2 * int n"
  have x: "wave 640 ?p + (if rising 640 ?p then 2 else -2) = wave 640 (?p + 2)"
    "(if wave 640 (?p + 2) \<le> 0 \<or> 640 \<le> wave 640 (?p + 2) then - (if rising 640 ?p then 2 else -2)
      else (if rising 640 ?p then 2 else -2)) = (if rising 640 (?p + 2) then 2 else -2 :: int)"
    by (rule wave_step; simp)+
  have y: "wave 480 ?q + (if rising 480 ?q then 2 else -2) = wave 480 (?q + 2)"
    "(if wave 480 (?q + 2) \<le> 0 \<or> 480 \<le> wave 480 (?q + 2) then - (if rising 480 ?q then 2 else -2)
      else (if rising 480 ?q then 2 else -2)) = (if rising 480 (?q + 2) then 2 else -2 :: int)"
    by (rule wave_step; simp)+
  show ?thesis
    unfolding move_ball_def ball_at_def Let_def phase
    by (simp only: ball.select_convs x y)
qed

lemma start_ball_at: "start_ball = ball_at 0"
  by (simp add: start_ball_def ball_at_def wave_def rising_def)

lemma ball_on_screen: "0 \<le> bx (ball_at n) \<and> bx (ball_at n) \<le> 640 \<and> 0 \<le> b_y (ball_at n) \<and> b_y (ball_at n) \<le> 480"
  using wave_range [of 640] wave_range [of 480] by (simp add: ball_at_def)

subsection \<open>What the hardware shows\<close>

text \<open>
  The hardware refuses the column 640 and the row 480, so it shows there what the frame before
  had set.
\<close>

definition shown :: "int \<Rightarrow> int \<Rightarrow> int" where
  "shown w v = (if v = w then w - 2 else v)"

definition shows_ball :: "ball \<Rightarrow> drv \<Rightarrow> bool" where
  "shows_ball b s \<longleftrightarrow> uint (hw_x (hw s)) = shown 640 (bx b) \<and> uint (hw_y (hw s)) = shown 480 (b_y b)"

lemma set_ball_pos_eq:
  assumes "ioc_contract (iow_code E) (ior_code E)" "in_service s"
  shows "set_ball_pos E x y s = write_ball_pos x y s"
  using ioc_distinct [OF assms(1)] write_ball_pos_eq [OF assms(2)]
  by (simp add: set_ball_pos_def app_ioctl_def vga_ball_ioctl_def split: option.splits)

lemma set_background_color_eq:
  assumes "in_service s"
  shows "set_background_color E c s = write_background c s"
  using write_background_eq [OF assms, of c]
  by (auto simp: set_background_color_def app_ioctl_def vga_ball_ioctl_def)

lemma uint_u16_small: "0 \<le> v \<Longrightarrow> v < 65536 \<Longrightarrow> uint (word_of_int v :: u16) = v"
  by (simp add: uint_word_of_int take_bit_int_eq_self)

lemma wave_before_wall:
  assumes "2 < w" "even w" "even p" "wave w (p + 2) = w"
  shows "wave w p = w - 2"
  using wave_step(1) [OF assms(1-3)] wave_range [of w p] assms(1,4) by (auto split: if_splits)

lemma frame_shows:
  assumes "in_service s" "shows_ball (ball_at n) s"
  shows "\<exists>s'. write_ball_pos (word_of_int (bx (ball_at (Suc n)))) (word_of_int (b_y (ball_at (Suc n)))) s = Some s' \<and>
    in_service s' \<and> shows_ball (ball_at (Suc n)) s' \<and> hw_color (hw s') = hw_color (hw s)"
proof -
  let ?x = "bx (ball_at (Suc n))" and ?y = "b_y (ball_at (Suc n))"
  have r: "0 \<le> ?x \<and> ?x \<le> 640 \<and> 0 \<le> ?y \<and> ?y \<le> 480" by (rule ball_on_screen)
  have wall: "bx (ball_at n) = 638" if "?x = 640"
    using wave_before_wall [of 640 "320 + 2 * int n"] that by (simp add: ball_at_def add.commute add.left_commute)
  have wall': "b_y (ball_at n) = 478" if "?y = 480"
    using wave_before_wall [of 480 "240 + 2 * int n"] that by (simp add: ball_at_def add.commute add.left_commute)
  have ux: "uint (word_of_int ?x :: u16) = ?x" and uy: "uint (word_of_int ?y :: u16) = ?y"
    using r by (simp_all add: uint_u16_small)
  then have lx: "(word_of_int ?x :: u16) \<le> 639 \<longleftrightarrow> ?x \<noteq> 640" and ly: "(word_of_int ?y :: u16) \<le> 479 \<longleftrightarrow> ?y \<noteq> 480"
    using r by (auto simp: word_le_def)
  show ?thesis
    using assms write_ball_pos_eq [OF assms(1), of "word_of_int ?x" "word_of_int ?y"] wall wall' ux uy
    by (auto simp: lx ly shows_ball_def shown_def in_service_def hw_color_def)
qed

lemma frames_show:
  assumes "ioc_contract (iow_code E) (ior_code E)"
  shows "in_service s \<Longrightarrow> shows_ball (ball_at n) s \<Longrightarrow>
    \<exists>s'. frames E k (ball_at (Suc n), s) = Some (ball_at (Suc n + k), s') \<and> in_service s' \<and>
      shows_ball (ball_at (n + k)) s' \<and> hw_color (hw s') = hw_color (hw s)"
proof (induction k arbitrary: n s)
  case (Suc k)
  from frame_shows [OF Suc.prems] obtain s1 where
    s1: "write_ball_pos (word_of_int (bx (ball_at (Suc n)))) (word_of_int (b_y (ball_at (Suc n)))) s = Some s1"
      "in_service s1" "shows_ball (ball_at (Suc n)) s1" "hw_color (hw s1) = hw_color (hw s)" by blast
  from Suc.IH [OF s1(2,3)] s1 show ?case
    by (simp add: set_ball_pos_eq [OF assms Suc.prems(1)] move_ball_at)
qed simp

lemma first_frame:
  assumes "in_service s"
  shows "\<exists>s'. write_ball_pos 320 240 s = Some s' \<and> in_service s' \<and> shows_ball (ball_at 0) s' \<and>
    hw_color (hw s') = hw_color (hw s)"
  using assms write_ball_pos_eq [OF assms, of 320 240]
  by (auto simp: in_service_def shows_ball_def shown_def ball_at_def wave_def hw_color_def)

lemma frames_from_start:
  assumes "ioc_contract (iow_code E) (ior_code E)" "in_service s"
  shows "\<exists>s'. frames E (Suc k) (start_ball, s) = Some (ball_at (Suc k), s') \<and> in_service s' \<and>
    shows_ball (ball_at k) s' \<and> hw_color (hw s') = hw_color (hw s)"
proof -
  obtain s1 where s1: "write_ball_pos 320 240 s = Some s1" "in_service s1" "shows_ball (ball_at 0) s1"
    "hw_color (hw s1) = hw_color (hw s)" using first_frame [OF assms(2)] by blast
  have "frames E (Suc k) (start_ball, s) = frames E k (ball_at (Suc 0), s1)"
    using s1(1) move_ball_at [of 0]
    by (simp add: set_ball_pos_eq [OF assms] start_ball_at [symmetric]) (simp add: start_ball_def)
  with frames_show [OF assms(1) s1(2,3), of k] s1(4) show ?thesis by simp
qed

text \<open>
  C30: The ball bounces on the screen: after every number of frames the program's position is the
  triangle wave between the walls (columns 0 to 640 and rows 0 to 480), no request fails, and the
  hardware shows that position, except on the column 640 and the row 480, which it refuses and
  where the ball stays one frame longer on the column 638 and the row 478.
\<close>

theorem frames_bounce:
  assumes "ioc_contract (iow_code E) (ior_code E)" "in_service s"
  shows "\<exists>b s'. frames E k (start_ball, s) = Some (ball_at k, s') \<and> in_service s' \<and>
    (0 < k \<longrightarrow> b = ball_at (k - 1) \<and> 0 \<le> bx b \<and> bx b \<le> 640 \<and> 0 \<le> b_y b \<and> b_y b \<le> 480 \<and>
       uint (hw_x (hw s')) = (if bx b = 640 then 638 else bx b) \<and>
       uint (hw_y (hw s')) = (if b_y b = 480 then 478 else b_y b))"
proof (cases k)
  case 0
  with assms show ?thesis by (simp add: start_ball_at)
next
  case (Suc n)
  with frames_from_start [OF assms, of n] ball_on_screen [of n] show ?thesis
    by (auto simp: shows_ball_def shown_def)
qed

definition test_env :: app_env where
  "test_env = \<lparr>iow_code = linux_iow, ior_code = linux_ior, kernel_stack = some_arg, user_stack = some_arg\<rparr>"

lemma test_env_ok: "ioc_contract (iow_code test_env) (ior_code test_env)"
  by (simp add: test_env_def linux_ioc_contract)

theorem frames_bounce_witness:
  "\<exists>s'. frames test_env 161 (start_ball, running_drv) = Some (ball_at 161, s') \<and> uint (hw_x (hw s')) = 638"
  using frames_bounce [OF test_env_ok running_drv_ok(1), of 161] by (auto simp: ball_at_def wave_def)

text \<open>
  C31: The whole program: without the device it returns -1 and does nothing; otherwise it returns
  0 after its 10000 frames with the dark blue background and the ball at column 162, row 78 --
  not at (320, 240), the place its last message names.
\<close>

theorem hello_main_result:
  assumes "ioc_contract (iow_code E) (ior_code E)" "in_service s"
  shows "hello_main E False s = Some (-1, s) \<and>
    (\<exists>s'. hello_main E True s = Some (0, s') \<and> in_service s' \<and>
      hw_color (hw s') = \<lparr>red = 0, green = 0, blue = 0x40\<rparr> \<and> hw_x (hw s') = 162 \<and> hw_y (hw s') = 78)"
proof
  show "hello_main E False s = Some (-1, s)" by (simp add: hello_main_def)
  let ?c = "\<lparr>red = 0, green = 0, blue = 0x40\<rparr> :: color"
  obtain s1 where s1: "write_background ?c s = Some s1" "in_service s1" "hw_color (hw s1) = ?c"
    using write_background_eq [OF assms(2), of ?c] assms(2) by (auto simp: in_service_def)
  obtain s2 where s2: "frames E (Suc 9999) (start_ball, s1) = Some (ball_at (Suc 9999), s2)" "in_service s2"
    "shows_ball (ball_at 9999) s2" "hw_color (hw s2) = ?c"
    using frames_from_start [OF assms(1) s1(2), of 9999] s1(3) by auto
  have "uint (hw_x (hw s2)) = uint (162 :: u16)" "uint (hw_y (hw s2)) = uint (78 :: u16)"
    using s2(3) by (simp_all add: shows_ball_def shown_def ball_at_def wave_def)
  then have "hw_x (hw s2) = 162" "hw_y (hw s2) = 78" by (simp_all only: word_uint_eq_iff)
  moreover have "Suc 9999 = 10000" by simp
  ultimately show "\<exists>s'. hello_main E True s = Some (0, s') \<and> in_service s' \<and>
      hw_color (hw s') = ?c \<and> hw_x (hw s') = 162 \<and> hw_y (hw s') = 78"
    using s1(1) s2 by (simp add: hello_main_def set_background_color_eq [OF assms(2)] del: frames.simps)
qed

theorem hello_main_result_witness:
  "\<exists>s'. hello_main test_env True running_drv = Some (0, s') \<and> hw_x (hw s') = 162"
  using hello_main_result [OF test_env_ok running_drv_ok(1)] by auto

end
