(* ===== verification/Clocked.thy ===== *)
theory Clocked
  imports Prelude
begin

text \<open>
  Synchronous hardware.  A module is a record of its registers and a function that gives the registers
  after a rising edge of the clock from the inputs and the registers before it: every right-hand side of a
  non-blocking assignment reads the registers before the edge, and of several assignments to one
  register the last wins.  Registers that the source does not initialise may hold
  anything, so the theorems hold for every initial state.

  \<open>run step inp s t\<close> are the registers after \<open>t\<close> edges with the inputs \<open>inp\<close>; the interface \<open>clocked\<close> is
  a step with an invariant it keeps under a condition on the inputs.
\<close>

primrec run :: "('i \<Rightarrow> 's \<Rightarrow> 's) \<Rightarrow> (nat \<Rightarrow> 'i) \<Rightarrow> 's \<Rightarrow> nat \<Rightarrow> 's" where
  "run step inp s 0 = s"
| "run step inp s (Suc t) = step (inp t) (run step inp s t)"

lemma run_add: "run step inp s (t + u) = run step (\<lambda>k. inp (t + k)) (run step inp s t) u"
  by (induction u) simp_all

lemma run_cong:
  assumes "\<And>k. k < t \<Longrightarrow> inp k = inp' k"
  shows "run step inp s t = run step inp' s t"
  using assms by (induction t) simp_all

lemma run_Suc_first: "run step inp s (Suc t) = run step (\<lambda>k. inp (Suc k)) (step (inp 0) s) t"
  using run_add [of step inp s 1 t] by simp

lemma run_const: "run step (\<lambda>_. i) s t = (step i ^^ t) s"
  by (induction t) simp_all

text \<open>A part of a module steps on its own when its next value depends on nothing else.\<close>

lemma run_part:
  assumes "\<And>i s. part (step i s) = step' (f i s) (part s)"
  shows "part (run step inp s t) = run step' (\<lambda>k. f (inp k) (run step inp s k)) (part s) t"
  by (induction t) (simp_all add: assms)

text \<open>Slices of a register.\<close>

lemma unat_slice:
  "unat (drop_bit k w) = unat w div 2 ^ k"
  "unat (ucast w :: 'b :: len word) = unat (w :: 'a :: len word) mod 2 ^ LENGTH('b)"
  by (simp_all add: unat_drop_bit_eq unsigned_ucast_eq take_bit_eq_mod flip: drop_bit_eq_div)

lemma bit_unat: "bit w k \<longleftrightarrow> odd (unat (w :: 'a :: len word) div 2 ^ k)"
  using bit_unsigned_iff [where ?'a = nat, of w k] bit_imp_le_length [of w k] by (auto simp: bit_iff_odd)

locale clocked =
  fixes step :: "'i \<Rightarrow> 's \<Rightarrow> 's" and ok :: "'i \<Rightarrow> bool" and inv :: "'s \<Rightarrow> bool"
  assumes inv_step: "ok i \<Longrightarrow> inv s \<Longrightarrow> inv (step i s)"
begin

lemma run_inv:
  assumes "inv s" and "\<And>k. k < t \<Longrightarrow> ok (inp k)"
  shows "inv (run step inp s t)"
  using assms(2) by (induction t) (simp_all add: assms(1) inv_step)

end

end
