(* ===== verification/VgaCounters.thy ===== *)
theory VgaCounters
  imports VgaBall Clocked
begin

text \<open>
  The rest of \<open>src/lab3/vga_ball.sv\<close>: the counters of \<open>vga_counters\<close>, the signals derived from them, and the whole
  module, whose clock edge updates the registers of \<open>VgaBall\<close> and the counters together.  The reset of the
  counters is asynchronous in the source; at a clock edge it has the same effect.

  The lemmas give the counters and signals in closed form, and the colour of every clock of a frame.  The
  last theorem goes all the way from a request of a user program to the pixels on the screen.
\<close>

subsection \<open>The counters\<close>

record counters =
  hcount :: "11 word"
  vcount :: "10 word"

definition HACTIVE :: "11 word" where [bounds_simps]: "HACTIVE = 1280"
definition HFRONT_PORCH :: "11 word" where [bounds_simps]: "HFRONT_PORCH = 32"
definition HSYNC :: "11 word" where [bounds_simps]: "HSYNC = 192"
definition HBACK_PORCH :: "11 word" where [bounds_simps]: "HBACK_PORCH = 96"
definition HTOTAL :: "11 word" where [bounds_simps]: "HTOTAL = HACTIVE + HFRONT_PORCH + HSYNC + HBACK_PORCH"
definition VACTIVE :: "10 word" where [bounds_simps]: "VACTIVE = 480"
definition VFRONT_PORCH :: "10 word" where [bounds_simps]: "VFRONT_PORCH = 10"
definition VSYNC :: "10 word" where [bounds_simps]: "VSYNC = 2"
definition VBACK_PORCH :: "10 word" where [bounds_simps]: "VBACK_PORCH = 33"
definition VTOTAL :: "10 word" where [bounds_simps]: "VTOTAL = VACTIVE + VFRONT_PORCH + VSYNC + VBACK_PORCH"

definition endOfLine :: "counters \<Rightarrow> bool" where
  "endOfLine c \<longleftrightarrow> hcount c = HTOTAL - 1"

definition endOfField :: "counters \<Rightarrow> bool" where
  "endOfField c \<longleftrightarrow> vcount c = VTOTAL - 1"

definition counters_step :: "bool \<Rightarrow> counters \<Rightarrow> counters" where
  "counters_step reset c =
     \<lparr>hcount = (if reset then 0 else if endOfLine c then 0 else hcount c + 1),
      vcount = (if reset then 0
                else if endOfLine c then (if endOfField c then 0 else vcount c + 1) else vcount c)\<rparr>"

definition VGA_HS :: "counters \<Rightarrow> bool" where
  "VGA_HS c \<longleftrightarrow> \<not> (drop_bit 8 (hcount c) = 5 \<and> \<not> (ucast (drop_bit 5 (hcount c)) :: 3 word) = 7)"

definition VGA_VS :: "counters \<Rightarrow> bool" where
  "VGA_VS c \<longleftrightarrow> \<not> drop_bit 1 (vcount c) = (VACTIVE + VFRONT_PORCH) div 2"

definition VGA_SYNC_n :: "counters \<Rightarrow> bool" where
  "VGA_SYNC_n c \<longleftrightarrow> False"

definition VGA_BLANK_n :: "counters \<Rightarrow> bool" where
  "VGA_BLANK_n c \<longleftrightarrow> \<not> (bit (hcount c) 10 \<and> (bit (hcount c) 9 \<or> bit (hcount c) 8)) \<and>
     \<not> (bit (vcount c) 9 \<or> (ucast (drop_bit 5 (vcount c)) :: 4 word) = 15)"

definition VGA_CLK :: "counters \<Rightarrow> bool" where
  "VGA_CLK c \<longleftrightarrow> bit (hcount c) 0"

subsection \<open>The module\<close>

record vga_in =
  in_reset :: bool
  in_writedata :: u32
  in_write :: bool
  in_chipselect :: bool
  in_address :: "3 word"

record vga_ball =
  regs :: vga_hw
  cnt :: counters

definition vga_ball_step :: "vga_in \<Rightarrow> vga_ball \<Rightarrow> vga_ball" where
  "vga_ball_step i s =
     \<lparr>regs = (if in_reset i then hw_reset
              else if in_chipselect i \<and> in_write i then hw_write (in_address i) (in_writedata i) (regs s) else regs s),
      cnt = counters_step (in_reset i) (cnt s)\<rparr>"

definition black :: color where
  "black = \<lparr>red = 0, green = 0, blue = 0\<rparr>"

definition vga_rgb :: "vga_ball \<Rightarrow> color" where
  "vga_rgb s =
     (if VGA_BLANK_n (cnt s) then pixel_color (regs s) (ucast (drop_bit 1 (hcount (cnt s)))) (vcount (cnt s)) else black)"

subsection \<open>Closed form\<close>

definition counters_ok :: "counters \<Rightarrow> bool" where
  "counters_ok c \<longleftrightarrow> unat (hcount c) < 1600 \<and> unat (vcount c) < 525"

text \<open>Clock number of a position, from the start of the frame.\<close>

definition clock_of :: "counters \<Rightarrow> nat" where
  "clock_of c = 1600 * unat (vcount c) + unat (hcount c)"

lemma clock_of_inverse:
  assumes "counters_ok c"
  shows "unat (hcount c) = clock_of c mod 1600" "unat (vcount c) = clock_of c div 1600" "clock_of c < 840000"
  using assms by (auto simp: counters_ok_def clock_of_def)

lemma end_iff:
  "endOfLine c \<longleftrightarrow> unat (hcount c) = 1599" "endOfField c \<longleftrightarrow> unat (vcount c) = 524"
  by (simp_all add: endOfLine_def endOfField_def bounds_simps word_unat_eq_iff)

lemma counters_step_clock:
  assumes "counters_ok c"
  shows "counters_ok (counters_step False c)" and "clock_of (counters_step False c) = Suc (clock_of c) mod 840000"
proof -
  let ?h = "unat (hcount c)" and ?v = "unat (vcount c)"
  have b: "?h < 1600" "?v < 525" using assms by (auto simp: counters_ok_def)
  have h: "unat (hcount c + 1) = ?h + 1" and v: "unat (vcount c + 1) = ?v + 1"
    using b by (auto simp: unat_word_ariths)
  have "unat (hcount (counters_step False c)) = (if ?h = 1599 then 0 else ?h + 1)"
    "unat (vcount (counters_step False c)) = (if ?h = 1599 then (if ?v = 524 then 0 else ?v + 1) else ?v)"
    by (auto simp: counters_step_def end_iff h v)
  with b show "counters_ok (counters_step False c)" "clock_of (counters_step False c) = Suc (clock_of c) mod 840000"
    by (auto simp: counters_ok_def clock_of_def mod_Suc)
qed

interpretation vga: clocked counters_step "\<lambda>_. True" counters_ok
  using counters_step_clock(1) by unfold_locales (auto simp: counters_step_def counters_ok_def)

lemma counters_run:
  assumes "counters_ok c" and "\<And>k. k < t \<Longrightarrow> \<not> inp k"
  shows "clock_of (run counters_step inp c t) = (clock_of c + t) mod 840000"
  using assms(2)
proof (induction t)
  case 0
  show ?case using clock_of_inverse(3) [OF assms(1)] by simp
next
  case (Suc t)
  then show ?case
    using counters_step_clock(2) [OF vga.run_inv [OF assms(1)], of t inp] by (simp add: mod_Suc_eq)
qed

text \<open>The two parts of the module.\<close>

lemma cnt_run: "cnt (run vga_ball_step inp s t) = run counters_step (\<lambda>k. in_reset (inp k)) (cnt s) t"
  by (rule run_part) (simp add: vga_ball_step_def)

definition quiet :: "vga_in \<Rightarrow> bool" where
  "quiet i \<longleftrightarrow> \<not> in_reset i \<and> \<not> (in_chipselect i \<and> in_write i)"

lemma regs_run:
  assumes "\<And>k. k < t \<Longrightarrow> quiet (inp k)"
  shows "regs (run vga_ball_step inp s t) = regs s"
  using assms by (induction t) (auto simp: vga_ball_step_def quiet_def)

text \<open>The signals as intervals of the counters.\<close>

lemma nat_less_8_cases:
  assumes "(n :: nat) < 8"
  obtains "n = 0" | "n = 1" | "n = 2" | "n = 3" | "n = 4" | "n = 5" | "n = 6" | "n = 7"
  using assms by linarith

lemma signals_iff:
  assumes "counters_ok c"
  shows "VGA_HS c \<longleftrightarrow> \<not> (1280 \<le> unat (hcount c) \<and> unat (hcount c) < 1504)"
    and "VGA_VS c \<longleftrightarrow> unat (vcount c) \<noteq> 490 \<and> unat (vcount c) \<noteq> 491"
    and "VGA_BLANK_n c \<longleftrightarrow> unat (hcount c) < 1280 \<and> unat (vcount c) < 480"
    and "VGA_CLK c \<longleftrightarrow> odd (unat (hcount c))"
proof -
  let ?h = "unat (hcount c)" and ?v = "unat (vcount c)"
  have b: "?h < 1600" "?v < 525" using assms by (auto simp: counters_ok_def)
  define m where "m = ?h div 32"
  have m: "?h div 256 = m div 8" "1280 \<le> ?h \<longleftrightarrow> 40 \<le> m" "?h < 1504 \<longleftrightarrow> m < 47"
    unfolding m_def by (simp_all add: div_mult2_eq [symmetric]) linarith+
  have hs: "?h div 256 = 5 \<and> ?h div 32 mod 8 \<noteq> 7 \<longleftrightarrow> 1280 \<le> ?h \<and> ?h < 1504"
    unfolding m m_def [symmetric] by presburger
  show "VGA_HS c \<longleftrightarrow> \<not> (1280 \<le> ?h \<and> ?h < 1504)"
    using hs by (simp add: VGA_HS_def word_unat_eq_iff unat_slice)
  have "?v div 2 = 245 \<longleftrightarrow> ?v = 490 \<or> ?v = 491" by presburger
  then show "VGA_VS c \<longleftrightarrow> ?v \<noteq> 490 \<and> ?v \<noteq> 491"
    by (simp add: VGA_VS_def word_unat_eq_iff unat_slice bounds_simps unat_div)
  define k where "k = ?h div 256"
  have k: "?h div 1024 = k div 4" "?h div 512 = k div 2" "k < 8" "?h < 1280 \<longleftrightarrow> k < 5"
    using b unfolding k_def by (simp_all add: div_mult2_eq [symmetric]) linarith+
  have line: "odd (?h div 1024) \<and> (odd (?h div 512) \<or> odd (?h div 256)) \<longleftrightarrow> \<not> ?h < 1280"
    unfolding k(1,2,4) k_def [symmetric] using k(3) by (cases rule: nat_less_8_cases) simp_all
  define r where "r = ?v div 32"
  have r: "?v div 512 = r div 16" "r < 17" "?v < 480 \<longleftrightarrow> r < 15"
    using b unfolding r_def by (simp_all add: div_mult2_eq [symmetric]) linarith+
  have rows: "odd (?v div 512) \<or> ?v div 32 mod 16 = 15 \<longleftrightarrow> \<not> ?v < 480"
    unfolding r(1,3) r_def [symmetric] using r(2) by presburger
  show "VGA_BLANK_n c \<longleftrightarrow> ?h < 1280 \<and> ?v < 480"
    using line rows by (simp add: VGA_BLANK_n_def bit_unat word_unat_eq_iff unat_slice)
  show "VGA_CLK c \<longleftrightarrow> odd ?h" by (simp add: VGA_CLK_def bit_unat)
qed

text \<open>
  C17: The video timing: after a clock with reset the counters follow the clocks, 1600 to a line and 525
  lines to a frame, whatever is written to the registers meanwhile.  The picture is visible in the
  first 1280 clocks of the first 480 lines, the pixel clock has half the rate, vertical sync is low in
  lines 490 and 491, and horizontal sync is low from clock 1280 to 1503 of every line.
\<close>

theorem vga_timing:
  assumes "in_reset (inp 0)" and "\<And>k. 0 < k \<Longrightarrow> k \<le> t \<Longrightarrow> \<not> in_reset (inp k)"
    and "c = cnt (run vga_ball_step inp s (Suc t))"
  shows "unat (hcount c) = t mod 1600 \<and> unat (vcount c) = t div 1600 mod 525 \<and>
    (VGA_BLANK_n c \<longleftrightarrow> t mod 1600 < 1280 \<and> t div 1600 mod 525 < 480) \<and>
    (VGA_HS c \<longleftrightarrow> \<not> (1280 \<le> t mod 1600 \<and> t mod 1600 < 1504)) \<and>
    (VGA_VS c \<longleftrightarrow> t div 1600 mod 525 \<notin> {490, 491}) \<and> (VGA_CLK c \<longleftrightarrow> odd t)"
proof -
  let ?z = "counters_step True (cnt s)"
  have z: "counters_ok ?z" "clock_of ?z = 0" by (auto simp: counters_step_def counters_ok_def clock_of_def)
  have c: "c = run counters_step (\<lambda>k. in_reset (inp (Suc k))) ?z t"
    using assms(1) by (simp add: assms(3) cnt_run run_Suc_first vga_ball_step_def del: run.simps)
  then have ok: "counters_ok c" by (simp add: vga.run_inv [OF z(1)])
  have clk: "clock_of c = t mod 840000" using counters_run [OF z(1)] assms(2) z(2) by (simp add: c)
  have "unat (hcount c) = t mod 1600" "unat (vcount c) = t div 1600 mod 525"
    using clock_of_inverse [OF ok] mod_mult2_eq [of t 1600 525] by (simp_all add: clk)
  moreover have "odd (t mod 1600) \<longleftrightarrow> odd t" by (simp add: dvd_mod_iff)
  ultimately show ?thesis using signals_iff [OF ok] by simp
qed

definition idle_in :: vga_in where
  "idle_in = \<lparr>in_reset = False, in_writedata = 0, in_write = False, in_chipselect = False, in_address = 0\<rparr>"

theorem vga_timing_witness:
  "let c = cnt (run vga_ball_step ((\<lambda>_. idle_in)(0 := idle_in\<lparr>in_reset := True\<rparr>)) \<lparr>regs = hw_reset, cnt = \<lparr>hcount = 7, vcount = 9\<rparr>\<rparr> (Suc 841299))
   in unat (hcount c) = 1299 \<and> unat (vcount c) = 0 \<and> \<not> VGA_HS c \<and> \<not> VGA_BLANK_n c"
  using vga_timing [OF _ _ refl, of "(\<lambda>_. idle_in)(0 := idle_in\<lparr>in_reset := True\<rparr>)" 841299
      "\<lparr>regs = hw_reset, cnt = \<lparr>hcount = 7, vcount = 9\<rparr>\<rparr>"]
  by (simp add: idle_in_def Let_def del: run.simps)

subsection \<open>Frames\<close>

lemma frame_colour:
  assumes "clock_of (cnt s) = 0" "counters_ok (cnt s)" and quiet: "\<And>k. k < t \<Longrightarrow> quiet (inp k)" and "t < 840000"
  shows "vga_rgb (run vga_ball_step inp s t) =
    (if t mod 1600 < 1280 \<and> t div 1600 < 480 then pixel_color (regs s) (of_nat (t mod 1600 div 2)) (of_nat (t div 1600))
     else black)"
proof -
  let ?c = "cnt (run vga_ball_step inp s t)"
  have ok: "counters_ok ?c" by (simp add: cnt_run vga.run_inv assms(2))
  have "clock_of ?c = t"
    using counters_run [OF assms(2), of t "\<lambda>k. in_reset (inp k)"] quiet assms(1,4) by (simp add: cnt_run quiet_def)
  then have hv: "unat (hcount ?c) = t mod 1600" "unat (vcount ?c) = t div 1600"
    using clock_of_inverse [OF ok] by simp_all
  have "unat (ucast (drop_bit 1 (hcount ?c)) :: 10 word) = t mod 1600 div 2"
    by (simp add: unat_slice hv)
  then have pixel: "ucast (drop_bit 1 (hcount ?c)) = (of_nat (t mod 1600 div 2) :: 10 word)" "vcount ?c = of_nat (t div 1600)"
    using assms(4) by (simp_all add: word_unat_eq_iff hv unat_of_nat_small)
  have visible: "VGA_BLANK_n ?c \<longleftrightarrow> t mod 1600 < 1280 \<and> t div 1600 < 480"
    using signals_iff(3) [OF ok] by (simp add: hv)
  have "regs (run vga_ball_step inp s t) = regs s" by (rule regs_run) (rule quiet)
  then show ?thesis by (simp only: vga_rgb_def visible pixel)
qed

text \<open>A whole frame: a disc around the position in the registers, for two clocks each pixel.\<close>

definition disc_frame :: "int \<Rightarrow> int \<Rightarrow> color \<Rightarrow> nat \<Rightarrow> color" where
  "disc_frame bx b_y bg t = (let x = int (t mod 1600 div 2); y = int (t div 1600)
     in if 640 \<le> x \<or> 480 \<le> y then black
        else if (x - bx)\<^sup>2 + (y - b_y)\<^sup>2 \<le> 256 then \<lparr>red = 0xff, green = 0, blue = 0\<rparr> else bg)"

lemma frame_disc:
  assumes "uint (hw_x (regs s)) < 1024" "uint (hw_y (regs s)) < 1024"
    and "cnt s = \<lparr>hcount = 0, vcount = 0\<rparr>" "\<forall>k<t. quiet (inp k)" "t < 840000"
  shows "vga_rgb (run vga_ball_step inp s t) = disc_frame (uint (hw_x (regs s))) (uint (hw_y (regs s))) (hw_color (regs s)) t"
proof -
  have "t mod 1600 div 2 < 1024" "t div 1600 < 1024" using assms(5) by linarith+
  then have "uint (of_nat (t mod 1600 div 2) :: 10 word) = int (t mod 1600 div 2)"
    "uint (of_nat (t div 1600) :: 10 word) = int (t div 1600)"
    by (simp_all add: unsigned_of_nat take_bit_nat_eq_self)
  moreover have "counters_ok (cnt s)" "clock_of (cnt s) = 0" by (simp_all add: assms(3) counters_ok_def clock_of_def)
  moreover have "t mod 1600 < 1280 \<and> t div 1600 < 480 \<longleftrightarrow> \<not> (640 \<le> int (t mod 1600 div 2) \<or> 480 \<le> int (t div 1600))"
    by linarith
  ultimately show ?thesis
    using frame_colour [of s t inp] assms(4,5) pixel_disc [OF assms(1,2)] by (simp add: disc_frame_def Let_def)
qed

text \<open>
  C15: From a request to the picture: when a user program sets a position on the screen, the driver answers
  0, and every frame that starts with those registers and in which nothing is written shows, for two
  clocks each, the 640 by 480 pixels of a red disc of radius 16 around that position on the
  background the driver has stored, and black in all other clocks.
\<close>

theorem set_pos_shown:
  assumes "in_service d" "shadow_ok d" "ioc_contract iow ior" "um arg = Some a" "ball_x a \<le> 639" "ball_y a \<le> 479"
  shows "\<exists>d'. vga_ball_ioctl iow ior vla (VGA_BALL_SET_POS iow) arg (um, d) = Some (0, um, d') \<and>
    (\<forall>s inp t. regs s = hw d' \<longrightarrow> cnt s = \<lparr>hcount = 0, vcount = 0\<rparr> \<longrightarrow> (\<forall>k<t. quiet (inp k)) \<longrightarrow> t < 840000 \<longrightarrow>
       vga_rgb (run vga_ball_step inp s t) =
         (let x = int (t mod 1600 div 2); y = int (t div 1600)
          in if 640 \<le> x \<or> 480 \<le> y then black
             else if (x - uint (ball_x a))\<^sup>2 + (y - uint (ball_y a))\<^sup>2 \<le> 256 then \<lparr>red = 0xff, green = 0, blue = 0\<rparr>
             else dev_background (dev d)))"
proof -
  obtain d' where d': "write_ball_pos (ball_x a) (ball_y a) d = Some d'" "shadow_ok d'"
    "hw_x (hw d') = ball_x a" "hw_y (hw d') = ball_y a" "dev_background (dev d') = dev_background (dev d)"
    using write_ball_pos_eq [OF assms(1), of "ball_x a" "ball_y a"] assms(2,5,6)
    by (auto simp: shadow_ok_def hw_color_def)
  have "vga_ball_ioctl iow ior vla (VGA_BALL_SET_POS iow) arg (um, d) = Some (0, um, d')"
    using assms(4) d'(1) ioc_distinct [OF assms(3)] by (simp add: vga_ball_ioctl_def)
  moreover have "uint (hw_x (hw d')) < 1024" "uint (hw_y (hw d')) < 1024" "hw_color (hw d') = dev_background (dev d)"
    using d' by (auto simp: shadow_ok_def word_le_def)
  then have "vga_rgb (run vga_ball_step inp s t) = disc_frame (uint (ball_x a)) (uint (ball_y a)) (dev_background (dev d)) t"
    if "regs s = hw d'" "cnt s = \<lparr>hcount = 0, vcount = 0\<rparr>" "\<forall>k<t. quiet (inp k)" "t < 840000" for s inp t
    using frame_disc [of s t inp] that d'(3,4) by simp
  ultimately show ?thesis unfolding disc_frame_def by blast
qed

theorem set_pos_shown_witness:
  "\<exists>d'. vga_ball_ioctl linux_iow linux_ior some_arg (VGA_BALL_SET_POS linux_iow) 0
        ([0 \<mapsto> some_arg\<lparr>ball_x := 100\<rparr>], running_drv) = Some (0, [0 \<mapsto> some_arg\<lparr>ball_x := 100\<rparr>], d') \<and>
     vga_rgb (run vga_ball_step (\<lambda>_. idle_in) \<lparr>regs = hw d', cnt = \<lparr>hcount = 0, vcount = 0\<rparr>\<rparr> 16220) = \<lparr>red = 0xff, green = 0, blue = 0\<rparr> \<and>
     vga_rgb (run vga_ball_step (\<lambda>_. idle_in) \<lparr>regs = hw d', cnt = \<lparr>hcount = 0, vcount = 0\<rparr>\<rparr> 16300) = hw_color hw_reset"
proof -
  have q: "quiet idle_in" by (simp add: quiet_def idle_in_def)
  have bg: "dev_background (dev running_drv) = hw_color hw_reset" by (simp add: running_drv_def)
  have xy: "ball_x (some_arg\<lparr>ball_x := 100\<rparr>) = 100" "ball_y (some_arg\<lparr>ball_x := 100\<rparr>) = 7" by (simp_all add: some_arg_def)
  obtain d' where d': "vga_ball_ioctl linux_iow linux_ior some_arg (VGA_BALL_SET_POS linux_iow) 0
        ([0 \<mapsto> some_arg\<lparr>ball_x := 100\<rparr>], running_drv) = Some (0, [0 \<mapsto> some_arg\<lparr>ball_x := 100\<rparr>], d')"
    and shown: "\<And>s inp t. regs s = hw d' \<Longrightarrow> cnt s = \<lparr>hcount = 0, vcount = 0\<rparr> \<Longrightarrow> \<forall>k<t. quiet (inp k) \<Longrightarrow> t < 840000 \<Longrightarrow>
       vga_rgb (run vga_ball_step inp s t) =
         (let x = int (t mod 1600 div 2); y = int (t div 1600)
          in if 640 \<le> x \<or> 480 \<le> y then black
             else if (x - 100)\<^sup>2 + (y - 7)\<^sup>2 \<le> 256 then \<lparr>red = 0xff, green = 0, blue = 0\<rparr>
             else hw_color hw_reset)"
    using set_pos_shown [OF running_drv_ok linux_ioc_contract, of "[0 \<mapsto> some_arg\<lparr>ball_x := 100\<rparr>]" 0
        "some_arg\<lparr>ball_x := 100\<rparr>" some_arg] by (auto simp: xy bg)
  show ?thesis
    using d' shown [of "\<lparr>regs = hw d', cnt = \<lparr>hcount = 0, vcount = 0\<rparr>\<rparr>" 16220 "\<lambda>_. idle_in"]
      shown [of "\<lparr>regs = hw d', cnt = \<lparr>hcount = 0, vcount = 0\<rparr>\<rparr>" 16300 "\<lambda>_. idle_in"]
    by (simp add: q del: run.simps)
qed

end
