(* ===== verification/Collatz.thy ===== *)
theory Collatz
  imports Clocked
begin

text \<open>
  The Collatz iterator (\<open>src/lab1/collatz.sv\<close>) and the arithmetic of its sequence: the module works
  modulo \<open>2\<^sup>3\<^sup>2\<close>, \<open>collatz_word\<close>; as long as the values fit it follows \<open>collatz_next\<close> on the natural
  numbers, and for the numbers the switches of the board can reach they do.
\<close>

definition collatz_word :: "u32 \<Rightarrow> u32" where
  "collatz_word x = (if bit x 0 then x * 3 + 1 else drop_bit 1 x)"

record collatz =
  dout :: u32
  cdone :: bool

definition collatz_step :: "bool \<times> u32 \<Rightarrow> collatz \<Rightarrow> collatz" where
  "collatz_step i c = (case i of (go, n) \<Rightarrow>
     \<lparr>dout = (if go then n else if cdone c then dout c else collatz_word (dout c)),
      cdone = (if go then False else if dout c = 2 then True else cdone c)\<rparr>)"

subsection \<open>The sequence\<close>

definition collatz_next :: "nat \<Rightarrow> nat" where
  "collatz_next n = (if even n then n div 2 else 3 * n + 1)"

text \<open>\<open>reaches f k x\<close>: iterating \<open>f\<close> from \<open>x\<close> gives 1 after \<open>k\<close> steps, at least one, and not before.\<close>

definition reaches :: "('a :: one \<Rightarrow> 'a) \<Rightarrow> nat \<Rightarrow> 'a \<Rightarrow> bool" where
  "reaches f k x \<longleftrightarrow> 0 < k \<and> (f ^^ k) x = 1 \<and> (\<forall>j. 0 < j \<and> j < k \<longrightarrow> (f ^^ j) x \<noteq> 1)"

lemma reaches_code [code]:
  "reaches f k x \<longleftrightarrow> 0 < k \<and> (f ^^ k) x = 1 \<and> list_all (\<lambda>j. (f ^^ j) x \<noteq> 1) [1..<k]"
  by (auto simp: reaches_def list_all_iff)

lemma reaches_unique: "reaches f k x \<Longrightarrow> reaches f l x \<Longrightarrow> k = l"
  by (metis reaches_def linorder_neqE_nat)

lemma even_word_iff: "even (unat (x :: u32)) \<longleftrightarrow> \<not> bit x 0"
  by (simp add: bit_unat)

lemma collatz_word_eq_1: "collatz_word x = 1 \<longleftrightarrow> x = 2"
proof (cases "bit x 0")
  case True
  have "x = 0" if "x * 3 = 0"
  proof -
    have "(3 :: u32) * 0xAAAAAAAB = 1" by simp
    then have "x = x * 3 * 0xAAAAAAAB" by (simp only: mult.assoc mult_1_right)
    then show ?thesis by (simp only: that) simp
  qed
  with True show ?thesis by (auto simp: collatz_word_def bit_0)
next
  case False
  then have "unat x = 2 * (unat x div 2)" using even_word_iff [of x] by simp
  then have "unat x div 2 = 1 \<longleftrightarrow> unat x = 2" by linarith
  with False show ?thesis
    by (simp add: collatz_word_def word_unat_eq_iff unat_slice del: One_nat_def)
qed

lemma collatz_word_next:
  assumes "collatz_next (unat x) < 2 ^ 32"
  shows "unat (collatz_word x) = collatz_next (unat x)"
  using assms by (simp add: collatz_word_def collatz_next_def even_word_iff unat_slice
      unat_word_ariths mult.commute split: if_splits)

text \<open>\<open>fits k n\<close>: the first \<open>k\<close> steps from \<open>n\<close> stay below \<open>2\<^sup>3\<^sup>2\<close>.\<close>

definition fits :: "nat \<Rightarrow> nat \<Rightarrow> bool" where
  "fits k n \<longleftrightarrow> (\<forall>j\<le>k. (collatz_next ^^ j) n < 2 ^ 32)"

lemma collatz_word_iterate:
  assumes "fits k (unat x)" and "j \<le> k"
  shows "unat ((collatz_word ^^ j) x) = (collatz_next ^^ j) (unat x)"
  using assms(2)
proof (induction j)
  case (Suc j)
  then have "collatz_next ((collatz_next ^^ j) (unat x)) < 2 ^ 32"
    using assms(1) unfolding fits_def by (metis funpow.simps(2) comp_apply)
  with Suc show ?case by (simp add: collatz_word_next)
qed simp

lemma reaches_word:
  assumes "reaches collatz_next k (unat x)" "fits k (unat x)"
  shows "reaches collatz_word k x"
proof -
  have "(collatz_word ^^ j) x = 1 \<longleftrightarrow> (collatz_next ^^ j) (unat x) = 1" if "j \<le> k" for j
    using collatz_word_iterate [OF assms(2) that] by (metis unat_1 word_unat_eq_iff)
  with assms(1) show ?thesis by (auto simp: reaches_def)
qed

text \<open>
  The numbers the board can reach, up to 1278, all come to 1 below \<open>2\<^sup>3\<^sup>2\<close>: each comes to a smaller one, which is checked
  by computation.
\<close>

definition collatz_int :: "int \<Rightarrow> int" where
  "collatz_int x = (if even x then x div 2 else 3 * x + 1)"

fun sinks :: "int \<Rightarrow> int \<Rightarrow> nat \<Rightarrow> bool" where
  "sinks n m 0 \<longleftrightarrow> False"
| "sinks n m (Suc k) \<longleftrightarrow> m < 4294967296 \<and> 0 < m \<and> (m < n \<or> sinks n (collatz_int m) k)"

fun all_sink :: "int \<Rightarrow> nat \<Rightarrow> bool" where
  "all_sink n 0 \<longleftrightarrow> True"
| "all_sink n (Suc k) \<longleftrightarrow> sinks n (collatz_int n) 140 \<and> all_sink (n + 1) k"

lemma all_sink_1278: "all_sink 3 1276"
  by code_simp

lemma all_sink_nth: "all_sink a k \<Longrightarrow> a \<le> n \<Longrightarrow> n < a + int k \<Longrightarrow> sinks n (collatz_int n) 140"
proof (induction a k rule: all_sink.induct)
  case (2 a k)
  then show ?case by (cases "n = a") auto
qed simp

lemma collatz_int: "collatz_int (int m) = int (collatz_next m)"
  by (simp add: collatz_int_def collatz_next_def zdiv_int)

lemma fits_simps [simp]:
  "fits 0 n \<longleftrightarrow> n < 2 ^ 32"
  "fits (Suc k) n \<longleftrightarrow> n < 2 ^ 32 \<and> fits k (collatz_next n)"
proof -
  have "(\<forall>j\<le>Suc k. P j) \<longleftrightarrow> P 0 \<and> (\<forall>j\<le>k. P (Suc j))" for P by (metis Suc_le_mono le0 not0_implies_Suc)
  then show "fits (Suc k) n \<longleftrightarrow> n < 2 ^ 32 \<and> fits k (collatz_next n)"
    by (simp add: fits_def funpow_swap1)
qed (simp add: fits_def)

lemma fits_add: "fits j n \<Longrightarrow> fits k ((collatz_next ^^ j) n) \<Longrightarrow> fits (k + j) n"
  by (induction j arbitrary: n) (auto simp: funpow_swap1)

lemma sinks_below:
  "sinks (int n) (int m) k \<Longrightarrow> \<exists>j. (collatz_next ^^ j) m < n \<and> 0 < (collatz_next ^^ j) m \<and> fits j m"
proof (induction k arbitrary: m)
  case (Suc k)
  show ?case
  proof (cases "m < n")
    case True
    then show ?thesis using Suc.prems by (intro exI [of _ 0]) auto
  next
    case False
    then obtain j where "(collatz_next ^^ j) (collatz_next m) < n" "0 < (collatz_next ^^ j) (collatz_next m)"
      "fits j (collatz_next m)" using Suc by (auto simp: collatz_int)
    then show ?thesis using Suc.prems by (intro exI [of _ "Suc j"]) (auto simp: funpow_swap1)
  qed
qed simp

lemma board_numbers_reach:
  assumes "0 < n" "n \<le> 1278"
  shows "\<exists>k>0. (collatz_next ^^ k) n = 1 \<and> fits k n"
  using assms
proof (induction n rule: less_induct)
  case (less n)
  show ?case
  proof (cases "n \<le> 2")
    case True
    then have "n = 1 \<or> n = 2" using less.prems by auto
    then show ?thesis
    proof
      assume "n = 1"
      then show ?thesis by (intro exI [of _ "Suc (Suc (Suc 0))"]) (simp add: collatz_next_def)
    next
      assume "n = 2"
      then show ?thesis by (intro exI [of _ "Suc 0"]) (simp add: collatz_next_def)
    qed
  next
    case False
    then have "sinks (int n) (int (collatz_next n)) 140"
      using all_sink_nth [OF all_sink_1278, of "int n"] less.prems by (simp add: collatz_int)
    then obtain j where j: "(collatz_next ^^ Suc j) n < n" "0 < (collatz_next ^^ Suc j) n" "fits j (collatz_next n)"
      using sinks_below by (metis comp_apply funpow_Suc_right)
    then obtain k where k: "(collatz_next ^^ k) ((collatz_next ^^ Suc j) n) = 1" "fits k ((collatz_next ^^ Suc j) n)"
      using less.IH [of "(collatz_next ^^ Suc j) n"] less.prems by auto
    have "fits (k + Suc j) n" using fits_add [OF _ k(2)] j(3) less.prems by simp
    moreover have "(collatz_next ^^ (k + Suc j)) n = 1" using k(1) by (simp only: funpow_add comp_apply)
    ultimately show ?thesis by (intro exI [of _ "k + Suc j"]) simp
  qed
qed

lemma reaches_least:
  assumes "0 < k" "(f ^^ k) x = 1"
  shows "\<exists>l\<le>k. reaches f l x"
proof -
  let ?P = "\<lambda>j. 0 < j \<and> (f ^^ j) x = 1"
  have P: "?P k" using assms by simp
  have "?P (LEAST j. ?P j)" "(LEAST j. ?P j) \<le> k" by (rule LeastI [of ?P, OF P]) (rule Least_le [of ?P, OF P])
  moreover have "\<not> ?P j" if "j < (LEAST j. ?P j)" for j using not_less_Least that by blast
  ultimately show ?thesis by (auto simp: reaches_def)
qed

lemma board_number_reaches:
  assumes "0 < n" "n \<le> 1278"
  shows "\<exists>k. reaches collatz_next k n \<and> fits k n"
proof -
  obtain k where k: "0 < k" "(collatz_next ^^ k) n = 1" "fits k n" using board_numbers_reach [OF assms] by blast
  then obtain l where "l \<le> k" "reaches collatz_next l n" using reaches_least [of k collatz_next n] by blast
  moreover have "fits l n" using k(3) \<open>l \<le> k\<close> by (meson fits_def le_trans)
  ultimately show ?thesis by blast
qed

subsection \<open>The module\<close>

lemma collatz_run:
  assumes "reaches collatz_word k x" and "\<And>t. \<not> fst (inp t)"
  shows "run collatz_step inp \<lparr>dout = x, cdone = False\<rparr> t = \<lparr>dout = (collatz_word ^^ min t k) x, cdone = (k \<le> t)\<rparr>"
proof (induction t)
  case 0
  show ?case using assms(1) by (simp add: reaches_def)
next
  case (Suc t)
  have "(collatz_word ^^ t) x = 2 \<longleftrightarrow> (collatz_word ^^ Suc t) x = 1" by (simp add: collatz_word_eq_1)
  moreover have "t < k \<Longrightarrow> (collatz_word ^^ Suc t) x = 1 \<longleftrightarrow> Suc t = k"
    using assms(1) by (metis Suc_lessI reaches_def zero_less_Suc)
  ultimately show ?case
    using assms(2) [of t] Suc.IH
    by (cases "t < k") (auto simp: collatz_step_def split_beta min_def not_less le_Suc_eq)
qed

text \<open>When 1 is never reached the iterator never reports the end.\<close>

lemma collatz_run_never:
  assumes "\<And>k. \<not> reaches collatz_word k x" and "\<And>t. \<not> fst (inp t)"
  shows "run collatz_step inp \<lparr>dout = x, cdone = False\<rparr> t = \<lparr>dout = (collatz_word ^^ t) x, cdone = False\<rparr>"
proof (induction t)
  case (Suc t)
  have "(collatz_word ^^ Suc t) x \<noteq> 1" using reaches_least [of "Suc t" collatz_word x] assms(1) by blast
  then have "(collatz_word ^^ t) x \<noteq> 2" using collatz_word_eq_1 by auto
  with Suc assms(2) [of t] show ?case by (simp add: collatz_step_def split_beta)
qed simp

lemma zero_never_reaches: "\<not> reaches collatz_word k 0"
proof -
  have "(collatz_word ^^ k) 0 = 0" for k by (induction k) (simp_all add: collatz_word_def)
  then show ?thesis by (simp add: reaches_def)
qed

text \<open>
  C18: The iterator: when a number is loaded whose Collatz sequence first comes to 1 after \<open>k\<close> steps, at least one, with
  all values below \<open>2\<^sup>3\<^sup>2\<close>, the output runs through the sequence, one value a clock, and stops at 1 with
  \<open>done\<close> from clock \<open>k\<close> on.
\<close>

theorem collatz_sequence:
  assumes "reaches collatz_next k (unat n)" "fits k (unat n)"
    and "fst (inp 0)" "snd (inp 0) = n" "\<And>t. 0 < t \<Longrightarrow> \<not> fst (inp t)"
  shows "unat (dout (run collatz_step inp c (Suc t))) = (collatz_next ^^ min t k) (unat n) \<and>
    (cdone (run collatz_step inp c (Suc t)) \<longleftrightarrow> k \<le> t)"
proof -
  have "collatz_step (inp 0) c = \<lparr>dout = n, cdone = False\<rparr>"
    using assms(3,4) by (simp add: collatz_step_def split_beta)
  then have "run collatz_step inp c (Suc t) = \<lparr>dout = (collatz_word ^^ min t k) n, cdone = (k \<le> t)\<rparr>"
    using collatz_run [OF reaches_word [OF assms(1,2)], of "\<lambda>t. inp (Suc t)"] assms(5) by (simp add: run_Suc_first del: run.simps)
  then show ?thesis using collatz_word_iterate [OF assms(2)] by simp
qed

lemma three_reaches: "reaches collatz_next 7 3" "fits 7 3"
proof -
  show "reaches collatz_next 7 3" by code_simp
  have seven: "(7 :: nat) = Suc (Suc (Suc (Suc (Suc (Suc (Suc 0))))))" by simp
  show "fits 7 3" unfolding seven by (simp add: collatz_next_def)
qed

theorem collatz_sequence_witness:
  "unat (dout (run collatz_step (\<lambda>t. (t = 0, 3)) \<lparr>dout = 9, cdone = True\<rparr> (Suc 3))) = 16 \<and>
   \<not> cdone (run collatz_step (\<lambda>t. (t = 0, 3)) \<lparr>dout = 9, cdone = True\<rparr> (Suc 6)) \<and>
   cdone (run collatz_step (\<lambda>t. (t = 0, 3)) \<lparr>dout = 9, cdone = True\<rparr> (Suc 7))"
proof -
  have "(collatz_next ^^ min 3 7) 3 = 16" by code_simp
  then show ?thesis
    using collatz_sequence [of 7 3 "\<lambda>t. (t = 0, 3)" "\<lparr>dout = 9, cdone = True\<rparr>" 3]
      collatz_sequence [of 7 3 "\<lambda>t. (t = 0, 3)" "\<lparr>dout = 9, cdone = True\<rparr>" 6]
      collatz_sequence [of 7 3 "\<lambda>t. (t = 0, 3)" "\<lparr>dout = 9, cdone = True\<rparr>" 7] three_reaches
    by (simp del: run.simps funpow.simps)
qed

end
