(* ===== verification/CollatzRange.thy ===== *)
theory CollatzRange
  imports Collatz
begin

text \<open>
  The range module (\<open>src/lab1/range.sv\<close>): it runs the iterator on consecutive numbers and stores the lengths of
  their sequences.  The parameters are those of its one instance, 256 words with addresses of 8 bits.

  The lemmas follow a run through its phases: loading while the button is held, iterating on one number, storing, the
  next number, and idle after the last; the theorems give the contents of the memory, the clock of \<open>done\<close>, and
  the runs that never end.
\<close>

record range =
  r_c1 :: collatz
  r_cgo :: bool
  r_n :: u32
  r_num :: "8 word"
  r_running :: bool
  r_done :: bool
  r_we :: bool
  r_din :: u16
  r_mem :: "8 word \<Rightarrow> u16"
  r_count :: u16

definition RAM_WORDS :: nat where "RAM_WORDS = 256"

definition range_step :: "bool \<times> u32 \<Rightarrow> range \<Rightarrow> range" where
  "range_step i s = (case i of (go, start) \<Rightarrow>
     let s1 = (if \<not> r_running s then s\<lparr>r_done := False\<rparr> else s);
         s2 = (if r_cgo s then s1\<lparr>r_cgo := False\<rparr> else s1);
         s3 = (if r_we s then
                 (let s' = s2\<lparr>r_we := False, r_din := 1, r_num := r_num s + 1\<rparr>
                  in if r_num s = of_nat (RAM_WORDS - 1) then s'\<lparr>r_running := False, r_done := True\<rparr> else s')
               else if cdone (r_c1 s) \<and> r_running s then s2\<lparr>r_we := True, r_cgo := True, r_n := r_n s + 1\<rparr>
               else if r_running s \<and> \<not> r_cgo s then s2\<lparr>r_din := r_din s + 1\<rparr> else s2);
         s4 = (if go then s3\<lparr>r_running := True, r_n := start, r_num := 0, r_din := 1, r_cgo := True\<rparr> else s3);
         addr = (if r_we s then r_num s else ucast start)
     in s4\<lparr>r_c1 := collatz_step (r_cgo s, r_n s) (r_c1 s),
           r_mem := (if r_we s then (r_mem s)(addr := r_din s) else r_mem s),
           r_count := r_mem s addr\<rparr>)"

subsection \<open>Loading\<close>

text \<open>While the button is held the run is set up; \<open>no_stale_done\<close> keeps an old \<open>done\<close> from surviving.\<close>

definition no_stale_done :: "range \<Rightarrow> bool" where
  "no_stale_done s \<longleftrightarrow> (r_running s \<longrightarrow> \<not> r_done s) \<and> \<not> (r_we s \<and> r_num s = of_nat (RAM_WORDS - 1))"

definition loading :: "range \<Rightarrow> bool" where
  "loading s \<longleftrightarrow> r_running s \<and> r_cgo s \<and> r_num s = 0 \<and> r_din s = 1 \<and> \<not> r_done s \<and> \<not> r_we s \<and> \<not> cdone (r_c1 s)"

lemma loading_step: "loading s \<Longrightarrow> loading (range_step (True, x) s) \<and> r_n (range_step (True, x) s) = x"
  by (simp add: loading_def range_step_def Let_def collatz_step_def)

lemma go_loads:
  assumes "no_stale_done s"
  shows "loading (range_step (True, z) (range_step (True, y) (range_step (True, x) s)))"
proof -
  let ?s1 = "range_step (True, x) s" and ?s2 = "range_step (True, y) (range_step (True, x) s)"
  have 1: "r_running ?s1" "r_cgo ?s1" "r_num ?s1 = 0" "\<not> r_done ?s1"
    using assms by (auto simp: range_step_def Let_def no_stale_done_def)
  have W: "(0 :: 8 word) \<noteq> of_nat (RAM_WORDS - 1)" by (simp add: RAM_WORDS_def)
  have 2: "r_running ?s2" "r_cgo ?s2" "r_num ?s2 = 0" "\<not> r_done ?s2" "\<not> cdone (r_c1 ?s2)"
    using 1 W by (simp_all add: range_step_def [of _ ?s1] Let_def collatz_step_def)
  then show ?thesis
    using W by (simp add: range_step_def [of _ ?s2] Let_def collatz_step_def loading_def)
qed

lemma loading_run:
  assumes "no_stale_done s" "\<And>t. t < g \<Longrightarrow> fst (inp t)" "3 \<le> g"
  shows "loading (run range_step inp s g) \<and> (3 < g \<longrightarrow> r_n (run range_step inp s g) = snd (inp (g - 1)))"
  using assms(3,2)
proof (induction g rule: dec_induct)
  case base
  have "\<exists>x. inp t = (True, x)" if "t < 3" for t using base [OF that] by (cases "inp t") simp
  then obtain x y z where "inp 0 = (True, x)" "inp 1 = (True, y)" "inp 2 = (True, z)"
    by (metis one_less_numeral_iff semiring_norm(77) zero_less_numeral numeral_less_iff lessI numeral_2_eq_2 numeral_3_eq_3)
  then show ?case using go_loads [OF assms(1), of z y x] by (simp add: numeral_3_eq_3 numeral_2_eq_2)
next
  case (step g)
  obtain x where x: "inp g = (True, x)" using step.prems [of g] by (cases "inp g") auto
  have "loading (run range_step inp s g)" using step by simp
  with x show ?case using loading_step [of "run range_step inp s g" x] by simp
qed

subsection \<open>One number\<close>

definition iterating :: "u32 \<Rightarrow> 8 word \<Rightarrow> nat \<Rightarrow> (8 word \<Rightarrow> u16) \<Rightarrow> range \<Rightarrow> bool" where
  "iterating x m j M s \<longleftrightarrow> r_running s \<and> \<not> r_we s \<and> \<not> r_cgo s \<and> \<not> r_done s \<and> r_n s = x \<and> r_num s = m \<and>
     r_din s = of_nat (Suc j) \<and> r_mem s = M \<and>
     r_c1 s = \<lparr>dout = (collatz_word ^^ j) x, cdone = reaches collatz_word j x\<rparr> \<and> (\<forall>i<j. \<not> reaches collatz_word i x)"

definition idle :: "(8 word \<Rightarrow> u16) \<Rightarrow> range \<Rightarrow> bool" where
  "idle M s \<longleftrightarrow> \<not> r_running s \<and> \<not> r_we s \<and> r_mem s = M"

lemma release:
  assumes "loading s" "r_n s = x"
  shows "iterating x 0 0 (r_mem s) (range_step (False, st) s)"
  using assms by (simp add: loading_def iterating_def range_step_def Let_def collatz_step_def reaches_def)

lemma two_then_one:
  assumes "\<forall>i\<le>j. \<not> reaches collatz_word i x"
  shows "(collatz_word ^^ j) x = 2 \<longleftrightarrow> reaches collatz_word (Suc j) x"
proof -
  have "(collatz_word ^^ Suc j) x = 1 \<longleftrightarrow> reaches collatz_word (Suc j) x"
    using reaches_least [of "Suc j" collatz_word x] assms le_Suc_eq by (metis reaches_def zero_less_Suc)
  then show ?thesis by (simp add: collatz_word_eq_1)
qed

lemma iterating_step:
  assumes "iterating x m j M s" "\<not> reaches collatz_word j x"
  shows "iterating x m (Suc j) M (range_step (False, st) s)"
proof -
  have "\<forall>i\<le>j. \<not> reaches collatz_word i x" using assms by (auto simp: iterating_def order_le_less)
  from two_then_one [OF this] this show ?thesis
    using assms by (auto simp: iterating_def range_step_def Let_def collatz_step_def less_Suc_eq_le)
qed

lemma store:
  assumes "iterating x m k M s" "reaches collatz_word k x"
  shows "let s' = range_step (False, st) s; s'' = range_step (False, st') s'; M' = M(m := of_nat (Suc k))
    in \<not> r_done s' \<and> (if m = of_nat (RAM_WORDS - 1) then idle M' s'' \<and> r_done s'' else iterating (x + 1) (m + 1) 0 M' s'')"
proof -
  have "\<not> reaches collatz_word 0 y" for y by (simp add: reaches_def)
  then show ?thesis
    using assms by (simp add: iterating_def idle_def range_step_def Let_def collatz_step_def)
qed

lemma iterating_run:
  assumes "iterating x m 0 M s" "\<forall>i<j. \<not> reaches collatz_word i x" "\<And>t. \<not> fst (inp t)"
  shows "iterating x m j M (run range_step inp s j)"
  using assms(2)
proof (induction j)
  case (Suc j)
  have "inp j = (False, snd (inp j))" using assms(3) by (simp add: prod_eq_iff)
  then show ?case using Suc iterating_step [of x m j M _ "snd (inp j)"] by simp
qed (use assms(1) in simp)

lemma number:
  assumes "iterating x m 0 M s" "reaches collatz_word k x" and go: "\<And>t. \<not> fst (inp t)"
  shows "let s' = run range_step inp s (k + 2); M' = M(m := of_nat (Suc k))
    in if m = of_nat (RAM_WORDS - 1) then idle M' s' \<and> r_done s' else iterating (x + 1) (m + 1) 0 M' s'"
    and "t < k + 2 \<Longrightarrow> \<not> r_done (run range_step inp s t)"
proof -
  have before: "\<forall>i<j. \<not> reaches collatz_word i x" if "j \<le> k" for j
    using that assms(2) reaches_unique by (metis leD)
  have i: "inp t = (False, snd (inp t))" for t using go by (simp add: prod_eq_iff)
  have k: "iterating x m k M (run range_step inp s k)" by (rule iterating_run [OF assms(1) before go]) simp
  note st = store [OF this assms(2), of "snd (inp k)" "snd (inp (Suc k))", folded i]
  then show "let s' = run range_step inp s (k + 2); M' = M(m := of_nat (Suc k))
    in if m = of_nat (RAM_WORDS - 1) then idle M' s' \<and> r_done s' else iterating (x + 1) (m + 1) 0 M' s'"
    by (auto simp: Let_def split: if_splits)
  assume "t < k + 2"
  then consider "t \<le> k" | "t = Suc k" by linarith
  then show "\<not> r_done (run range_step inp s t)"
  proof cases
    case 1
    then show ?thesis using iterating_run [OF assms(1) before [OF 1] go] by (simp add: iterating_def)
  next
    case 2
    then show ?thesis using st by (simp add: Let_def)
  qed
qed

subsection \<open>All numbers\<close>

text \<open>The clocks for the first \<open>i\<close> numbers, and the memory after them, when number \<open>l\<close> takes \<open>ks l\<close> steps.\<close>

definition fill_time :: "(nat \<Rightarrow> nat) \<Rightarrow> nat \<Rightarrow> nat" where
  "fill_time ks i = (\<Sum>l<i. ks l + 2)"

definition filled :: "(nat \<Rightarrow> nat) \<Rightarrow> nat \<Rightarrow> (8 word \<Rightarrow> u16) \<Rightarrow> 8 word \<Rightarrow> u16" where
  "filled ks i M a = (if unat a < i then of_nat (Suc (ks (unat a))) else M a)"

lemma filled_Suc:
  assumes "i < 256"
  shows "(filled ks i M)(of_nat i := of_nat (Suc (ks i))) = filled ks (Suc i) M"
proof
  fix a :: "8 word"
  have "a = of_nat i \<longleftrightarrow> unat a = i" using assms by (auto simp: word_unat_eq_iff unat_of_nat_small)
  then show "((filled ks i M)(of_nat i := of_nat (Suc (ks i)))) a = filled ks (Suc i) M a"
    by (auto simp: filled_def less_Suc_eq)
qed

lemma last_word: "i < 256 \<Longrightarrow> (of_nat i :: 8 word) = of_nat (RAM_WORDS - 1) \<longleftrightarrow> i = 255"
  by (simp add: RAM_WORDS_def word_unat_eq_iff unat_of_nat_small)

lemma fill_number:
  assumes "iterating (x + of_nat i) (of_nat i) 0 (filled ks i M) (run range_step inp s (fill_time ks i))"
    and "reaches collatz_word (ks i) (x + of_nat i)" and go: "\<And>t. \<not> fst (inp t)" and "i < 256"
  shows "let s' = run range_step inp s (fill_time ks (Suc i)); M' = filled ks (Suc i) M
      in if i = 255 then idle M' s' \<and> r_done s' else iterating (x + of_nat (Suc i)) (of_nat (Suc i)) 0 M' s'"
    and "fill_time ks i \<le> t \<Longrightarrow> t < fill_time ks (Suc i) \<Longrightarrow> \<not> r_done (run range_step inp s t)"
proof -
  let ?inp = "\<lambda>t. inp (fill_time ks i + t)"
  have time: "fill_time ks (Suc i) = fill_time ks i + (ks i + 2)" by (simp add: fill_time_def)
  have split: "run range_step inp s (fill_time ks i + u) = run range_step ?inp (run range_step inp s (fill_time ks i)) u" for u
    by (rule run_add)
  note num = number [OF assms(1,2), of ?inp, OF go]
  show "let s' = run range_step inp s (fill_time ks (Suc i)); M' = filled ks (Suc i) M
      in if i = 255 then idle M' s' \<and> r_done s' else iterating (x + of_nat (Suc i)) (of_nat (Suc i)) 0 M' s'"
    using num(1) unfolding time split last_word [OF assms(4)] filled_Suc [OF assms(4), symmetric]
    by (auto simp: Let_def ac_simps)
  assume "fill_time ks i \<le> t" "t < fill_time ks (Suc i)"
  then obtain u where "t = fill_time ks i + u" "u < ks i + 2" by (metis time le_Suc_ex add_less_cancel_left)
  then show "\<not> r_done (run range_step inp s t)" using num(2) split by simp
qed

lemma fill:
  assumes "iterating x 0 0 M s" "\<And>l. l < 256 \<Longrightarrow> reaches collatz_word (ks l) (x + of_nat l)"
    and go: "\<And>t. \<not> fst (inp t)" and "i < 256"
  shows "iterating (x + of_nat i) (of_nat i) 0 (filled ks i M) (run range_step inp s (fill_time ks i)) \<and>
    (\<forall>t<fill_time ks i. \<not> r_done (run range_step inp s t))"
  using assms(4)
proof (induction i)
  case 0
  have "filled ks 0 M = M" by (simp add: filled_def fun_eq_iff)
  then show ?case using assms(1) by (simp add: fill_time_def)
next
  case (Suc i)
  then have it: "iterating (x + of_nat i) (of_nat i) 0 (filled ks i M) (run range_step inp s (fill_time ks i))" by simp
  have "reaches collatz_word (ks i) (x + of_nat i)" "i < 256" using assms(2) Suc.prems by simp_all
  note fn = fill_number [OF it this(1) go this(2)]
  moreover have "\<not> r_done (run range_step inp s t)" if "t < fill_time ks (Suc i)" for t
    using fn(2) [of t] Suc that by (cases "t < fill_time ks i") auto
  ultimately show ?case using Suc.prems by (simp add: Let_def)
qed

lemma fill_end:
  assumes "iterating x 0 0 M s" "\<And>l. l < 256 \<Longrightarrow> reaches collatz_word (ks l) (x + of_nat l)"
    and go: "\<And>t. \<not> fst (inp t)"
  shows "idle (filled ks 256 M) (run range_step inp s (fill_time ks 256))" "r_done (run range_step inp s (fill_time ks 256))"
    "t < fill_time ks 256 \<Longrightarrow> \<not> r_done (run range_step inp s t)"
proof -
  have f: "iterating (x + of_nat 255) (of_nat 255) 0 (filled ks 255 M) (run range_step inp s (fill_time ks 255))"
    "\<forall>t<fill_time ks 255. \<not> r_done (run range_step inp s t)" using fill [OF assms, of 255] by simp_all
  have "reaches collatz_word (ks 255) (x + of_nat 255)" using assms(2) [of 255] by simp
  note fn = fill_number [OF f(1) this go]
  have "Suc 255 = 256" by simp
  with fn(1) show "idle (filled ks 256 M) (run range_step inp s (fill_time ks 256))"
    "r_done (run range_step inp s (fill_time ks 256))" by (simp_all add: Let_def)
  show "\<not> r_done (run range_step inp s t)" if "t < fill_time ks 256"
    using fn(2) [of t] f(2) that \<open>Suc 255 = 256\<close> by (cases "t < fill_time ks 255") auto
qed

lemma idle_step:
  assumes "idle M s"
  shows "idle M (range_step (False, st) s)" "\<not> r_done (range_step (False, st) s)" "r_count (range_step (False, st) s) = M (ucast st)"
  using assms by (auto simp: idle_def range_step_def Let_def)

text \<open>A whole run, from the button to the memory.\<close>

definition end_time :: "nat \<Rightarrow> (nat \<Rightarrow> nat) \<Rightarrow> nat" where
  "end_time g ks = Suc g + fill_time ks 256"

lemma released:
  assumes "no_stale_done s" "\<And>t. fst (inp t) \<longleftrightarrow> t < g" "4 \<le> g" "snd (inp (g - 1)) = x"
  shows "\<exists>M. iterating x 0 0 M (run range_step inp s (Suc g))" "3 \<le> t \<Longrightarrow> t \<le> g \<Longrightarrow> \<not> r_done (run range_step inp s t)"
proof -
  have l: "loading (run range_step inp s t) \<and> (3 < t \<longrightarrow> r_n (run range_step inp s t) = snd (inp (t - 1)))"
    if "3 \<le> t" "t \<le> g" for t using loading_run [OF assms(1), of t inp] assms(2) that by auto
  have "inp g = (False, snd (inp g))" using assms(2) [of g] by (simp add: prod_eq_iff)
  then show "\<exists>M. iterating x 0 0 M (run range_step inp s (Suc g))"
    using release [of "run range_step inp s g" x "snd (inp g)"] l [of g] assms(3,4) by auto
  show "\<not> r_done (run range_step inp s t)" if "3 \<le> t" "t \<le> g" using l [OF that] by (simp add: loading_def)
qed

lemma idle_run:
  assumes "idle M s" "\<And>t. \<not> fst (inp t)"
  shows "idle M (run range_step inp s t)" "0 < t \<Longrightarrow> \<not> r_done (run range_step inp s t)"
    "r_count (run range_step inp s (Suc t)) = M (ucast (snd (inp t)))"
proof -
  have inp: "inp t = (False, snd (inp t))" for t using assms(2) by (simp add: prod_eq_iff)
  show idle: "idle M (run range_step inp s t)" for t
    by (induction t) (simp_all add: assms(1), metis inp idle_step(1))
  show "r_count (run range_step inp s (Suc t)) = M (ucast (snd (inp t)))"
    by (simp, metis inp idle_step(3) [OF idle])
  show "\<not> r_done (run range_step inp s t)" if "0 < t"
    using that idle_step(2) [OF idle] inp by (cases t) (simp, metis run.simps(2))
qed

lemma range_run:
  assumes "no_stale_done s" "\<And>t. fst (inp t) \<longleftrightarrow> t < g" "4 \<le> g" "snd (inp (g - 1)) = x"
    and "\<And>l. l < 256 \<Longrightarrow> reaches collatz_word (ks l) (x + of_nat l)"
  defines "T \<equiv> end_time g ks" and "M \<equiv> \<lambda>a. of_nat (Suc (ks (unat a)))"
  shows "r_done (run range_step inp s T)" "3 \<le> t \<Longrightarrow> t \<noteq> T \<Longrightarrow> \<not> r_done (run range_step inp s t)"
    "T \<le> t \<Longrightarrow> idle M (run range_step inp s t)"
    "T \<le> t \<Longrightarrow> r_count (run range_step inp s (Suc t)) = M (ucast (snd (inp t)))"
proof -
  obtain M0 where it: "iterating x 0 0 M0 (run range_step inp s (Suc g))" using released(1) [OF assms(1-4)] by blast
  have go: "\<not> fst (inp (Suc g + t))" for t using assms(2) by simp
  have M: "filled ks 256 M0 = M"
  proof
    show "filled ks 256 M0 a = M a" for a using unsigned_less [where ?'a = nat, of a] by (simp add: filled_def M_def)
  qed
  have split: "run range_step inp s (Suc g + t) = run range_step (\<lambda>t. inp (Suc g + t)) (run range_step inp s (Suc g)) t" for t
    by (rule run_add)
  note fe = fill_end [OF it assms(5), of "\<lambda>t. inp (Suc g + t)", OF _ go]
  have finished: "r_done (run range_step inp s T)" and idle: "idle M (run range_step inp s T)"
    using fe(1,2) by (simp_all only: T_def end_time_def split M)
  show "r_done (run range_step inp s T)" by (rule finished)
  have go': "\<not> fst (inp (T + t))" for t using assms(2) by (simp add: T_def end_time_def)
  have late: "run range_step inp s (T + t) = run range_step (\<lambda>t. inp (T + t)) (run range_step inp s T) t" for t
    by (rule run_add)
  note ir = idle_run [OF idle, of "\<lambda>t. inp (T + t)", OF go', folded late]
  show "idle M (run range_step inp s t)" if "T \<le> t" using ir(1) [of "t - T"] that by simp
  show "r_count (run range_step inp s (Suc t)) = M (ucast (snd (inp t)))" if "T \<le> t"
  proof -
    have "idle M (run range_step inp s t)" using ir(1) [of "t - T"] that by simp
    moreover have "inp t = (False, snd (inp t))" using go' [of "t - T"] that by (simp add: prod_eq_iff)
    ultimately show ?thesis by (metis idle_step(3) run.simps(2))
  qed
  show "\<not> r_done (run range_step inp s t)" if "3 \<le> t" "t \<noteq> T"
  proof -
    consider "t \<le> g" | "Suc g \<le> t" "t < T" | "T < t" using \<open>t \<noteq> T\<close> by linarith
    then show ?thesis
    proof cases
      case 1
      then show ?thesis using released(2) [OF assms(1-4)] that(1) by blast
    next
      case 2
      then have "t = Suc g + (t - Suc g)" "t - Suc g < fill_time ks 256" by (simp_all add: T_def end_time_def)
      then show ?thesis using fe(3) [of "t - Suc g"] split [of "t - Suc g"] by simp
    next
      case 3
      then show ?thesis using ir(2) [of "t - T"] by simp
    qed
  qed
qed

lemma range_stuck:
  assumes "no_stale_done s" "\<And>t. fst (inp t) \<longleftrightarrow> t < g" "4 \<le> g" "snd (inp (g - 1)) = x"
    and "\<And>k. \<not> reaches collatz_word k x" "3 \<le> t"
  shows "\<not> r_done (run range_step inp s t)"
proof (cases "t \<le> g")
  case True
  then show ?thesis using released(2) [OF assms(1-4,6)] by blast
next
  case False
  obtain M where it: "iterating x 0 0 M (run range_step inp s (Suc g))" using released(1) [OF assms(1-4)] by blast
  obtain u where u: "t = Suc g + u" using False by (metis not_less_eq_eq le_Suc_ex)
  have "iterating x 0 u M (run range_step inp s (Suc g + u))"
    unfolding run_add by (rule iterating_run [OF it]) (simp_all add: assms(2,5))
  then show ?thesis by (simp add: u iterating_def)
qed

text \<open>
  The condition is needed: \<open>done\<close> is cleared only while nothing runs, so that the button in the clock of the last
  store starts a run with \<open>done\<close> already given, and it stays.
\<close>

lemma stale_done:
  "r_we s \<Longrightarrow> r_num s = of_nat (RAM_WORDS - 1) \<Longrightarrow>
     r_running (range_step (True, x) s) \<and> r_done (range_step (True, x) s)"
  "r_running s \<Longrightarrow> r_done s \<Longrightarrow> r_done (range_step i s)"
  by (auto simp: range_step_def Let_def split: prod.splits)

text \<open>
  C16: A run: when the button is held for at least four clocks and then released, and the 256 numbers from
  \<open>start\<close> on come to 1 after \<open>ks 0\<close>, \<open>ks 1\<close>, ... steps with values below \<open>2\<^sup>3\<^sup>2\<close>, then \<open>done\<close> is given for exactly one clock, two clocks more per
  number than its steps, and from there on word \<open>i\<close> of the memory is the length of the sequence
  of \<open>start + i\<close> and is what \<open>count\<close> shows one clock after \<open>start\<close> selects it.  The one condition on the
  registers before is that no run stores its last word in the clock of the button.
\<close>

theorem range_fills:
  assumes "no_stale_done s" "\<And>t. fst (inp t) \<longleftrightarrow> t < g" "4 \<le> g" "snd (inp (g - 1)) = x" "unat x + 255 < 2 ^ 32"
    and "\<And>i. i < 256 \<Longrightarrow> reaches collatz_next (ks i) (unat x + i) \<and> fits (ks i) (unat x + i)"
    and "T = g + 1 + (\<Sum>i<256. ks i + 2)"
  shows "r_done (run range_step inp s T) \<and> (\<forall>t. 3 \<le> t \<longrightarrow> t \<noteq> T \<longrightarrow> \<not> r_done (run range_step inp s t)) \<and>
    (\<forall>t\<ge>T. \<forall>i<256. r_mem (run range_step inp s t) (of_nat i) = of_nat (ks i + 1)) \<and>
    (\<forall>t\<ge>T. r_count (run range_step inp s (Suc t)) = of_nat (ks (unat (snd (inp t)) mod 256) + 1))"
proof -
  have T: "T = end_time g ks" by (simp add: assms(7) end_time_def fill_time_def)
  have "reaches collatz_word (ks i) (x + of_nat i)" if "i < 256" for i
  proof (rule reaches_word)
    have "unat (x + of_nat i) = unat x + i"
      using assms(5) that by (simp add: unat_word_ariths unat_of_nat_small)
    then show "reaches collatz_next (ks i) (unat (x + of_nat i))" "fits (ks i) (unat (x + of_nat i))"
      using assms(6) [OF that] by simp_all
  qed
  note r = range_run [OF assms(1-4) this, folded T]
  show ?thesis
    using r by (auto simp: idle_def unat_of_nat_small unat_slice)
qed

definition power_up :: range where
  "power_up = \<lparr>r_c1 = \<lparr>dout = 0, cdone = True\<rparr>, r_cgo = False, r_n = 0, r_num = 3, r_running = False, r_done = True,
     r_we = False, r_din = 0, r_mem = (\<lambda>_. 0), r_count = 0\<rparr>"

theorem range_fills_witness:
  "\<exists>T. r_done (run range_step (\<lambda>t. (t < 5, 3)) power_up T) \<and>
    (\<forall>t\<ge>T. r_mem (run range_step (\<lambda>t. (t < 5, 3)) power_up t) 0 = 8)"
proof -
  have "\<exists>k. i < 256 \<longrightarrow> reaches collatz_next k (3 + i) \<and> fits k (3 + i)" for i
    using board_number_reaches [of "3 + i"] by auto
  then obtain ks where ks: "\<And>i. i < 256 \<Longrightarrow> reaches collatz_next (ks i) (3 + i) \<and> fits (ks i) (3 + i)"
    by metis
  have "ks 0 = 7" using ks [of 0] reaches_unique [OF three_reaches(1)] by simp
  note ks0 = this
  obtain T where T: "T = 5 + 1 + (\<Sum>i<256. ks i + 2)" by simp
  have "no_stale_done power_up" by (simp add: power_up_def no_stale_done_def)
  note r = range_fills [of power_up "\<lambda>t. (t < 5, 3)" 5 3 ks T, OF this _ _ _ _ _ T]
  have r_done: "r_done (run range_step (\<lambda>t. (t < 5, 3)) power_up T)"
    and r_mem: "\<forall>t\<ge>T. \<forall>i<256. r_mem (run range_step (\<lambda>t. (t < 5, 3)) power_up t) (of_nat i) = of_nat (ks i + 1)"
    using r ks by simp_all
  have "r_mem (run range_step (\<lambda>t. (t < 5, 3)) power_up t) 0 = 8" if "T \<le> t" for t
    using r_mem [rule_format, OF that, of 0] by (simp add: ks0)
  with r_done show ?thesis by blast
qed

end
