(* ===== verification/Buttons.thy ===== *)
theory Buttons
  imports Clocked
begin

text \<open>
  The inputs and outputs of the Collatz board (\<open>src/lab1\<close>): the debouncer of a push button
  (\<open>debouncer.sv\<close>), the pulses of a button held down (\<open>button_press.sv\<close>), and the digits (\<open>hex7seg.sv\<close>).

  The lemmas give the output of the debouncer for a press of any length, show what any change of its output
  requires of the input, and give the pulses of a held button in closed form.
\<close>

subsection \<open>The debouncer\<close>

record debouncer =
  sync_0 :: bool
  sync_1 :: bool
  timer :: "14 word"
  nxt :: bool

definition debouncer_step :: "bool \<Rightarrow> debouncer \<Rightarrow> debouncer" where
  "debouncer_step switch d =
     \<lparr>sync_0 = switch, sync_1 = sync_0 d,
      timer = (if nxt d = sync_1 d then 0 else timer d + 1),
      nxt = (if nxt d \<noteq> sync_1 d \<and> timer d = 0x3fff then \<not> nxt d else nxt d)\<rparr>"

definition released :: debouncer where
  "released = \<lparr>sync_0 = False, sync_1 = False, timer = 0, nxt = False\<rparr>"

lemma timer_end: "timer d = 0x3fff \<longleftrightarrow> unat (timer d) = 16383"
  by (simp add: word_unat_eq_iff)

lemma timer_Suc: "unat (timer d + 1) = (if unat (timer d) = 16383 then 0 else Suc (unat (timer d)))"
  using unsigned_less [where ?'a = nat, of "timer d"] by (auto simp: unat_word_ariths)

text \<open>The clocks the output has disagreed with the input, during and after a press of \<open>p\<close> clocks.\<close>

definition waited :: "nat \<Rightarrow> nat \<Rightarrow> nat" where
  "waited p t = (if 2 \<le> t \<and> t < 16386 then t - 2 else if p + 2 \<le> t \<and> t < p + 16386 then t - (p + 2) else 0)"

lemma long_press:
  assumes "16384 \<le> p"
  shows "let d = run debouncer_step (\<lambda>t. t < p) released t
    in (sync_0 d \<longleftrightarrow> 1 \<le> t \<and> t \<le> p) \<and> (sync_1 d \<longleftrightarrow> 2 \<le> t \<and> t \<le> p + 1) \<and> unat (timer d) = waited p t \<and>
       (nxt d \<longleftrightarrow> 16386 \<le> t \<and> t < p + 16386)"
proof (induction t)
  case 0
  show ?case by (simp add: released_def waited_def)
next
  case (Suc t)
  let ?d = "run debouncer_step (\<lambda>t. t < p) released t"
  have d: "sync_0 ?d \<longleftrightarrow> 1 \<le> t \<and> t \<le> p" "sync_1 ?d \<longleftrightarrow> 2 \<le> t \<and> t \<le> p + 1" "unat (timer ?d) = waited p t"
    "nxt ?d \<longleftrightarrow> 16386 \<le> t \<and> t < p + 16386" using Suc by (simp_all add: Let_def)
  show ?case
    using assms unfolding run.simps Let_def
    by (simp add: debouncer_step_def timer_end timer_Suc d) (auto simp: waited_def)
qed

lemma short_press:
  assumes "p < 16384"
  shows "let d = run debouncer_step (\<lambda>t. t < p) released t
    in (sync_0 d \<longleftrightarrow> 1 \<le> t \<and> t \<le> p) \<and> (sync_1 d \<longleftrightarrow> 2 \<le> t \<and> t \<le> p + 1) \<and>
       unat (timer d) = (if 2 \<le> t \<and> t \<le> p + 2 then t - 2 else 0) \<and> \<not> nxt d"
proof (induction t)
  case 0
  show ?case by (simp add: released_def)
next
  case (Suc t)
  let ?d = "run debouncer_step (\<lambda>t. t < p) released t"
  have d: "sync_0 ?d \<longleftrightarrow> 1 \<le> t \<and> t \<le> p" "sync_1 ?d \<longleftrightarrow> 2 \<le> t \<and> t \<le> p + 1"
    "unat (timer ?d) = (if 2 \<le> t \<and> t \<le> p + 2 then t - 2 else 0)" "\<not> nxt ?d" using Suc by (simp_all add: Let_def)
  show ?case
    using assms unfolding run.simps Let_def by (simp add: debouncer_step_def timer_end timer_Suc d) auto
qed

text \<open>
  A press: starting from a button at rest, the output of the debouncer is the press delayed by exactly 16386
  clocks when it lasts at least 16384 clocks, and a shorter one does not show at all.
\<close>

theorem debouncer_press:
  "nxt (run debouncer_step (\<lambda>t. t < p) released t) \<longleftrightarrow> 16384 \<le> p \<and> 16386 \<le> t \<and> t < p + 16386"
  using long_press [of p t] short_press [of p t] by (cases "16384 \<le> p") (auto simp: Let_def)

text \<open>Any bouncing: the timer counts the clocks before.\<close>

lemma sync_1_run: "sync_1 (run debouncer_step inp d (Suc (Suc t))) = inp t"
  by (simp add: debouncer_step_def)

lemma timer_back:
  assumes "0 < unat (timer (debouncer_step i e))"
  shows "nxt e \<noteq> sync_1 e" "unat (timer (debouncer_step i e)) = Suc (unat (timer e))" "nxt (debouncer_step i e) = nxt e"
  using assms by (auto simp: debouncer_step_def timer_Suc timer_end split: if_splits)

lemma timer_counts:
  assumes "i \<le> unat (timer (run debouncer_step inp d t))" "i \<le> t"
  shows "nxt (run debouncer_step inp d (t - i)) = nxt (run debouncer_step inp d t) \<and>
    (0 < i \<longrightarrow> nxt (run debouncer_step inp d (t - i)) \<noteq> sync_1 (run debouncer_step inp d (t - i))) \<and>
    unat (timer (run debouncer_step inp d (t - i))) = unat (timer (run debouncer_step inp d t)) - i"
  using assms
proof (induction i)
  case (Suc i)
  let ?d = "run debouncer_step inp d (t - Suc i)"
  have "Suc (t - Suc i) = t - i" using Suc.prems by simp
  then have s: "run debouncer_step inp d (t - i) = debouncer_step (inp (t - Suc i)) ?d"
    by (metis run.simps(2))
  have "0 < unat (timer (run debouncer_step inp d (t - i)))" using Suc by simp
  then have "0 < unat (timer (debouncer_step (inp (t - Suc i)) ?d))" by (simp only: s)
  from timer_back [OF this] show ?case using Suc by (auto simp: s)
qed simp

text \<open>
  C19: Bouncing is filtered: whatever the contacts do and whatever the registers held at first, after the first
  16385 clocks the output of the debouncer only changes when the input has had its new value in all of
  16384 successive clocks.
\<close>

theorem debouncer_filters:
  assumes "nxt (run debouncer_step inp d (Suc t)) \<noteq> nxt (run debouncer_step inp d t)" "16385 \<le> t" "i < 16384"
  shows "inp (t - 2 - i) = nxt (run debouncer_step inp d (Suc t))"
proof -
  let ?r = "run debouncer_step inp d"
  have now: "nxt (?r t) \<noteq> sync_1 (?r t)" "unat (timer (?r t)) = 16383" "nxt (?r (Suc t)) = (\<not> nxt (?r t))"
    using assms(1) by (auto simp: debouncer_step_def timer_end split: if_splits)
  have "nxt (?r (t - i)) = nxt (?r t) \<and> nxt (?r (t - i)) \<noteq> sync_1 (?r (t - i))"
    using timer_counts [of i inp d t] now assms(2,3) by (cases "i = 0") auto
  moreover have "sync_1 (?r (t - i)) = inp (t - 2 - i)"
  proof -
    have "t - i = Suc (Suc (t - 2 - i))" using assms(2,3) by simp
    then show ?thesis by (simp only: sync_1_run)
  qed
  ultimately show ?thesis using now(3) by auto
qed

theorem debouncer_filters_witness:
  "nxt (run debouncer_step (\<lambda>t. t < 20000) released (Suc 16385)) \<and> \<not> nxt (run debouncer_step (\<lambda>t. t < 20000) released 16385) \<and>
   (16385 - 2 - 16383 < (20000 :: nat)) = nxt (run debouncer_step (\<lambda>t. t < 20000) released (Suc 16385))"
proof -
  have "nxt (run debouncer_step (\<lambda>t. t < 20000) released (Suc 16385))"
    "\<not> nxt (run debouncer_step (\<lambda>t. t < 20000) released 16385)"
    using long_press [of 20000 "Suc 16385"] long_press [of 20000 16385] by (simp_all add: Let_def del: run.simps)
  then show ?thesis
    using debouncer_filters [of "\<lambda>t. t < 20000" released 16385 16383] by (simp del: run.simps)
qed

subsection \<open>Pulses\<close>

record button =
  prev :: bool
  b_cnt :: "25 word"
  held :: bool
  pulse :: bool

definition HOLD :: nat where "HOLD = 25000000"
definition REPEAT :: nat where "REPEAT = 5000000"

definition button_press_step :: "bool \<Rightarrow> button \<Rightarrow> button" where
  "button_press_step btn b =
     (let b' = b\<lparr>prev := btn, pulse := False\<rparr> in
      if \<not> btn then b'\<lparr>b_cnt := 0, held := False\<rparr>
      else if \<not> prev b then b'\<lparr>pulse := True\<rparr>
      else if unat (b_cnt b) < (if held b then REPEAT else HOLD) - 1 then b'\<lparr>b_cnt := b_cnt b + 1\<rparr>
      else b'\<lparr>pulse := True, b_cnt := 0, held := True\<rparr>)"

lemma b_cnt_Suc: "unat (b_cnt b) < HOLD - 1 \<Longrightarrow> unat (b_cnt b + 1) = Suc (unat (b_cnt b))"
  by (simp add: unat_word_ariths HOLD_def)

lemma held_button:
  assumes "\<not> inp 0" "\<And>k. 0 < k \<Longrightarrow> k \<le> Suc m \<Longrightarrow> inp k"
  shows "let b = run button_press_step inp b (Suc (Suc m))
    in prev b \<and> (held b \<longleftrightarrow> HOLD \<le> m) \<and> unat (b_cnt b) = (if m < HOLD then m else (m - HOLD) mod REPEAT) \<and>
       (pulse b \<longleftrightarrow> m = 0 \<or> HOLD \<le> m \<and> (m - HOLD) mod REPEAT = 0)"
  using assms(2)
proof (induction m)
  case 0
  then show ?case using assms(1) by (simp add: button_press_step_def HOLD_def)
next
  case (Suc m)
  define c where "c = run button_press_step inp b (Suc (Suc m))"
  have b: "prev c" "held c \<longleftrightarrow> HOLD \<le> m" "unat (b_cnt c) = (if m < HOLD then m else (m - HOLD) mod REPEAT)"
    using Suc by (simp_all add: Let_def c_def del: run.simps)
  have i: "inp (Suc (Suc m))" using Suc.prems by simp
  have r: "run button_press_step inp b (Suc (Suc (Suc m))) = button_press_step (inp (Suc (Suc m))) c" by (simp add: c_def)
  have mod: "(Suc m - HOLD) mod REPEAT = (if Suc ((m - HOLD) mod REPEAT) = REPEAT then 0 else Suc ((m - HOLD) mod REPEAT))"
    if "HOLD \<le> m" using that by (simp add: Suc_diff_le mod_Suc)
  have bound: "(m - HOLD) mod REPEAT < REPEAT" "0 < REPEAT" "REPEAT < HOLD" by (simp_all add: REPEAT_def HOLD_def)
  consider "Suc m < HOLD" | "Suc m = HOLD" | "HOLD \<le> m" by linarith
  then show ?case
  proof cases
    case 1
    then show ?thesis unfolding r Let_def using b i by (simp add: button_press_step_def Let_def b_cnt_Suc)
  next
    case 2
    then show ?thesis unfolding r Let_def using b i by (simp add: button_press_step_def Let_def)
  next
    case 3
    have "q < R \<Longrightarrow> q < R - 1 \<longleftrightarrow> Suc q \<noteq> R" for q R :: nat by auto
    from this [OF bound(1)] have "unat (b_cnt c) < REPEAT - 1 \<longleftrightarrow> Suc ((m - HOLD) mod REPEAT) \<noteq> REPEAT"
      using b(3) 3 by simp
    moreover have "unat (b_cnt c) < REPEAT - 1 \<Longrightarrow> unat (b_cnt c + 1) = Suc (unat (b_cnt c))"
      using bound by (intro b_cnt_Suc) linarith
    ultimately show ?thesis
      unfolding r Let_def using 3 b i mod bound by (simp add: button_press_step_def Let_def)
  qed
qed

text \<open>
  C34: A held button: counting from its first clock, a button that was up before and is held for \<open>m + 1\<close> clocks
  gives a pulse at once, the next after half a second, 25000000 clocks, and then one every 5000000 clocks, and none
  in between, whatever the registers held before.
\<close>

theorem held_button_pulses:
  assumes "\<not> inp 0" "\<And>k. 0 < k \<Longrightarrow> k \<le> Suc m \<Longrightarrow> inp k"
  shows "pulse (run button_press_step inp b (Suc (Suc m))) \<longleftrightarrow> m = 0 \<or> 25000000 \<le> m \<and> 5000000 dvd (m - 25000000)"
  using held_button [of inp m b, OF assms] by (simp add: Let_def HOLD_def REPEAT_def mod_eq_0_iff_dvd del: run.simps)

theorem held_button_pulses_witness:
  "pulse (run button_press_step (\<lambda>t. 0 < t) \<lparr>prev = True, b_cnt = 9, held = True, pulse = False\<rparr> (Suc (Suc 30000000))) \<and>
   \<not> pulse (run button_press_step (\<lambda>t. 0 < t) \<lparr>prev = True, b_cnt = 9, held = True, pulse = False\<rparr> (Suc (Suc 30000001)))"
  using held_button_pulses [of "\<lambda>t. 0 < t" 30000000 "\<lparr>prev = True, b_cnt = 9, held = True, pulse = False\<rparr>"]
    held_button_pulses [of "\<lambda>t. 0 < t" 30000001 "\<lparr>prev = True, b_cnt = 9, held = True, pulse = False\<rparr>"]
  by (simp del: run.simps)

subsection \<open>Digits\<close>

definition hex7seg :: "4 word \<Rightarrow> 7 word" where
  "hex7seg a = [0x40, 0x79, 0x24, 0x30, 0x19, 0x12, 0x02, 0x78, 0x00, 0x10, 0x08, 0x03, 0x46, 0x21, 0x06, 0x0e] ! unat a"

text \<open>No two digits look the same.\<close>

lemma hex7seg_inj: "hex7seg a = hex7seg b \<longleftrightarrow> a = b"
proof -
  let ?l = "[0x40, 0x79, 0x24, 0x30, 0x19, 0x12, 0x02, 0x78, 0x00, 0x10, 0x08, 0x03, 0x46, 0x21, 0x06, 0x0e] :: 7 word list"
  have "unat a < length ?l" "unat b < length ?l"
    using unsigned_less [where ?'a = nat, of a] unsigned_less [where ?'a = nat, of b] by simp_all
  moreover have "distinct ?l" by simp
  ultimately have "?l ! unat a = ?l ! unat b \<longleftrightarrow> unat a = unat b" by (metis nth_eq_iff_index_eq)
  then show ?thesis unfolding hex7seg_def by (simp only: word_unat_eq_iff)
qed

end
