(* ===== verification/Lab1.thy ===== *)
theory Lab1
  imports CollatzRange Buttons
begin

text \<open>
  The top module of the Collatz board (\<open>src/lab1/lab1.sv\<close>), with everything it instantiates: four debounced buttons, two of
  them with repeated pulses, the range module, and six digits.  One clock edge steps all parts together.

  The theorem follows a press of the start button through the debouncer and the whole run to what the digits show
  afterwards, for every other use of the buttons.
\<close>

record lab1 =
  add_d :: debouncer
  sub_d :: debouncer
  reset_d :: debouncer
  go_d :: debouncer
  add_ctrl :: button
  sub_ctrl :: button
  rng :: range
  start :: u32
  ready :: bool
  start_index :: u8

definition lab1_step :: "4 word \<times> 10 word \<Rightarrow> lab1 \<Rightarrow> lab1" where
  "lab1_step i s = (case i of (KEY, SW) \<Rightarrow>
     let s1 = (if nxt (go_d s) then s\<lparr>start := ucast SW, ready := False, start_index := 0\<rparr> else s);
         s2 = (if r_done (rng s) then s1\<lparr>start := 0, ready := True\<rparr> else s1);
         s3 = (if ready s then
                 (if pulse (add_ctrl s) \<and> start s < 255 then s2\<lparr>start := start s + 1, start_index := start_index s + 1\<rparr>
                  else if pulse (sub_ctrl s) \<and> start s > 0 then s2\<lparr>start := start s - 1, start_index := start_index s - 1\<rparr>
                  else if nxt (reset_d s) then s2\<lparr>start := 0, start_index := 0\<rparr> else s2)
               else s2)
     in s3\<lparr>add_d := debouncer_step (\<not> bit KEY 0) (add_d s), sub_d := debouncer_step (\<not> bit KEY 1) (sub_d s),
           reset_d := debouncer_step (\<not> bit KEY 2) (reset_d s), go_d := debouncer_step (\<not> bit KEY 3) (go_d s),
           add_ctrl := button_press_step (nxt (add_d s)) (add_ctrl s), sub_ctrl := button_press_step (nxt (sub_d s)) (sub_ctrl s),
           rng := range_step (nxt (go_d s), start s) (rng s)\<rparr>)"

text \<open>The digits, from the right: \<open>HEX0\<close> to \<open>HEX2\<close> the count, \<open>HEX3\<close> to \<open>HEX5\<close> the number.\<close>

definition start_display :: "10 word \<Rightarrow> lab1 \<Rightarrow> 12 word" where
  "start_display SW s = ucast SW + ucast (start_index s)"

definition digits :: "12 word \<Rightarrow> 7 word list" where
  "digits w = [hex7seg (ucast w), hex7seg (ucast (drop_bit 4 w)), hex7seg (ucast (drop_bit 8 w))]"

definition HEX :: "10 word \<Rightarrow> lab1 \<Rightarrow> 7 word list" where
  "HEX SW s = digits (ucast (r_count (rng s))) @ digits (start_display SW s)"

text \<open>The lights repeat the switches; the unused bits of the count are tied into the leftmost light without effect.\<close>

definition LEDR :: "10 word \<Rightarrow> lab1 \<Rightarrow> 10 word" where
  "LEDR SW s = (let unused = ucast (drop_bit 12 (r_count (rng s))) :: 4 word in
     (SW AND 0x1ff) OR push_bit 9 (of_bool (bit SW 9 \<noteq> (fold (\<lambda>i p. p \<noteq> bit unused i) [0..<4] False \<and> bit (0 :: 1 word) 0))))"

lemma LEDR_switches: "LEDR SW s = SW"
proof (rule bit_word_eqI)
  fix n assume n: "n < LENGTH(10)"
  have "(0x1ff :: 10 word) = mask 9" by (simp add: mask_eq_exp_minus_1)
  then have m: "bit (0x1ff :: 10 word) n \<longleftrightarrow> n < 9" using n by (simp only: bit_mask_iff) auto
  show "bit (LEDR SW s) n = bit SW n"
    unfolding LEDR_def Let_def bit_or_iff bit_and_iff m using n
    by (cases "n = 9") (auto simp: bit_push_bit_iff bit_of_bool_iff)
qed

subsection \<open>The parts\<close>

lemma go_d_run: "go_d (run lab1_step inp s t) = run debouncer_step (\<lambda>k. \<not> bit (fst (inp k)) 3) (go_d s) t"
  by (rule run_part) (simp add: lab1_step_def Let_def split_beta)

lemma rng_run:
  "rng (run lab1_step inp s t) =
     run range_step (\<lambda>k. (nxt (go_d (run lab1_step inp s k)), start (run lab1_step inp s k))) (rng s) t"
  by (rule run_part [where f = "\<lambda>i s. (nxt (go_d s), start s)"]) (simp add: lab1_step_def Let_def split_beta)

lemma go_wave:
  assumes "go_d s = released" "\<And>t. bit (fst (inp t)) 3 \<longleftrightarrow> p \<le> t" "16384 \<le> p"
  shows "nxt (go_d (run lab1_step inp s t)) \<longleftrightarrow> 16386 \<le> t \<and> t < p + 16386"
proof -
  have "(\<lambda>k. \<not> bit (fst (inp k)) 3) = (\<lambda>k. k < p)" by (simp add: assms(2) not_le)
  then show ?thesis using long_press [OF assms(3), of t] by (simp add: go_d_run assms(1) Let_def)
qed

text \<open>The number registers while a run is on, and after it.\<close>

lemma go_step:
  assumes "nxt (go_d s)" "\<not> r_done (rng s)"
  shows "\<not> ready (lab1_step i s)"
    "\<not> ready s \<Longrightarrow> start (lab1_step i s) = ucast (snd i) \<and> start_index (lab1_step i s) = 0"
  using assms by (simp_all add: lab1_step_def Let_def split_beta)

lemma wait_step:
  assumes "\<not> nxt (go_d s)" "\<not> r_done (rng s)" "\<not> ready s"
  shows "\<not> ready (lab1_step i s)" "start (lab1_step i s) = start s" "start_index (lab1_step i s) = start_index s"
  using assms by (simp_all add: lab1_step_def Let_def split_beta)

lemma done_step:
  assumes "\<not> nxt (go_d s)" "r_done (rng s)" "\<not> ready s"
  shows "ready (lab1_step i s)" "start (lab1_step i s) = 0" "start_index (lab1_step i s) = start_index s"
  using assms by (simp_all add: lab1_step_def Let_def split_beta)

definition browsing :: "lab1 \<Rightarrow> bool" where
  "browsing s \<longleftrightarrow> ready s \<and> start s = ucast (start_index s)"

lemma browsing_step:
  assumes "\<not> nxt (go_d s)" "\<not> r_done (rng s)" "browsing s"
  shows "browsing (lab1_step i s)"
proof -
  let ?n = "unat (start_index s)"
  have n: "?n < 256" using unsigned_less [where ?'a = nat, of "start_index s"] by simp
  then have start: "unat (start s) = ?n" "ready s"
    using assms(3) by (simp_all add: browsing_def unat_slice)
  have up: "unat (start s + 1) = unat (start_index s + 1)" if "start s < 255"
    using that start n by (simp add: unat_word_ariths word_less_nat_alt)
  have down: "unat (start s - 1) = unat (start_index s - 1)" if "start s > 0"
  proof -
    have "start s \<noteq> 0" "start_index s \<noteq> 0" using that start(1) by (auto simp: word_less_nat_alt)
    then show ?thesis using start(1) by (simp add: unat_minus_one)
  qed
  have eq: "w = ucast j \<longleftrightarrow> unat w = unat j" for w :: u32 and j :: u8
    using unsigned_less [where ?'a = nat, of j] by (simp add: word_unat_eq_iff unat_slice)
  show ?thesis
    using assms(1,2) start up down by (auto simp: lab1_step_def Let_def split_beta browsing_def eq)
qed

subsection \<open>A run\<close>

text \<open>The clocks from the rise of the debounced start button on, with the range module at rest before.\<close>

definition started :: "(nat \<Rightarrow> 4 word \<times> 10 word) \<Rightarrow> lab1 \<Rightarrow> nat \<Rightarrow> 10 word \<Rightarrow> bool" where
  "started inp s g v \<longleftrightarrow> no_stale_done (rng s) \<and> 6 \<le> g \<and> (\<forall>t. snd (inp t) = v) \<and>
     (\<forall>t. nxt (go_d (run lab1_step inp s t)) \<longleftrightarrow> t < g)"

lemma held_start:
  assumes "started inp s g v" "5 \<le> t" "t \<le> g"
  shows "\<not> ready (run lab1_step inp s t)" "start (run lab1_step inp s t) = ucast v" "start_index (run lab1_step inp s t) = 0"
proof -
  let ?r = "run lab1_step inp s"
  let ?i = "\<lambda>k. (nxt (go_d (?r k)), start (?r k))"
  have go: "\<And>t. nxt (go_d (?r t)) \<longleftrightarrow> t < g" and v: "\<And>t. snd (inp t) = v" and ns: "no_stale_done (rng s)"
    using assms(1) by (auto simp: started_def)
  have quiet: "\<not> r_done (rng (?r u))" if "3 \<le> u" "u \<le> g" for u
    using loading_run [OF ns, of u ?i] that go by (auto simp: rng_run [of inp s u] loading_def)
  obtain u where u: "t = Suc u" "4 \<le> u" "u < g" using assms(2,3) by (cases t) auto
  then obtain w where w: "u = Suc w" "3 \<le> w" by (cases u) auto
  have "\<not> ready (?r u)" using go_step(1) [of "?r w"] quiet [of w] go u w by simp
  then show "\<not> ready (?r t)" "start (?r t) = ucast v" "start_index (?r t) = 0"
    using go_step [of "?r u" "inp u"] quiet [of u] go u v by simp_all
qed

lemma waiting:
  assumes "started inp s g v" "\<And>u. g \<le> u \<Longrightarrow> u < t \<Longrightarrow> \<not> r_done (rng (run lab1_step inp s u))" "g \<le> t"
  shows "\<not> ready (run lab1_step inp s t) \<and> start (run lab1_step inp s t) = ucast v \<and> start_index (run lab1_step inp s t) = 0"
  using assms(3,2)
proof (induction t rule: dec_induct)
  case base
  show ?case using held_start [OF assms(1), of g] assms(1) by (simp add: started_def)
next
  case (step t)
  then show ?case using wait_step [of "run lab1_step inp s t"] assms(1) by (simp add: started_def)
qed

lemma range_input:
  assumes "started inp s g v"
  defines "i \<equiv> \<lambda>k. (nxt (go_d (run lab1_step inp s k)), start (run lab1_step inp s k))"
  shows "no_stale_done (rng s)" "\<And>t. fst (i t) \<longleftrightarrow> t < g" "4 \<le> g" "snd (i (g - 1)) = ucast v"
  using assms(1) held_start(2) [OF assms(1), of "g - 1"] by (auto simp: started_def i_def)

lemma board_start:
  assumes "v \<noteq> 0"
  shows "\<exists>ks. (\<forall>l<256. reaches collatz_next (ks l) (unat v + l)) \<and>
    (\<forall>l<256. reaches collatz_word (ks l) (ucast (v :: 10 word) + of_nat l))"
proof -
  have v: "0 < unat v" "unat v < 1024" using assms unsigned_less [where ?'a = nat, of v] by (simp_all add: unat_gt_0)
  have "\<exists>k. l < 256 \<longrightarrow> reaches collatz_next k (unat v + l) \<and> fits k (unat v + l)" for l
    using board_number_reaches [of "unat v + l"] v by auto
  then obtain ks where ks: "\<And>l. l < 256 \<Longrightarrow> reaches collatz_next (ks l) (unat v + l) \<and> fits (ks l) (unat v + l)"
    by metis
  have "unat (ucast v + of_nat l :: u32) = unat v + l" if "l < 256" for l
    using that v by (simp add: unat_word_ariths unat_of_nat_small unat_slice)
  then have "\<forall>l<256. reaches collatz_word (ks l) (ucast v + of_nat l)" using ks reaches_word by metis
  then show ?thesis using ks by blast
qed

lemma run_ends:
  assumes "started inp s g v" "v \<noteq> 0"
  shows "\<exists>T. \<forall>t\<ge>T. browsing (run lab1_step inp s t) \<and>
    (\<forall>k. reaches collatz_next k (unat v + unat (start_index (run lab1_step inp s t))) \<longrightarrow>
      r_count (rng (run lab1_step inp s (Suc t))) = of_nat (k + 1))"
proof -
  let ?r = "run lab1_step inp s"
  obtain ks where ks: "\<And>l. l < 256 \<Longrightarrow> reaches collatz_next (ks l) (unat v + l)"
    "\<And>l. l < 256 \<Longrightarrow> reaches collatz_word (ks l) (ucast v + of_nat l)" using board_start [OF assms(2)] by blast
  define T where "T = end_time g ks"
  note rr = range_run [OF range_input [OF assms(1)] ks(2), folded rng_run T_def]
  have g: "g < T" "\<And>t. g \<le> t \<Longrightarrow> \<not> nxt (go_d (?r t))" "3 \<le> g"
    using assms(1) by (auto simp: T_def end_time_def started_def)
  have at: "\<not> ready (?r T)" using waiting [OF assms(1), of T] rr(2) g by simp
  have br: "browsing (?r t)" if "Suc T \<le> t" for t
    using that
  proof (induction t rule: dec_induct)
    case base
    have "start_index (?r T) = 0" using waiting [OF assms(1), of T] rr(2) g by simp
    then show ?case using done_step [of "?r T"] at rr(1) g by (simp add: browsing_def)
  next
    case (step t)
    then show ?case using browsing_step [of "?r t"] rr(2) [of t] g by simp
  qed
  have "r_count (rng (?r (Suc t))) = of_nat (k + 1)"
    if "Suc T \<le> t" "reaches collatz_next k (unat v + unat (start_index (?r t)))" for t k
  proof -
    let ?n = "unat (start_index (?r t))"
    have n: "?n < 256" using unsigned_less [where ?'a = nat, of "start_index (?r t)"] by simp
    have "k = ks ?n" using reaches_unique [OF that(2) ks(1) [OF n]] .
    moreover have "start (?r t) = ucast (start_index (?r t))" using br [OF that(1)] by (simp add: browsing_def)
    moreover have "unat (ucast (ucast (start_index (?r t)) :: u32) :: 8 word) = ?n"
      using n by (simp add: unat_slice)
    ultimately show ?thesis using rr(4) [of t] that(1) by simp
  qed
  with br show ?thesis by blast
qed

lemma zero_hangs:
  assumes "started inp s g 0" "g \<le> t"
  shows "\<not> ready (run lab1_step inp s t)"
proof -
  have "\<not> r_done (rng (run lab1_step inp s u))" if "g \<le> u" for u
    using range_stuck [OF range_input [OF assms(1)], of u] that assms(1) zero_never_reaches
    by (simp add: rng_run [of inp s u] started_def)
  then show ?thesis using waiting [OF assms(1) _ assms(2)] by blast
qed

lemma press_starts:
  assumes "go_d s = released" "\<not> r_running (rng s)" "\<not> r_we (rng s)"
    and "\<And>t. bit (fst (inp t)) 3 \<longleftrightarrow> p \<le> t" "16384 \<le> p" "\<And>t. snd (inp t) = v"
  shows "started (\<lambda>t. inp (16386 + t)) (run lab1_step inp s 16386) p v"
proof -
  let ?r = "run lab1_step inp s"
  have go: "nxt (go_d (?r t)) \<longleftrightarrow> 16386 \<le> t \<and> t < p + 16386" for t by (rule go_wave [OF assms(1,4,5)])
  have "rng (?r 16386) = run range_step (\<lambda>k. (False, start (?r k))) (rng s) 16386"
    unfolding rng_run [of inp s 16386] by (rule run_cong) (simp add: go)
  moreover have "idle (r_mem (rng s)) (rng s)" using assms(2,3) by (simp add: idle_def)
  ultimately have "idle (r_mem (rng s)) (rng (?r 16386))"
    using idle_run(1) [of _ "rng s" "\<lambda>k. (False, start (?r k))" 16386] by simp
  then have "no_stale_done (rng (?r 16386))" by (simp add: idle_def no_stale_done_def)
  moreover have "nxt (go_d (run lab1_step (\<lambda>t. inp (16386 + t)) (?r 16386) t)) \<longleftrightarrow> t < p" for t
    using go [of "16386 + t"] by (simp add: run_add)
  ultimately show ?thesis using assms(5,6) by (simp add: started_def)
qed

lemma shown_number: "drop 3 (HEX v s) = digits (of_nat (unat v + unat (start_index s)))"
  by (simp add: HEX_def start_display_def digits_def)

lemma shown_count:
  assumes "r_count (rng s) = of_nat n"
  shows "take 3 (HEX v s) = digits (of_nat n)"
proof -
  have "(ucast (of_nat n :: u16) :: 12 word) = of_nat n"
    by (simp add: word_unat_eq_iff unat_slice unat_of_nat take_bit_eq_mod mod_mod_cancel)
  then show ?thesis by (simp add: HEX_def assms) (simp add: digits_def)
qed

text \<open>
  C14: The board: when the start button is pressed for at least 16384 clocks and released, with the switches at \<open>v\<close> and
  the range module at rest before, then from some clock on, whatever is done with the other buttons, the board is ready exactly if
  \<open>v\<close> is not 0; and then the left digits show a number, \<open>v\<close> plus the chosen index, and the right
  digits show one clock later the length of the Collatz sequence of that number.
\<close>

theorem lab1_run:
  assumes "go_d s = released" "\<not> r_running (rng s)" "\<not> r_we (rng s)"
    and "\<And>t. bit (fst (inp t)) 3 \<longleftrightarrow> p \<le> t" "16384 \<le> p" "\<And>t. snd (inp t) = v"
  shows "\<exists>T. \<forall>t\<ge>T. let b = run lab1_step inp s t; n = unat v + unat (start_index b)
    in (ready b \<longleftrightarrow> v \<noteq> 0) \<and>
       (v \<noteq> 0 \<longrightarrow> drop 3 (HEX v b) = digits (of_nat n) \<and>
          (\<exists>k. reaches collatz_next k n \<and> take 3 (HEX v (run lab1_step inp s (Suc t))) = digits (of_nat (k + 1))))"
proof -
  let ?inp = "\<lambda>t. inp (16386 + t)" and ?s = "run lab1_step inp s 16386"
  have st: "started ?inp ?s p v" by (rule press_starts [OF assms])
  have later: "run lab1_step inp s t = run lab1_step ?inp ?s (t - 16386)" if "16386 \<le> t" for t
    using that run_add [of lab1_step inp s 16386 "t - 16386"] by simp
  show ?thesis
  proof (cases "v = 0")
    case True
    have "\<not> ready (run lab1_step inp s t)" if "16386 + p \<le> t" for t
      using zero_hangs [OF st [unfolded True], of "t - 16386"] that later [of t] by simp
    then show ?thesis using True by (auto simp: Let_def intro!: exI [of _ "16386 + p"])
  next
    case False
    then obtain T where T: "\<And>t. T \<le> t \<Longrightarrow> browsing (run lab1_step ?inp ?s t) \<and>
        (\<forall>k. reaches collatz_next k (unat v + unat (start_index (run lab1_step ?inp ?s t))) \<longrightarrow>
          r_count (rng (run lab1_step ?inp ?s (Suc t))) = of_nat (k + 1))" using run_ends [OF st] by blast
    have "let b = run lab1_step inp s t; n = unat v + unat (start_index b)
      in ready b \<and> drop 3 (HEX v b) = digits (of_nat n) \<and>
          (\<exists>k. reaches collatz_next k n \<and> take 3 (HEX v (run lab1_step inp s (Suc t))) = digits (of_nat (k + 1)))"
      if "16386 + T \<le> t" for t
    proof -
      let ?b = "run lab1_step inp s t"
      have b: "?b = run lab1_step ?inp ?s (t - 16386)" "run lab1_step inp s (Suc t) = run lab1_step ?inp ?s (Suc (t - 16386))"
        using later [of t] later [of "Suc t"] that by (simp_all only: Suc_diff_le)
      have "0 < unat v + unat (start_index ?b)" "unat v + unat (start_index ?b) \<le> 1278"
        using False unsigned_less [where ?'a = nat, of v] unsigned_less [where ?'a = nat, of "start_index ?b"]
        by (simp_all add: unat_gt_0)
      from board_number_reaches [OF this] obtain k where k: "reaches collatz_next k (unat v + unat (start_index ?b))" by auto
      then have "r_count (rng (run lab1_step inp s (Suc t))) = of_nat (k + 1)" "browsing ?b"
        using T [of "t - 16386"] that unfolding b by auto
      then show ?thesis using k shown_count by (auto simp only: Let_def shown_number browsing_def)
    qed
    then show ?thesis using False unfolding Let_def by blast
  qed
qed

definition board_on :: lab1 where
  "board_on = \<lparr>add_d = released, sub_d = released, reset_d = released, go_d = released,
     add_ctrl = \<lparr>prev = False, b_cnt = 0, held = False, pulse = False\<rparr>, sub_ctrl = \<lparr>prev = False, b_cnt = 0, held = False, pulse = False\<rparr>,
     rng = power_up, start = 0, ready = True, start_index = 77\<rparr>"

theorem lab1_run_witness:
  "(\<exists>T. \<forall>t\<ge>T. ready (run lab1_step (\<lambda>t. (if t < 20000 then 7 else 15, 3)) board_on t)) \<and>
   (\<exists>T. \<forall>t\<ge>T. \<not> ready (run lab1_step (\<lambda>t. (if t < 20000 then 7 else 15, 0)) board_on t))"
proof -
  have on: "go_d board_on = released" "\<not> r_running (rng board_on)" "\<not> r_we (rng board_on)"
    by (simp_all add: board_on_def power_up_def)
  have key: "bit (fst (if t < 20000 then 7 else 15 :: 4 word, v)) 3 \<longleftrightarrow> 20000 \<le> t" for t :: nat and v :: "10 word"
    by (simp add: bit_unat)
  have "\<exists>T. \<forall>t\<ge>T. ready (run lab1_step (\<lambda>t. (if t < 20000 then 7 else 15, v)) board_on t) \<longleftrightarrow> v \<noteq> 0" for v
    using lab1_run [OF on, of "\<lambda>t. (if t < 20000 then 7 else 15, v)" 20000 v, OF key] unfolding Let_def by fastforce
  from this [of 3] this [of 0] show ?thesis by simp
qed

end
