(* ===== verification/SeqRom.thy ===== *)
theory SeqRom
  imports Prelude
begin

text \<open>
  The micro-program of the read/write manager, as generated for the board: the addresses the
  sequencer jumps to (\<open>sequencer_auto.h\<close>) and the two tables it loads into the manager at start-up
  (\<open>sequencer_auto_inst_init.c\<close>, \<open>sequencer_auto_ac_init.c\<close>).  The lemma shows that the three
  generated files agree with each other.
\<close>

text \<open>The instructions that have a name; a constructor \<open>X\<close> is the macro \<open>__RW_MGR_X\<close>.\<close>

datatype uinst =
     I_READ_B2B_WAIT2 | I_LFSR_WR_RD_BANK_0_WAIT | I_REFRESH_ALL | I_ZQCL |
     I_LFSR_WR_RD_BANK_0_NOP | I_LFSR_WR_RD_BANK_0_DQS | I_ACTIVATE_0_AND_1 | I_MRS2_MIRR |
     I_INIT_RESET_0_CKE_0 | I_LFSR_WR_RD_DM_BANK_0_WAIT | I_ACTIVATE_1 | I_MRS2 |
     I_LFSR_WR_RD_DM_BANK_0_WL_1 | I_MRS1 | I_IDLE_LOOP1 | I_GUARANTEED_WRITE_WAIT2 |
     I_MRS3 | I_IDLE_LOOP2 | I_GUARANTEED_WRITE_WAIT1 | I_LFSR_WR_RD_BANK_0_DATA |
     I_GUARANTEED_WRITE_WAIT3 | I_RDIMM_CMD | I_LFSR_WR_RD_DM_BANK_0_NOP |
     I_GUARANTEED_WRITE_WAIT0 | I_LFSR_WR_RD_DM_BANK_0_DATA | I_GUARANTEED_READ_CONT |
     I_REFRESH_DELAY | I_MRS3_MIRR | I_IDLE | I_READ_B2B | I_LFSR_WR_RD_DM_BANK_0_DQS |
     I_GUARANTEED_WRITE | I_PRECHARGE_ALL | I_SGLE_READ | I_MRS0_USER_MIRR | I_RETURN |
     I_LFSR_WR_RD_DM_BANK_0 | I_MRS0_USER | I_GUARANTEED_READ | I_MRS0_DLL_RESET_MIRR |
     I_INIT_RESET_1_CKE_0 | I_ACTIVATE_0_AND_1_WAIT2 | I_LFSR_WR_RD_BANK_0_WL_1 |
     I_MRS0_DLL_RESET | I_ACTIVATE_0_AND_1_WAIT1 | I_LFSR_WR_RD_BANK_0 |
     I_CLEAR_DQS_ENABLE | I_MRS1_MIRR | I_READ_B2B_WAIT1

definition uinsts :: "uinst list" where
  "uinsts =
    [I_READ_B2B_WAIT2, I_LFSR_WR_RD_BANK_0_WAIT, I_REFRESH_ALL, I_ZQCL,
     I_LFSR_WR_RD_BANK_0_NOP, I_LFSR_WR_RD_BANK_0_DQS, I_ACTIVATE_0_AND_1, I_MRS2_MIRR,
     I_INIT_RESET_0_CKE_0, I_LFSR_WR_RD_DM_BANK_0_WAIT, I_ACTIVATE_1, I_MRS2,
     I_LFSR_WR_RD_DM_BANK_0_WL_1, I_MRS1, I_IDLE_LOOP1, I_GUARANTEED_WRITE_WAIT2, I_MRS3,
     I_IDLE_LOOP2, I_GUARANTEED_WRITE_WAIT1, I_LFSR_WR_RD_BANK_0_DATA,
     I_GUARANTEED_WRITE_WAIT3, I_RDIMM_CMD, I_LFSR_WR_RD_DM_BANK_0_NOP,
     I_GUARANTEED_WRITE_WAIT0, I_LFSR_WR_RD_DM_BANK_0_DATA, I_GUARANTEED_READ_CONT,
     I_REFRESH_DELAY, I_MRS3_MIRR, I_IDLE, I_READ_B2B, I_LFSR_WR_RD_DM_BANK_0_DQS,
     I_GUARANTEED_WRITE, I_PRECHARGE_ALL, I_SGLE_READ, I_MRS0_USER_MIRR, I_RETURN,
     I_LFSR_WR_RD_DM_BANK_0, I_MRS0_USER, I_GUARANTEED_READ, I_MRS0_DLL_RESET_MIRR,
     I_INIT_RESET_1_CKE_0, I_ACTIVATE_0_AND_1_WAIT2, I_LFSR_WR_RD_BANK_0_WL_1,
     I_MRS0_DLL_RESET, I_ACTIVATE_0_AND_1_WAIT1, I_LFSR_WR_RD_BANK_0, I_CLEAR_DQS_ENABLE,
     I_MRS1_MIRR, I_READ_B2B_WAIT1]"

text \<open>The address of an instruction in the instruction memory.\<close>

fun inst :: "uinst \<Rightarrow> u32" where
  "inst I_READ_B2B_WAIT2 = 0x6B"
| "inst I_LFSR_WR_RD_BANK_0_WAIT = 0x32"
| "inst I_REFRESH_ALL = 0x14"
| "inst I_ZQCL = 0x06"
| "inst I_LFSR_WR_RD_BANK_0_NOP = 0x23"
| "inst I_LFSR_WR_RD_BANK_0_DQS = 0x24"
| "inst I_ACTIVATE_0_AND_1 = 0x0D"
| "inst I_MRS2_MIRR = 0x0A"
| "inst I_INIT_RESET_0_CKE_0 = 0x6F"
| "inst I_LFSR_WR_RD_DM_BANK_0_WAIT = 0x46"
| "inst I_ACTIVATE_1 = 0x0F"
| "inst I_MRS2 = 0x04"
| "inst I_LFSR_WR_RD_DM_BANK_0_WL_1 = 0x35"
| "inst I_MRS1 = 0x03"
| "inst I_IDLE_LOOP1 = 0x7B"
| "inst I_GUARANTEED_WRITE_WAIT2 = 0x19"
| "inst I_MRS3 = 0x05"
| "inst I_IDLE_LOOP2 = 0x7A"
| "inst I_GUARANTEED_WRITE_WAIT1 = 0x1F"
| "inst I_LFSR_WR_RD_BANK_0_DATA = 0x25"
| "inst I_GUARANTEED_WRITE_WAIT3 = 0x1D"
| "inst I_RDIMM_CMD = 0x79"
| "inst I_LFSR_WR_RD_DM_BANK_0_NOP = 0x37"
| "inst I_GUARANTEED_WRITE_WAIT0 = 0x1B"
| "inst I_LFSR_WR_RD_DM_BANK_0_DATA = 0x39"
| "inst I_GUARANTEED_READ_CONT = 0x54"
| "inst I_REFRESH_DELAY = 0x15"
| "inst I_MRS3_MIRR = 0x0B"
| "inst I_IDLE = 0x00"
| "inst I_READ_B2B = 0x59"
| "inst I_LFSR_WR_RD_DM_BANK_0_DQS = 0x38"
| "inst I_GUARANTEED_WRITE = 0x18"
| "inst I_PRECHARGE_ALL = 0x12"
| "inst I_SGLE_READ = 0x7D"
| "inst I_MRS0_USER_MIRR = 0x0C"
| "inst I_RETURN = 0x01"
| "inst I_LFSR_WR_RD_DM_BANK_0 = 0x36"
| "inst I_MRS0_USER = 0x07"
| "inst I_GUARANTEED_READ = 0x4C"
| "inst I_MRS0_DLL_RESET_MIRR = 0x08"
| "inst I_INIT_RESET_1_CKE_0 = 0x74"
| "inst I_ACTIVATE_0_AND_1_WAIT2 = 0x10"
| "inst I_LFSR_WR_RD_BANK_0_WL_1 = 0x21"
| "inst I_MRS0_DLL_RESET = 0x02"
| "inst I_ACTIVATE_0_AND_1_WAIT1 = 0x0E"
| "inst I_LFSR_WR_RD_BANK_0 = 0x22"
| "inst I_CLEAR_DQS_ENABLE = 0x49"
| "inst I_MRS1_MIRR = 0x09"
| "inst I_READ_B2B_WAIT1 = 0x61"

text \<open>The word the generator documents at that address.\<close>

fun inst_content :: "uinst \<Rightarrow> u32" where
  "inst_content I_READ_B2B_WAIT2 = 0x00C680"
| "inst_content I_LFSR_WR_RD_BANK_0_WAIT = 0x00A680"
| "inst_content I_REFRESH_ALL = 0x000980"
| "inst_content I_ZQCL = 0x008380"
| "inst_content I_LFSR_WR_RD_BANK_0_NOP = 0x00E700"
| "inst_content I_LFSR_WR_RD_BANK_0_DQS = 0x000C00"
| "inst_content I_ACTIVATE_0_AND_1 = 0x000800"
| "inst_content I_MRS2_MIRR = 0x008580"
| "inst_content I_INIT_RESET_0_CKE_0 = 0x000000"
| "inst_content I_LFSR_WR_RD_DM_BANK_0_WAIT = 0x00A680"
| "inst_content I_ACTIVATE_1 = 0x000880"
| "inst_content I_MRS2 = 0x008280"
| "inst_content I_LFSR_WR_RD_DM_BANK_0_WL_1 = 0x00CE00"
| "inst_content I_MRS1 = 0x008200"
| "inst_content I_IDLE_LOOP1 = 0x00A680"
| "inst_content I_GUARANTEED_WRITE_WAIT2 = 0x00CCE8"
| "inst_content I_MRS3 = 0x008300"
| "inst_content I_IDLE_LOOP2 = 0x008680"
| "inst_content I_GUARANTEED_WRITE_WAIT1 = 0x00AC88"
| "inst_content I_LFSR_WR_RD_BANK_0_DATA = 0x020CE0"
| "inst_content I_GUARANTEED_WRITE_WAIT3 = 0x00EC88"
| "inst_content I_RDIMM_CMD = 0x009180"
| "inst_content I_LFSR_WR_RD_DM_BANK_0_NOP = 0x00E700"
| "inst_content I_GUARANTEED_WRITE_WAIT0 = 0x008CE8"
| "inst_content I_LFSR_WR_RD_DM_BANK_0_DATA = 0x030CE0"
| "inst_content I_GUARANTEED_READ_CONT = 0x001168"
| "inst_content I_REFRESH_DELAY = 0x00A680"
| "inst_content I_MRS3_MIRR = 0x008600"
| "inst_content I_IDLE = 0x080000"
| "inst_content I_READ_B2B = 0x040E88"
| "inst_content I_LFSR_WR_RD_DM_BANK_0_DQS = 0x000C00"
| "inst_content I_GUARANTEED_WRITE = 0x000B68"
| "inst_content I_PRECHARGE_ALL = 0x000900"
| "inst_content I_SGLE_READ = 0x040F08"
| "inst_content I_MRS0_USER_MIRR = 0x008400"
| "inst_content I_RETURN = 0x080680"
| "inst_content I_LFSR_WR_RD_DM_BANK_0 = 0x00CD80"
| "inst_content I_MRS0_USER = 0x008100"
| "inst_content I_GUARANTEED_READ = 0x001168"
| "inst_content I_MRS0_DLL_RESET_MIRR = 0x008480"
| "inst_content I_INIT_RESET_1_CKE_0 = 0x000080"
| "inst_content I_ACTIVATE_0_AND_1_WAIT2 = 0x00A680"
| "inst_content I_LFSR_WR_RD_BANK_0_WL_1 = 0x00CE00"
| "inst_content I_MRS0_DLL_RESET = 0x008180"
| "inst_content I_ACTIVATE_0_AND_1_WAIT1 = 0x008680"
| "inst_content I_LFSR_WR_RD_BANK_0 = 0x00CD80"
| "inst_content I_CLEAR_DQS_ENABLE = 0x001158"
| "inst_content I_MRS1_MIRR = 0x008500"
| "inst_content I_READ_B2B_WAIT1 = 0x00A680"

definition inst_rom_init :: "u32 list" where
  "inst_rom_init =
    [0x80000, 0x80680, 0x8180, 0x8200, 0x8280, 0x8300, 0x8380, 0x8100, 0x8480, 0x8500,
     0x8580, 0x8600, 0x8400, 0x800, 0x8680, 0x880, 0xa680, 0x80680, 0x900, 0x80680, 0x980,
     0xa680, 0x8680, 0x80680, 0xb68, 0xcce8, 0xae8, 0x8ce8, 0xb88, 0xec88, 0xa08, 0xac88,
     0x80680, 0xce00, 0xcd80, 0xe700, 0xc00, 0x20ce0, 0x20ce0, 0x20ce0, 0x20ce0, 0xd00,
     0x680, 0x680, 0x680, 0x680, 0x60e80, 0x61080, 0x61080, 0x61080, 0xa680, 0x8680,
     0x80680, 0xce00, 0xcd80, 0xe700, 0xc00, 0x30ce0, 0x30ce0, 0x30ce0, 0x30ce0, 0xd00,
     0x680, 0x680, 0x680, 0x680, 0x70e80, 0x71080, 0x71080, 0x71080, 0xa680, 0x8680,
     0x80680, 0x1158, 0x6d8, 0x80680, 0x1168, 0x7e8, 0x7e8, 0x87e8, 0x40fe8, 0x410e8,
     0x410e8, 0x410e8, 0x1168, 0x7e8, 0x7e8, 0xa7e8, 0x80680, 0x40e88, 0x41088, 0x41088,
     0x41088, 0x40f68, 0x410e8, 0x410e8, 0x410e8, 0xa680, 0x40fe8, 0x410e8, 0x410e8,
     0x410e8, 0x41008, 0x41088, 0x41088, 0x41088, 0x1100, 0xc680, 0x8680, 0xe680, 0x80680,
     0x0, 0x8000, 0xa000, 0xc000, 0x80000, 0x80, 0x8080, 0xa080, 0xc080, 0x80080, 0x9180,
     0x8680, 0xa680, 0x80680, 0x40f08, 0x80680]"

definition inst_rom_init_size :: nat where
  "inst_rom_init_size = 127"

definition ac_rom_init :: "u32 list" where
  "ac_rom_init =
    [0x20700000, 0x20780000, 0x10080471, 0x10080570, 0x10090006, 0x100a0218, 0x100b0000,
     0x10380400, 0x10080469, 0x100804e8, 0x100a0006, 0x10090218, 0x100b0000, 0x30780000,
     0x38780000, 0x30780000, 0x10680000, 0x106b0000, 0x10280400, 0x10480000, 0x1c980000,
     0x1c9b0000, 0x1c980008, 0x1c9b0008, 0x38f80000, 0x3cf80000, 0x38780000, 0x18180000,
     0x18980000, 0x13580000, 0x135b0000, 0x13580008, 0x135b0008, 0x33780000, 0x10580008,
     0x10780000]"

definition ac_rom_init_size :: nat where
  "ac_rom_init_size = 36"

lemma rom_sizes [simp]:
  "length inst_rom_init = inst_rom_init_size" "length ac_rom_init = ac_rom_init_size"
  by (simp_all add: inst_rom_init_def ac_rom_init_def inst_rom_init_size_def ac_rom_init_size_def)

text \<open>
  the generated files agree.  Every named instruction lies inside the instruction memory,
  the word loaded there is the one the header documents for it, and no two names share an address.
\<close>

theorem inst_rom_consistent:
  "unat (inst i) < inst_rom_init_size \<and> inst_rom_init ! unat (inst i) = inst_content i \<and>
   (inst i = inst j \<longleftrightarrow> i = j)"
proof -
  have "unat (inst i) < inst_rom_init_size \<and> inst_rom_init ! unat (inst i) = inst_content i"
    by (cases i) (simp_all add: inst_rom_init_size_def inst_rom_init_def)
  moreover have "inst i = inst j \<longleftrightarrow> i = j"
  proof -
    have "inj_on inst (set uinsts)"
      by (rule distinct_map [THEN iffD1, THEN conjunct2]) code_simp
    moreover have "k \<in> set uinsts" for k
      by (cases k) (simp_all add: uinsts_def)
    ultimately show ?thesis by (auto dest: inj_onD)
  qed
  ultimately show ?thesis by blast
qed

end
