(* ===== verification/SeqBase.thy ===== *)
theory SeqBase
  imports SeqRom "HOL-Library.State_Monad"
begin

text \<open>
  What the theories of the SDRAM calibration sequencer share
  (\<open>sequencer.c\<close>, \<open>sequencer.h\<close>, \<open>sequencer_defines.h\<close>, \<open>sdram_io.h\<close> of
  \<open>src/lab3/lab3-hw/hps_isw_handoff/soc_system_hps_0\<close>):

  \<^item> the constants of the generated configuration, as definitions in \<open>config_simps\<close>; code the
    preprocessor removes for this configuration is not modelled, and the assertions, the debugging
    output and the reports, which expand to nothing, are left out;
  \<^item> the registers (\<open>reg\<close>) with their bus addresses and the address decoding of the processor;
  \<^item> the sequencer's variables (\<open>gbl_t\<close>, \<open>param_t\<close>, \<open>seq\<close>) and the monad its functions run in.
    The hardware behind the registers is not part of the repository: it is a parameter \<open>M\<close> of
    every operation, a pair of functions on a hardware state of arbitrary type, so that a test
    may pass or fail in any way whatever;
  \<^item> the loops, and the rules by which the components prove that they keep an invariant;
  \<^item> the interface \<open>scc_bus\<close> to the scan chain manager, whose delay registers hold what is
    written to them, and its implementation \<open>scc_file\<close> on top of any other hardware.
\<close>

named_theorems config_simps \<open>the constants of the generated configuration\<close>
named_theorems safe_intros \<open>the operations that keep the invariant of the bus\<close>

subsection \<open>Configuration\<close>

definition RW_MGR_MEM_NUMBER_OF_RANKS :: u32 where [config_simps]: "RW_MGR_MEM_NUMBER_OF_RANKS = 1"
definition NUM_RANKS_PER_SHADOW_REG :: u32 where [config_simps]: "NUM_RANKS_PER_SHADOW_REG = 1"
definition RW_MGR_MEM_IF_READ_DQS_WIDTH :: u32 where [config_simps]: "RW_MGR_MEM_IF_READ_DQS_WIDTH = 4"
definition RW_MGR_MEM_IF_WRITE_DQS_WIDTH :: u32 where [config_simps]: "RW_MGR_MEM_IF_WRITE_DQS_WIDTH = 4"
definition RW_MGR_MEM_DQ_PER_READ_DQS :: u32 where [config_simps]: "RW_MGR_MEM_DQ_PER_READ_DQS = 8"
definition RW_MGR_MEM_DQ_PER_WRITE_DQS :: u32 where [config_simps]: "RW_MGR_MEM_DQ_PER_WRITE_DQS = 8"
definition RW_MGR_NUM_DM_PER_WRITE_GROUP :: u32 where [config_simps]: "RW_MGR_NUM_DM_PER_WRITE_GROUP = 1"
definition RW_MGR_NUM_DQS_PER_WRITE_GROUP :: u32 where [config_simps]: "RW_MGR_NUM_DQS_PER_WRITE_GROUP = 1"
definition RW_MGR_MEM_VIRTUAL_GROUPS_PER_READ_DQS :: u32 where [config_simps]: "RW_MGR_MEM_VIRTUAL_GROUPS_PER_READ_DQS = 1"
definition RW_MGR_MEM_VIRTUAL_GROUPS_PER_WRITE_DQS :: u32 where [config_simps]: "RW_MGR_MEM_VIRTUAL_GROUPS_PER_WRITE_DQS = 1"
definition RW_MGR_MEM_DATA_WIDTH :: u32 where [config_simps]: "RW_MGR_MEM_DATA_WIDTH = 32"
definition RW_MGR_MEM_DATA_MASK_WIDTH :: u32 where [config_simps]: "RW_MGR_MEM_DATA_MASK_WIDTH = 4"
definition RW_MGR_MEM_CHIP_SELECT_WIDTH :: u32 where [config_simps]: "RW_MGR_MEM_CHIP_SELECT_WIDTH = 1"
definition RW_MGR_MEM_NUMBER_OF_CS_PER_DIMM :: u32 where [config_simps]: "RW_MGR_MEM_NUMBER_OF_CS_PER_DIMM = 1"
definition RW_MGR_MEM_ODT_WIDTH :: u32 where [config_simps]: "RW_MGR_MEM_ODT_WIDTH = 1"
definition RW_MGR_MEM_ADDRESS_MIRRORING :: u32 where [config_simps]: "RW_MGR_MEM_ADDRESS_MIRRORING = 0"
definition RDIMM :: bool where [config_simps]: "RDIMM = False"
definition LRDIMM :: bool where [config_simps]: "LRDIMM = False"
definition VFIFO_SIZE :: u32 where [config_simps]: "VFIFO_SIZE = 16"
definition IO_DQS_IN_DELAY_MAX :: u32 where [config_simps]: "IO_DQS_IN_DELAY_MAX = 31"
definition IO_DQS_EN_DELAY_MAX :: u32 where [config_simps]: "IO_DQS_EN_DELAY_MAX = 31"
definition IO_DQS_EN_PHASE_MAX :: u32 where [config_simps]: "IO_DQS_EN_PHASE_MAX = 7"
definition IO_DQDQS_OUT_PHASE_MAX :: u32 where [config_simps]: "IO_DQDQS_OUT_PHASE_MAX = 0"
definition IO_IO_IN_DELAY_MAX :: u32 where [config_simps]: "IO_IO_IN_DELAY_MAX = 31"
definition IO_IO_OUT1_DELAY_MAX :: u32 where [config_simps]: "IO_IO_OUT1_DELAY_MAX = 31"
definition IO_IO_OUT2_DELAY_MAX :: u32 where [config_simps]: "IO_IO_OUT2_DELAY_MAX = 0"
definition IO_DQS_IN_RESERVE :: u32 where [config_simps]: "IO_DQS_IN_RESERVE = 4"
definition IO_DQS_OUT_RESERVE :: u32 where [config_simps]: "IO_DQS_OUT_RESERVE = 4"
definition IO_DELAY_PER_OPA_TAP :: u32 where [config_simps]: "IO_DELAY_PER_OPA_TAP = 312"
definition IO_DELAY_PER_DCHAIN_TAP :: u32 where [config_simps]: "IO_DELAY_PER_DCHAIN_TAP = 25"
definition IO_DELAY_PER_DQS_EN_DCHAIN_TAP :: u32 where [config_simps]: "IO_DELAY_PER_DQS_EN_DCHAIN_TAP = 25"
definition AFI_RATE_RATIO :: u32 where [config_simps]: "AFI_RATE_RATIO = 1"
definition AFI_CLK_FREQ :: u32 where [config_simps]: "AFI_CLK_FREQ = 401"
definition MAX_LATENCY_COUNT_WIDTH :: nat where [config_simps]: "MAX_LATENCY_COUNT_WIDTH = 5"
definition CALIB_VFIFO_OFFSET :: u32 where [config_simps]: "CALIB_VFIFO_OFFSET = 10"
definition CALIB_LFIFO_OFFSET :: u32 where [config_simps]: "CALIB_LFIFO_OFFSET = 12"
definition NUM_CALIB_REPEAT :: u32 where [config_simps]: "NUM_CALIB_REPEAT = 1"

definition CALIB_SKIP_DELAY_LOOPS :: u16 where [config_simps]: "CALIB_SKIP_DELAY_LOOPS = 1"
definition CALIB_SKIP_DELAY_SWEEPS :: u16 where [config_simps]: "CALIB_SKIP_DELAY_SWEEPS = 4"
definition CALIB_SKIP_VFIFO :: u16 where [config_simps]: "CALIB_SKIP_VFIFO = 8"
definition CALIB_SKIP_LFIFO :: u16 where [config_simps]: "CALIB_SKIP_LFIFO = 16"
definition CALIB_SKIP_WLEVEL :: u16 where [config_simps]: "CALIB_SKIP_WLEVEL = 32"
definition CALIB_SKIP_WRITES :: u16 where [config_simps]: "CALIB_SKIP_WRITES = 64"
definition CALIB_SKIP_FULL_TEST :: u16 where [config_simps]: "CALIB_SKIP_FULL_TEST = 128"
definition CALIB_SKIP_ALL :: u16 where [config_simps]:
  "CALIB_SKIP_ALL = CALIB_SKIP_VFIFO OR CALIB_SKIP_LFIFO OR CALIB_SKIP_WLEVEL OR
                    CALIB_SKIP_WRITES OR CALIB_SKIP_FULL_TEST"
definition STATIC_CALIB_STEPS :: u16 where [config_simps]: "STATIC_CALIB_STEPS = 0 OR CALIB_SKIP_FULL_TEST OR 0"

definition CAL_STAGE_NIL :: u32 where [config_simps]: "CAL_STAGE_NIL = 0"
definition CAL_STAGE_VFIFO :: u32 where [config_simps]: "CAL_STAGE_VFIFO = 1"
definition CAL_STAGE_LFIFO :: u32 where [config_simps]: "CAL_STAGE_LFIFO = 3"
definition CAL_STAGE_WRITES :: u32 where [config_simps]: "CAL_STAGE_WRITES = 4"
definition CAL_STAGE_VFIFO_AFTER_WRITES :: u32 where [config_simps]: "CAL_STAGE_VFIFO_AFTER_WRITES = 9"
definition CAL_SUBSTAGE_NIL :: u32 where [config_simps]: "CAL_SUBSTAGE_NIL = 0"
definition CAL_SUBSTAGE_GUARANTEED_READ :: u32 where [config_simps]: "CAL_SUBSTAGE_GUARANTEED_READ = 1"
definition CAL_SUBSTAGE_DQS_EN_PHASE :: u32 where [config_simps]: "CAL_SUBSTAGE_DQS_EN_PHASE = 2"
definition CAL_SUBSTAGE_VFIFO_CENTER :: u32 where [config_simps]: "CAL_SUBSTAGE_VFIFO_CENTER = 3"
definition CAL_SUBSTAGE_WRITES_CENTER :: u32 where [config_simps]: "CAL_SUBSTAGE_WRITES_CENTER = 1"
definition CAL_SUBSTAGE_READ_LATENCY :: u32 where [config_simps]: "CAL_SUBSTAGE_READ_LATENCY = 1"

definition PHY_DEBUG_IN_DEBUG_MODE :: u32 where [config_simps]: "PHY_DEBUG_IN_DEBUG_MODE = 1"
definition PHY_DEBUG_ENABLE_CAL_RPT :: u32 where [config_simps]: "PHY_DEBUG_ENABLE_CAL_RPT = 2"
definition PHY_DEBUG_SWEEP_ALL_GROUPS :: u32 where [config_simps]: "PHY_DEBUG_SWEEP_ALL_GROUPS = 8"
definition PHY_DEBUG_DISABLE_GUARANTEED_READ :: u32 where [config_simps]: "PHY_DEBUG_DISABLE_GUARANTEED_READ = 16"

subsection \<open>Registers\<close>

text \<open>
  The registers the sequencer uses, one constructor per macro of \<open>sequencer.h\<close>; an argument is the
  index the macros scale into an offset (a group, a pin, a word of a table).
\<close>

datatype reg =
    PHY_MGR_CMD_INC_VFIFO_FR | PHY_MGR_CMD_INC_VFIFO_HARD_PHY | PHY_MGR_CMD_FIFO_RESET
  | PHY_MGR_PHY_RLAT | PHY_MGR_RESET_MEM_STBL | PHY_MGR_MUX_SEL | PHY_MGR_CAL_STATUS
  | PHY_MGR_CAL_DEBUG_INFO | PHY_MGR_AFI_WLAT
  | RW_MGR_RUN_SINGLE_GROUP u32 | RW_MGR_RUN_ALL_GROUPS u32
  | RW_MGR_LOAD_CNTR_0 | RW_MGR_LOAD_CNTR_1 | RW_MGR_LOAD_CNTR_2 | RW_MGR_LOAD_CNTR_3
  | RW_MGR_LOAD_JUMP_ADD_0 | RW_MGR_LOAD_JUMP_ADD_1 | RW_MGR_LOAD_JUMP_ADD_2 | RW_MGR_LOAD_JUMP_ADD_3
  | RW_MGR_RESET_READ_DATAPATH | RW_MGR_SET_CS_AND_ODT_MASK
  | RW_MGR_INST_ROM_WRITE u32 | RW_MGR_AC_ROM_WRITE u32
  | DATA_MGR_MEM_T_WL | DATA_MGR_MEM_T_ADD | DATA_MGR_MEM_T_RL
  | SCC_MGR_GROUP_COUNTER | SCC_MGR_DQS_IN_DELAY u32 | SCC_MGR_DQS_EN_PHASE u32
  | SCC_MGR_DQS_EN_DELAY u32 | SCC_MGR_DQDQS_OUT_PHASE u32 | SCC_MGR_OCT_OUT1_DELAY u32
  | SCC_MGR_IO_OUT1_DELAY u32 | SCC_MGR_IO_IN_DELAY u32 | SCC_MGR_HHP_GLOBALS u32
  | SCC_MGR_HHP_RFILE u32 | SCC_MGR_AFI_CAL_INIT | SCC_MGR_DQS_ENA | SCC_MGR_DQS_IO_ENA
  | SCC_MGR_DQ_ENA | SCC_MGR_DM_ENA | SCC_MGR_UPD
  | REG_FILE_SIGNATURE | REG_FILE_DEBUG_DATA_ADDR | REG_FILE_CUR_STAGE | REG_FILE_FOM
  | REG_FILE_FAILING_STAGE | REG_FILE_DEBUG1 | REG_FILE_DEBUG2 | REG_FILE_DTAPS_PER_PTAP
  | REG_FILE_TRK_SAMPLE_COUNT | REG_FILE_TRK_LONGIDLE | REG_FILE_DELAYS
  | REG_FILE_TRK_RW_MGR_ADDR | REG_FILE_TRK_READ_DQS_WIDTH | REG_FILE_TRK_RFSH
  | MMR u32

definition BASE_PHY_MGR :: u32 where [config_simps]: "BASE_PHY_MGR = 0x88000"
definition BASE_RW_MGR :: u32 where [config_simps]: "BASE_RW_MGR = 0x90000"
definition BASE_DATA_MGR :: u32 where [config_simps]: "BASE_DATA_MGR = 0x98000"
definition BASE_SCC_MGR :: u32 where [config_simps]: "BASE_SCC_MGR = 0x58000"
definition BASE_REG_FILE :: u32 where [config_simps]: "BASE_REG_FILE = 0x70000"
definition BASE_MMR :: u32 where [config_simps]: "BASE_MMR = 0xC0000"

text \<open>The bus address, base plus offset: the address macros of each block as a partial map.\<close>

definition rw_mgr_addr :: "reg \<rightharpoonup> u32" where
  "rw_mgr_addr r = (case r of
       RW_MGR_RUN_SINGLE_GROUP g \<Rightarrow> Some (BASE_RW_MGR + push_bit 2 g)
     | RW_MGR_RUN_ALL_GROUPS g \<Rightarrow> Some (BASE_RW_MGR + 0x0400 + push_bit 2 g)
     | RW_MGR_LOAD_CNTR_0 \<Rightarrow> Some (BASE_RW_MGR + 0x0800)
     | RW_MGR_LOAD_CNTR_1 \<Rightarrow> Some (BASE_RW_MGR + 0x0804)
     | RW_MGR_LOAD_CNTR_2 \<Rightarrow> Some (BASE_RW_MGR + 0x0808)
     | RW_MGR_LOAD_CNTR_3 \<Rightarrow> Some (BASE_RW_MGR + 0x080C)
     | RW_MGR_LOAD_JUMP_ADD_0 \<Rightarrow> Some (BASE_RW_MGR + 0x0C00)
     | RW_MGR_LOAD_JUMP_ADD_1 \<Rightarrow> Some (BASE_RW_MGR + 0x0C04)
     | RW_MGR_LOAD_JUMP_ADD_2 \<Rightarrow> Some (BASE_RW_MGR + 0x0C08)
     | RW_MGR_LOAD_JUMP_ADD_3 \<Rightarrow> Some (BASE_RW_MGR + 0x0C0C)
     | RW_MGR_RESET_READ_DATAPATH \<Rightarrow> Some (BASE_RW_MGR + 0x1000)
     | RW_MGR_SET_CS_AND_ODT_MASK \<Rightarrow> Some (BASE_RW_MGR + 0x1400)
     | _ \<Rightarrow> None)"

definition reg_file_addr :: "reg \<rightharpoonup> u32" where
  "reg_file_addr r = (case r of
       REG_FILE_SIGNATURE \<Rightarrow> Some (BASE_REG_FILE + 0x0000)
     | REG_FILE_DEBUG_DATA_ADDR \<Rightarrow> Some (BASE_REG_FILE + 0x0004)
     | REG_FILE_CUR_STAGE \<Rightarrow> Some (BASE_REG_FILE + 0x0008)
     | REG_FILE_FOM \<Rightarrow> Some (BASE_REG_FILE + 0x000C)
     | REG_FILE_FAILING_STAGE \<Rightarrow> Some (BASE_REG_FILE + 0x0010)
     | REG_FILE_DEBUG1 \<Rightarrow> Some (BASE_REG_FILE + 0x0014)
     | REG_FILE_DEBUG2 \<Rightarrow> Some (BASE_REG_FILE + 0x0018)
     | REG_FILE_DTAPS_PER_PTAP \<Rightarrow> Some (BASE_REG_FILE + 0x001C)
     | REG_FILE_TRK_SAMPLE_COUNT \<Rightarrow> Some (BASE_REG_FILE + 0x0020)
     | REG_FILE_TRK_LONGIDLE \<Rightarrow> Some (BASE_REG_FILE + 0x0024)
     | REG_FILE_DELAYS \<Rightarrow> Some (BASE_REG_FILE + 0x0028)
     | REG_FILE_TRK_RW_MGR_ADDR \<Rightarrow> Some (BASE_REG_FILE + 0x002C)
     | REG_FILE_TRK_READ_DQS_WIDTH \<Rightarrow> Some (BASE_REG_FILE + 0x0030)
     | REG_FILE_TRK_RFSH \<Rightarrow> Some (BASE_REG_FILE + 0x0034)
     | MMR off \<Rightarrow> Some (BASE_MMR + off)
     | _ \<Rightarrow> None)"

definition phy_mgr_addr :: "reg \<rightharpoonup> u32" where
  "phy_mgr_addr r = (case r of
       PHY_MGR_CMD_INC_VFIFO_FR \<Rightarrow> Some (BASE_PHY_MGR + 0x0000)
     | PHY_MGR_CMD_INC_VFIFO_HARD_PHY \<Rightarrow> Some (BASE_PHY_MGR + 0x0004)
     | PHY_MGR_CMD_FIFO_RESET \<Rightarrow> Some (BASE_PHY_MGR + 0x0008)
     | PHY_MGR_PHY_RLAT \<Rightarrow> Some (BASE_PHY_MGR + 0x4000)
     | PHY_MGR_RESET_MEM_STBL \<Rightarrow> Some (BASE_PHY_MGR + 0x4004)
     | PHY_MGR_MUX_SEL \<Rightarrow> Some (BASE_PHY_MGR + 0x4008)
     | PHY_MGR_CAL_STATUS \<Rightarrow> Some (BASE_PHY_MGR + 0x400c)
     | PHY_MGR_CAL_DEBUG_INFO \<Rightarrow> Some (BASE_PHY_MGR + 0x4010)
     | PHY_MGR_AFI_WLAT \<Rightarrow> Some (BASE_PHY_MGR + 0x4018)
     | _ \<Rightarrow> None)"

definition data_mgr_addr :: "reg \<rightharpoonup> u32" where
  "data_mgr_addr r = (case r of
       DATA_MGR_MEM_T_WL \<Rightarrow> Some (BASE_DATA_MGR + 0x0004)
     | DATA_MGR_MEM_T_ADD \<Rightarrow> Some (BASE_DATA_MGR + 0x0008)
     | DATA_MGR_MEM_T_RL \<Rightarrow> Some (BASE_DATA_MGR + 0x000C)
     | _ \<Rightarrow> None)"

definition scc_mgr_addr :: "reg \<rightharpoonup> u32" where
  "scc_mgr_addr r = (case r of
       SCC_MGR_GROUP_COUNTER \<Rightarrow> Some (BASE_SCC_MGR + 0x0000)
     | SCC_MGR_DQS_IN_DELAY g \<Rightarrow> Some (BASE_SCC_MGR + 0x0100 + push_bit 2 g)
     | SCC_MGR_DQS_EN_PHASE g \<Rightarrow> Some (BASE_SCC_MGR + 0x0200 + push_bit 2 g)
     | SCC_MGR_DQS_EN_DELAY g \<Rightarrow> Some (BASE_SCC_MGR + 0x0300 + push_bit 2 g)
     | SCC_MGR_DQDQS_OUT_PHASE g \<Rightarrow> Some (BASE_SCC_MGR + 0x0400 + push_bit 2 g)
     | SCC_MGR_OCT_OUT1_DELAY g \<Rightarrow> Some (BASE_SCC_MGR + 0x0500 + push_bit 2 g)
     | SCC_MGR_IO_OUT1_DELAY p \<Rightarrow> Some (BASE_SCC_MGR + 0x0700 + push_bit 2 p)
     | SCC_MGR_IO_IN_DELAY p \<Rightarrow> Some (BASE_SCC_MGR + 0x0900 + push_bit 2 p)
     | SCC_MGR_HHP_GLOBALS off \<Rightarrow> Some (BASE_SCC_MGR + 0x0A00 + off)
     | SCC_MGR_HHP_RFILE i \<Rightarrow> Some (BASE_SCC_MGR + 0x0B00 + push_bit 2 i)
     | SCC_MGR_AFI_CAL_INIT \<Rightarrow> Some (BASE_SCC_MGR + 0x0D00)
     | SCC_MGR_DQS_ENA \<Rightarrow> Some (BASE_SCC_MGR + 0x0E00)
     | SCC_MGR_DQS_IO_ENA \<Rightarrow> Some (BASE_SCC_MGR + 0x0E04)
     | SCC_MGR_DQ_ENA \<Rightarrow> Some (BASE_SCC_MGR + 0x0E08)
     | SCC_MGR_DM_ENA \<Rightarrow> Some (BASE_SCC_MGR + 0x0E0C)
     | SCC_MGR_UPD \<Rightarrow> Some (BASE_SCC_MGR + 0x0E20)
     | _ \<Rightarrow> None)"

definition rom_addr :: "reg \<rightharpoonup> u32" where
  "rom_addr r = (case r of
       RW_MGR_INST_ROM_WRITE i \<Rightarrow> Some (BASE_RW_MGR + 0x1800 + push_bit 2 i)
     | RW_MGR_AC_ROM_WRITE i \<Rightarrow> Some (BASE_RW_MGR + 0x1C00 + push_bit 2 i)
     | _ \<Rightarrow> None)"

definition reg_addr :: "reg \<Rightarrow> u32" where
  "reg_addr r = the ((rw_mgr_addr ++ reg_file_addr ++ phy_mgr_addr ++ data_mgr_addr ++ scc_mgr_addr ++ rom_addr) r)"

lemmas reg_addr_defs = rw_mgr_addr_def reg_file_addr_def phy_mgr_addr_def data_mgr_addr_def scc_mgr_addr_def rom_addr_def

text \<open>Every register belongs to exactly one block, so that it has an address and the order of the maps does not matter.\<close>

lemma reg_addr_block:
  "length (filter (\<lambda>m. m \<noteq> None) [rw_mgr_addr r, reg_file_addr r, phy_mgr_addr r, data_mgr_addr r, scc_mgr_addr r, rom_addr r]) = 1"
  by (cases r) (simp_all add: reg_addr_defs)

text \<open>
  The macro \<open>__AVL_TO_APB\<close> of \<open>sdram_io.h\<close>: the offset the processor uses for a bus address.  The
  offsets of the six register groups come from the hardware library of the processor and are the
  record \<open>apb\<close>.
\<close>

record apb =
  APB_BASE_SCC_MGR :: u32
  APB_BASE_PHY_MGR :: u32
  APB_BASE_RW_MGR :: u32
  APB_BASE_DATA_MGR :: u32
  APB_BASE_REG_FILE :: u32
  APB_BASE_MMR :: u32

definition MGR_SELECT_MASK :: u32 where [config_simps]: "MGR_SELECT_MASK = 0xf8000"

definition AVL_TO_APB :: "apb \<Rightarrow> u32 \<Rightarrow> u32" where
  "AVL_TO_APB B a =
     (if a AND MGR_SELECT_MASK = BASE_PHY_MGR
      then APB_BASE_PHY_MGR B OR (drop_bit (14 - 6) a AND push_bit 6 1) OR (a AND 0x3f)
      else if a AND MGR_SELECT_MASK = BASE_RW_MGR then APB_BASE_RW_MGR B OR (a AND 0x1fff)
      else if a AND MGR_SELECT_MASK = BASE_DATA_MGR then APB_BASE_DATA_MGR B OR (a AND 0x7ff)
      else if a AND MGR_SELECT_MASK = BASE_SCC_MGR then APB_BASE_SCC_MGR B OR (a AND 0xfff)
      else if a AND MGR_SELECT_MASK = BASE_REG_FILE then APB_BASE_REG_FILE B OR (a AND 0x7ff)
      else if a AND MGR_SELECT_MASK = BASE_MMR then APB_BASE_MMR B OR (a AND 0xfff)
      else - 1)"

subsection \<open>Variables\<close>

record gbl_t =
  phy_debug_mode_flags :: u32
  curr_read_lat :: u32
  curr_write_lat :: u32
  error_substage :: u32
  error_stage :: u32
  error_group :: u32
  fom_in :: u32
  fom_out :: u32
  rw_wl_nop_cycles :: u32

record param_t =
  dm_correct_mask :: u32
  read_correct_mask :: u32
  read_correct_mask_vg :: u32
  write_correct_mask :: u32
  write_correct_mask_vg :: u32
  skip_ranks :: "u32 \<Rightarrow> u32"
  skip_groups :: u32
  skip_shadow_regs :: "u32 \<Rightarrow> u32"

text \<open>The sequencer's variables beside the state of the hardware.\<close>

record 'h seq =
  io :: 'h
  gbl :: gbl_t
  param :: param_t
  dyn_calib_steps :: u16
  skip_delay_mask :: u16

text \<open>The hardware: what a read returns and what reads and writes do to its state.\<close>

record 'h hwbus =
  bus_rd :: "reg \<Rightarrow> 'h \<Rightarrow> u32 \<times> 'h"
  bus_wr :: "reg \<Rightarrow> u32 \<Rightarrow> 'h \<Rightarrow> 'h"

type_synonym ('h, 'a) cal = "('h seq, 'a) state"

definition IOWR_32DIRECT :: "'h hwbus \<Rightarrow> reg \<Rightarrow> u32 \<Rightarrow> ('h, unit) cal" where
  "IOWR_32DIRECT M r v = State (\<lambda>s. ((), s\<lparr>io := bus_wr M r v (io s)\<rparr>))"

definition IORD_32DIRECT :: "'h hwbus \<Rightarrow> reg \<Rightarrow> ('h, u32) cal" where
  "IORD_32DIRECT M r = State (\<lambda>s. case bus_rd M r (io s) of (v, h) \<Rightarrow> (v, s\<lparr>io := h\<rparr>))"

abbreviation iowr where "iowr \<equiv> IOWR_32DIRECT"
abbreviation iord where "iord \<equiv> IORD_32DIRECT"
abbreviation ret where "ret \<equiv> State_Monad.return"

text \<open>Reading and assigning the sequencer's own variables.\<close>

definition gets :: "('s \<Rightarrow> 'a) \<Rightarrow> ('s, 'a) state" where
  "gets f = State (\<lambda>s. (f s, s))"

definition upd_gbl :: "(gbl_t \<Rightarrow> gbl_t) \<Rightarrow> ('h, unit) cal" where
  "upd_gbl f = State (\<lambda>s. ((), s\<lparr>gbl := f (gbl s)\<rparr>))"

definition upd_param :: "(param_t \<Rightarrow> param_t) \<Rightarrow> ('h, unit) cal" where
  "upd_param f = State (\<lambda>s. ((), s\<lparr>param := f (param s)\<rparr>))"

definition set_steps :: "u16 \<Rightarrow> ('h, unit) cal" where
  "set_steps x = State (\<lambda>s. ((), s\<lparr>dyn_calib_steps := x\<rparr>))"

definition set_delay_mask :: "u16 \<Rightarrow> ('h, unit) cal" where
  "set_delay_mask x = State (\<lambda>s. ((), s\<lparr>skip_delay_mask := x\<rparr>))"

lemma run_gets [simp]: "run_state (gets f) s = (f s, s)"
  by (simp add: gets_def)

lemma run_io [simp]:
  "run_state (iowr M r v) s = ((), s\<lparr>io := bus_wr M r v (io s)\<rparr>)"
  "run_state (iord M r) s = (fst (bus_rd M r (io s)), s\<lparr>io := snd (bus_rd M r (io s))\<rparr>)"
  "run_state (upd_gbl g) s = ((), s\<lparr>gbl := g (gbl s)\<rparr>)"
  "run_state (upd_param p) s = ((), s\<lparr>param := p (param s)\<rparr>)"
  "run_state (set_steps x) s = ((), s\<lparr>dyn_calib_steps := x\<rparr>)"
  "run_state (set_delay_mask x) s = ((), s\<lparr>skip_delay_mask := x\<rparr>)"
  by (simp_all add: IOWR_32DIRECT_def IORD_32DIRECT_def upd_gbl_def upd_param_def
      set_steps_def set_delay_mask_def split: prod.splits)

subsection \<open>Loops\<close>

text \<open>The values \<open>a, a+1, ..., b-1\<close> a counted loop gives its variable.\<close>

definition range32 :: "u32 \<Rightarrow> u32 \<Rightarrow> u32 list" where
  "range32 a b = map of_nat [unat a ..< unat b]"

lemma range32_mem: "x \<in> set (range32 a b) \<longleftrightarrow> a \<le> x \<and> x < b"
proof -
  have "unat (of_nat n :: u32) = n" if "n < unat b" for n
    using that unsigned_less [where ?'a = nat, of b] by (intro unat_of_nat_small) simp
  then show ?thesis
    by (force simp: range32_def word_le_nat_alt word_less_nat_alt image_iff Bex_def)
qed

lemma range32_single [simp]: "range32 0 1 = [0]"
  by (simp add: range32_def)

text \<open>A loop without \<open>break\<close>.\<close>

fun for_each :: "('a \<Rightarrow> ('s, unit) state) \<Rightarrow> 'a list \<Rightarrow> ('s, unit) state" where
  "for_each f [] = ret ()"
| "for_each f (x # xs) = do { f x; for_each f xs }"

text \<open>A loop without \<open>break\<close> that carries local variables.\<close>

fun fold_each :: "('a \<Rightarrow> 'l \<Rightarrow> ('s, 'l) state) \<Rightarrow> 'a list \<Rightarrow> 'l \<Rightarrow> ('s, 'l) state" where
  "fold_each f [] l = ret l"
| "fold_each f (x # xs) l = do { l' \<leftarrow> f x l; fold_each f xs l' }"

text \<open>
  A loop that carries local variables and may leave by \<open>break\<close>: the body returns whether to leave,
  and the loop whether it was left that way.
\<close>

fun loop :: "('a \<Rightarrow> 'l \<Rightarrow> ('s, bool \<times> 'l) state) \<Rightarrow> 'a list \<Rightarrow> 'l \<Rightarrow> ('s, bool \<times> 'l) state" where
  "loop f [] l = ret (False, l)"
| "loop f (x # xs) l = do {
     (b, l') \<leftarrow> f x l;
     if b then ret (True, l') else loop f xs l'
   }"

text \<open>A conditional statement without \<open>else\<close>.\<close>

definition whenM :: "bool \<Rightarrow> ('s, unit) state \<Rightarrow> ('s, unit) state" where
  "whenM b m = (if b then m else ret ())"

subsection \<open>Keeping an invariant\<close>

definition hoare :: "('s \<Rightarrow> bool) \<Rightarrow> ('s, 'a) state \<Rightarrow> ('a \<Rightarrow> 's \<Rightarrow> bool) \<Rightarrow> bool" where
  "hoare P m Q \<longleftrightarrow> (\<forall>s. P s \<longrightarrow> Q (fst (run_state m s)) (snd (run_state m s)))"

definition valid :: "('s \<Rightarrow> bool) \<Rightarrow> ('s, 'a) state \<Rightarrow> ('a \<Rightarrow> bool) \<Rightarrow> bool" where
  "valid I m A \<longleftrightarrow> hoare I m (\<lambda>a s. I s \<and> A a)"

definition safe :: "('s \<Rightarrow> bool) \<Rightarrow> ('s, 'a) state \<Rightarrow> bool" where
  "safe I m \<longleftrightarrow> (\<forall>s. I s \<longrightarrow> I (snd (run_state m s)))"

lemma hoareI: "(\<And>s. P s \<Longrightarrow> Q (fst (run_state m s)) (snd (run_state m s))) \<Longrightarrow> hoare P m Q"
  by (simp add: hoare_def)

lemma hoare_bind:
  "hoare P m R \<Longrightarrow> (\<And>a. hoare (R a) (f a) Q) \<Longrightarrow> hoare P (m \<bind> f) Q"
  by (auto simp: hoare_def split: prod.splits)

lemma hoare_weaken: "hoare P m Q \<Longrightarrow> (\<And>s. P' s \<Longrightarrow> P s) \<Longrightarrow> (\<And>a s. Q a s \<Longrightarrow> Q' a s) \<Longrightarrow> hoare P' m Q'"
  by (auto simp: hoare_def)

lemma hoare_ret: "(\<And>s. P s \<Longrightarrow> Q x s) \<Longrightarrow> hoare P (ret x) Q"
  by (simp add: hoare_def)

lemma hoare_of_safe: "safe I m \<Longrightarrow> hoare I m (\<lambda>_. I)"
  by (simp add: safe_def hoare_def)

lemma hoare_ex: "(\<And>x. hoare (P x) m Q) \<Longrightarrow> hoare (\<lambda>s. \<exists>x. P x s) m Q"
  by (auto simp: hoare_def)

lemma hoare_safe_bind: "safe P m \<Longrightarrow> (\<And>a. hoare P (f a) Q) \<Longrightarrow> hoare P (m \<bind> f) Q"
  by (auto simp: safe_def hoare_def split: prod.splits)

lemma hoare_pure_pre: "(A \<Longrightarrow> hoare P m Q) \<Longrightarrow> hoare (\<lambda>s. P s \<and> A) m Q"
  by (auto simp: hoare_def)

lemma valid_bind: "valid I m A \<Longrightarrow> (\<And>a. A a \<Longrightarrow> valid I (f a) B) \<Longrightarrow> valid I (m \<bind> f) B"
  unfolding valid_def by (erule hoare_bind, rule hoare_pure_pre)

lemma valid_safe_bind: "safe I m \<Longrightarrow> (\<And>a. valid I (f a) B) \<Longrightarrow> valid I (m \<bind> f) B"
  by (auto simp: valid_def safe_def hoare_def split: prod.splits)

lemma valid_weaken: "valid I m A \<Longrightarrow> (\<And>a. A a \<Longrightarrow> B a) \<Longrightarrow> valid I m B"
  by (auto simp: valid_def hoare_def)

lemma valid_ret: "A x \<Longrightarrow> valid I (ret x) A"
  by (simp add: valid_def hoare_def)

lemma valid_if: "(c \<Longrightarrow> valid I a A) \<Longrightarrow> (\<not> c \<Longrightarrow> valid I b A) \<Longrightarrow> valid I (if c then a else b) A"
  by simp

lemma valid_split: "(\<And>a b. x = (a, b) \<Longrightarrow> valid I (f a b) A) \<Longrightarrow> valid I (case x of (a, b) \<Rightarrow> f a b) A"
  by (cases x) simp

lemma valid_gets: "valid I (gets f) (\<lambda>_. True)"
  by (simp add: valid_def hoare_def)

lemma safe_valid: "safe I m \<longleftrightarrow> valid I m (\<lambda>_. True)"
  by (simp add: safe_def valid_def hoare_def)

lemma valid_safe: "valid I m A \<Longrightarrow> safe I m"
  by (simp add: safe_def valid_def hoare_def)

lemma safe_bind_valid: "valid I m A \<Longrightarrow> (\<And>a. A a \<Longrightarrow> safe I (f a)) \<Longrightarrow> safe I (m \<bind> f)"
  unfolding safe_valid by (rule valid_bind)

lemma safe_bind [safe_intros]: "safe I m \<Longrightarrow> (\<And>a. safe I (f a)) \<Longrightarrow> safe I (m \<bind> f)"
  by (auto simp: safe_def split: prod.splits)

lemma safe_ret [safe_intros]: "safe I (ret x)"
  by (simp add: safe_def)

lemma safe_gets [safe_intros]: "safe I (gets f)"
  by (simp add: safe_def)

lemma safe_if [safe_intros]: "(c \<Longrightarrow> safe I a) \<Longrightarrow> (\<not> c \<Longrightarrow> safe I b) \<Longrightarrow> safe I (if c then a else b)"
  by simp

lemma safe_when [safe_intros]: "(c \<Longrightarrow> safe I a) \<Longrightarrow> safe I (whenM c a)"
  by (simp add: whenM_def safe_ret)

lemma safe_split [safe_intros]: "(\<And>a b. x = (a, b) \<Longrightarrow> safe I (f a b)) \<Longrightarrow> safe I (case x of (a, b) \<Rightarrow> f a b)"
  by (cases x) simp

lemma safe_for_each [safe_intros]: "(\<And>x. x \<in> set xs \<Longrightarrow> safe I (f x)) \<Longrightarrow> safe I (for_each f xs)"
  by (induction xs) (auto intro!: safe_intros)

lemma valid_loop:
  assumes "\<And>x l. x \<in> set xs \<Longrightarrow> J l \<Longrightarrow> valid I (f x l) (\<lambda>(b, l'). J l')" and "J l"
  shows "valid I (loop f xs l) (\<lambda>(b, l'). J l')"
  using assms
proof (induction xs arbitrary: l)
  case Nil
  then show ?case by (auto intro: valid_ret)
next
  case (Cons x xs)
  then have "valid I (f x l) (\<lambda>(b, l'). J l')" by auto
  moreover have "valid I (loop f xs l') (\<lambda>(b, l'). J l')" if "J l'" for l'
    using Cons that by auto
  ultimately show ?case by (force intro!: valid_bind valid_ret)
qed

text \<open>A counted loop whose invariant speaks about the value of the counter.\<close>

lemma range32_Nil: "b \<le> a \<Longrightarrow> range32 a b = []"
  by (simp add: range32_def word_le_nat_alt)

lemma range32_Cons:
  assumes "a < b"
  shows "range32 a b = a # range32 (a + 1) b" and "unat (a + 1) = Suc (unat a)"
proof -
  show "unat (a + 1) = Suc (unat a)"
    using assms unsigned_less [where ?'a = nat, of b] by (simp add: word_less_nat_alt unat_word_ariths)
  with assms show "range32 a b = a # range32 (a + 1) b"
    by (simp add: range32_def word_less_nat_alt upt_conv_Cons)
qed

lemma loop_map: "loop f (map h xs) l = loop (\<lambda>x. f (h x)) xs l"
proof (induction xs arbitrary: l)
  case (Cons x xs)
  then have rest: "loop f (map h xs) = loop (\<lambda>x. f (h x)) xs" by (intro ext)
  show ?case unfolding list.map loop.simps rest ..
qed simp

lemma loop_cong: "(\<And>x l. x \<in> set xs \<Longrightarrow> f x l = f' x l) \<Longrightarrow> loop f xs l = loop f' xs l"
proof (induction xs arbitrary: l)
  case (Cons x xs)
  then have rest: "loop f xs = loop f' xs" by (intro ext) simp
  show ?case unfolding loop.simps rest by (simp add: Cons.prems)
qed simp

lemma valid_loop_range:
  assumes step: "\<And>x l. a \<le> x \<Longrightarrow> x < b \<Longrightarrow> J (unat x) l \<Longrightarrow>
      valid I (f x l) (\<lambda>(br, l'). if br then Q l' else J (Suc (unat x)) l')"
    and "J (unat a) l" and "a \<le> b"
  shows "valid I (loop f (range32 a b) l) (\<lambda>(br, l'). if br then Q l' else J (unat b) l')"
proof -
  define R where "R = (\<lambda>(br, l'). if br then Q l' else J (unat b) l')"
  have "valid I (loop f (range32 x b) l) R"
    if "unat b - unat x = n" "a \<le> x" "x \<le> b" "J (unat x) l" for n x l
    using that
  proof (induction n arbitrary: x l)
    case 0
    then have "x = b" by (simp add: word_le_nat_alt word_unat_eq_iff)
    with 0 show ?case by (simp add: range32_Nil valid_ret R_def)
  next
    case (Suc n)
    then have "x < b" by (simp add: word_less_nat_alt)
    note rc = range32_Cons [OF this]
    have "x + 1 \<le> b" "a \<le> x + 1" "unat b - unat (x + 1) = n"
      using Suc.prems rc(2) \<open>x < b\<close> by (auto simp: word_le_nat_alt word_less_nat_alt)
    then have "valid I (loop f (range32 (x + 1) b) l') R" if "J (Suc (unat x)) l'" for l'
      using Suc.IH [of "x + 1" l'] rc(2) that by simp
    moreover have "valid I (ret (True, l')) R" if "Q l'" for l'
      using that by (simp add: valid_ret R_def)
    ultimately show ?case
      unfolding rc(1) loop.simps
      by (intro valid_bind [OF step [OF _ \<open>x < b\<close>]] Suc.prems) auto
  qed
  with assms show ?thesis unfolding R_def by blast
qed

lemma safe_loop [safe_intros]: "(\<And>x l. x \<in> set xs \<Longrightarrow> safe I (f x l)) \<Longrightarrow> safe I (loop f xs l)"
  using valid_loop [of xs "\<lambda>_. True" I f l] by (simp add: safe_valid case_prod_beta')

lemma valid_fold_each:
  assumes "\<And>x l. x \<in> set xs \<Longrightarrow> J l \<Longrightarrow> valid I (f x l) J" and "J l"
  shows "valid I (fold_each f xs l) J"
  using assms by (induction xs arbitrary: l) (auto intro: valid_ret valid_bind)

lemma safe_fold_each [safe_intros]: "(\<And>x l. x \<in> set xs \<Longrightarrow> safe I (f x l)) \<Longrightarrow> safe I (fold_each f xs l)"
  by (induction xs arbitrary: l) (auto intro!: safe_intros)

subsection \<open>The interface to the scan chain manager\<close>

text \<open>
  The delay and phase registers of the groups and pins that exist, and the values their fields can
  hold; a pin index counts the data pins of a group, then its strobe, then its mask pin.
\<close>

fun delay_max :: "reg \<Rightarrow> u32 option" where
  "delay_max (SCC_MGR_DQS_IN_DELAY g) = (if g < RW_MGR_MEM_IF_READ_DQS_WIDTH then Some IO_DQS_IN_DELAY_MAX else None)"
| "delay_max (SCC_MGR_DQS_EN_PHASE g) = (if g < RW_MGR_MEM_IF_READ_DQS_WIDTH then Some IO_DQS_EN_PHASE_MAX else None)"
| "delay_max (SCC_MGR_DQS_EN_DELAY g) = (if g < RW_MGR_MEM_IF_READ_DQS_WIDTH then Some IO_DQS_EN_DELAY_MAX else None)"
| "delay_max (SCC_MGR_DQDQS_OUT_PHASE g) = (if g < RW_MGR_MEM_IF_WRITE_DQS_WIDTH then Some IO_DQDQS_OUT_PHASE_MAX else None)"
| "delay_max (SCC_MGR_OCT_OUT1_DELAY g) = (if g < RW_MGR_MEM_IF_READ_DQS_WIDTH then Some IO_IO_OUT1_DELAY_MAX else None)"
| "delay_max (SCC_MGR_IO_OUT1_DELAY p) = (if p < RW_MGR_MEM_DQ_PER_WRITE_DQS + 1 + RW_MGR_NUM_DM_PER_WRITE_GROUP then Some IO_IO_OUT1_DELAY_MAX else None)"
| "delay_max (SCC_MGR_IO_IN_DELAY p) = (if p < RW_MGR_MEM_DQ_PER_WRITE_DQS + 1 + RW_MGR_NUM_DM_PER_WRITE_GROUP then Some IO_IO_IN_DELAY_MAX else None)"
| "delay_max r = None"

text \<open>The registers that select a delay or a phase, whether their index exists or not.\<close>

fun scc_delay :: "reg \<Rightarrow> bool" where
  "scc_delay (SCC_MGR_DQS_IN_DELAY g) = True"
| "scc_delay (SCC_MGR_DQS_EN_PHASE g) = True"
| "scc_delay (SCC_MGR_DQS_EN_DELAY g) = True"
| "scc_delay (SCC_MGR_DQDQS_OUT_PHASE g) = True"
| "scc_delay (SCC_MGR_OCT_OUT1_DELAY g) = True"
| "scc_delay (SCC_MGR_IO_OUT1_DELAY p) = True"
| "scc_delay (SCC_MGR_IO_IN_DELAY p) = True"
| "scc_delay r = False"

text \<open>A write the scan chain can represent; other registers take any value.\<close>

definition legal :: "reg \<Rightarrow> u32 \<Rightarrow> bool" where
  "legal r v \<longleftrightarrow> (scc_delay r \<longrightarrow> (\<exists>b. delay_max r = Some b \<and> v \<le> b))"

text \<open>A write of a calibration step: legal, and not a result of the calibration, which only the top
  level reports; a step may only clear the status.\<close>

definition routine :: "reg \<Rightarrow> u32 \<Rightarrow> bool" where
  "routine r v \<longleftrightarrow> legal r v \<and> (r = PHY_MGR_CAL_STATUS \<longrightarrow> v = 0)"

text \<open>
  The interface: routine writes keep the invariant \<open>I\<close> of the hardware, and the delay registers
  hold \<open>cur\<close>.  When \<open>failed\<close> holds, a failure has been recorded, and no step may forget it.
\<close>

locale scc_bus =
  fixes M :: "'h hwbus" and I :: "'h \<Rightarrow> bool" and cur :: "'h \<Rightarrow> reg \<Rightarrow> u32" and failed :: bool
  assumes rd_inv: "I h \<Longrightarrow> I (snd (bus_rd M r h))"
    and wr_inv: "I h \<Longrightarrow> routine r v \<Longrightarrow> I (bus_wr M r v h)"
    and rd_cur: "I h \<Longrightarrow> scc_delay r \<Longrightarrow> fst (bus_rd M r h) = cur h r"
    and rd_keeps: "I h \<Longrightarrow> cur (snd (bus_rd M r h)) = cur h"
    and cur_legal: "I h \<Longrightarrow> delay_max r = Some b \<Longrightarrow> cur h r \<le> b"
begin

text \<open>The invariant of a run: the bus is used within the contract, calibration is not skipped, and a
  recorded failure stays recorded.\<close>

definition ok :: "'h seq \<Rightarrow> bool" where
  "ok s \<longleftrightarrow> I (io s) \<and> dyn_calib_steps s AND CALIB_SKIP_ALL \<noteq> CALIB_SKIP_ALL \<and>
     (failed \<longrightarrow> error_stage (gbl s) \<noteq> CAL_STAGE_NIL)"

lemma safe_iowr: "routine r v \<Longrightarrow> safe ok (iowr M r v)"
  by (simp add: safe_def ok_def wr_inv)

lemma safe_iowr_other [safe_intros]:
  "\<not> scc_delay r \<Longrightarrow> (r = PHY_MGR_CAL_STATUS \<longrightarrow> v = 0) \<Longrightarrow> safe ok (iowr M r v)"
  by (rule safe_iowr) (simp add: routine_def legal_def)

lemma safe_iord [safe_intros]: "safe ok (iord M r)"
  by (simp add: safe_def ok_def rd_inv)

lemma valid_iord_delay: "delay_max r = Some b \<Longrightarrow> scc_delay r \<Longrightarrow> valid ok (iord M r) (\<lambda>v. v \<le> b)"
  by (auto simp: valid_def hoare_def ok_def rd_inv rd_cur cur_legal)

lemma hoare_iord_cur:
  "scc_delay r \<Longrightarrow> hoare (\<lambda>s. ok s \<and> cur (io s) = c) (iord M r) (\<lambda>v s. (ok s \<and> cur (io s) = c) \<and> v = c r)"
  by (auto simp: hoare_def ok_def rd_inv rd_cur rd_keeps)

lemma safe_upd_gbl [safe_intros]:
  "(\<And>g. error_stage g \<noteq> CAL_STAGE_NIL \<Longrightarrow> error_stage (f g) \<noteq> CAL_STAGE_NIL) \<Longrightarrow> safe ok (upd_gbl f)"
  by (simp add: safe_def ok_def)

lemma safe_upd_param [safe_intros]: "safe ok (upd_param f)"
  by (simp add: safe_def ok_def)

lemma safe_set_delay_mask [safe_intros]: "safe ok (set_delay_mask x)"
  by (simp add: safe_def ok_def)

lemma safe_set_steps: "x AND CALIB_SKIP_ALL \<noteq> CALIB_SKIP_ALL \<Longrightarrow> safe ok (set_steps x)"
  by (simp add: safe_def ok_def)

end

text \<open>
  A scan chain manager in front of any other hardware: its delay registers hold the last value
  written, every other access goes to the hardware behind it, and it records the writes.
\<close>

record 'h scc =
  behind :: 'h
  delays :: "reg \<Rightarrow> u32"
  wlog :: "(reg \<times> u32) list"

definition scc_file :: "'h hwbus \<Rightarrow> 'h scc hwbus" where
  "scc_file M =
     \<lparr>bus_rd = (\<lambda>r h. if scc_delay r then (delays h r, h)
                       else (case bus_rd M r (behind h) of (v, b) \<Rightarrow> (v, h\<lparr>behind := b\<rparr>))),
      bus_wr = (\<lambda>r v h. if scc_delay r then h\<lparr>delays := (delays h)(r := v), wlog := wlog h @ [(r, v)]\<rparr>
                        else h\<lparr>behind := bus_wr M r v (behind h), wlog := wlog h @ [(r, v)]\<rparr>)\<rparr>"

text \<open>The results that have been reported; 0 is not one.\<close>

definition cal_results :: "(reg \<times> u32) list \<Rightarrow> u32 list" where
  "cal_results l = map snd (filter (\<lambda>(r, v). r = PHY_MGR_CAL_STATUS \<and> v \<noteq> 0) l)"

text \<open>All writes so far were legal, the delays are in range, and the results \<open>k\<close> have been reported.\<close>

definition scc_inv :: "u32 list \<Rightarrow> 'h scc \<Rightarrow> bool" where
  "scc_inv k h \<longleftrightarrow> (\<forall>(r, v) \<in> set (wlog h). legal r v) \<and> (\<forall>r b. delay_max r = Some b \<longrightarrow> delays h r \<le> b) \<and>
     cal_results (wlog h) = k"

lemma delay_max_other: "\<not> scc_delay r \<Longrightarrow> delay_max r = None"
  by (cases r) auto

lemma scc_inv_wr:
  assumes "scc_inv k h" and "legal r v"
  shows "scc_inv (if r = PHY_MGR_CAL_STATUS \<and> v \<noteq> 0 then k @ [v] else k) (bus_wr (scc_file M) r v h)"
proof -
  have "delays (bus_wr (scc_file M) r v h) = (if scc_delay r then (delays h)(r := v) else delays h)"
    "wlog (bus_wr (scc_file M) r v h) = wlog h @ [(r, v)]"
    by (simp_all add: scc_file_def)
  with assms show ?thesis
    by (auto simp: scc_inv_def cal_results_def legal_def delay_max_other)
qed

interpretation sccf: scc_bus "scc_file M" "scc_inv k" delays failed
  for M :: "'h hwbus" and k :: "u32 list" and failed :: bool
proof
  fix h :: "'h scc" and r r' v b
  assume h: "scc_inv k h"
  then show "scc_inv k (snd (bus_rd (scc_file M) r h))" "delays (snd (bus_rd (scc_file M) r h)) = delays h"
    by (auto simp: scc_file_def scc_inv_def split: prod.splits)
  show "fst (bus_rd (scc_file M) r h) = delays h r" if "scc_delay r"
    using that by (simp add: scc_file_def)
  show "delays h r \<le> b" if "delay_max r = Some b"
    using that h by (auto simp: scc_inv_def)
  show "scc_inv k (bus_wr (scc_file M) r v h)" if "routine r v"
    using scc_inv_wr [OF h, of r v M] that by (auto simp: routine_def)
qed

end
