(* ===== verification/SeqScc.thy ===== *)
theory SeqScc
  imports SeqBase
begin

text \<open>
  The status registers of the sequencer and its scan chain manager functions
  (\<open>sequencer.c\<close>, lines 591 to 963 and 1164 to 1977): recording the first failure, the current
  stage, the masks of the tests, rank selection, and every function that loads a delay or a phase.

  On this device the second output delay chain does not exist: the macros that write it expand to
  nothing and those that read it to 0, so the functions that set it only do what is left of them.
\<close>

subsection \<open>Status\<close>

definition set_failing_group_stage :: "u32 \<Rightarrow> u32 \<Rightarrow> u32 \<Rightarrow> ('h, unit) cal" where
  "set_failing_group_stage grp stage substage =
     upd_gbl (\<lambda>g. if error_stage g = CAL_STAGE_NIL
                  then g\<lparr>error_substage := substage, error_stage := stage, error_group := grp\<rparr> else g)"

definition reg_file_set_group :: "'h hwbus \<Rightarrow> u32 \<Rightarrow> ('h, unit) cal" where
  "reg_file_set_group M set_group = do {
     cur_stage_group \<leftarrow> iord M REG_FILE_CUR_STAGE;
     iowr M REG_FILE_CUR_STAGE ((cur_stage_group AND 0x0000FFFF) OR push_bit 16 set_group)
   }"

definition reg_file_set_stage :: "'h hwbus \<Rightarrow> u32 \<Rightarrow> ('h, unit) cal" where
  "reg_file_set_stage M set_stage = do {
     cur_stage_group \<leftarrow> iord M REG_FILE_CUR_STAGE;
     iowr M REG_FILE_CUR_STAGE ((cur_stage_group AND 0xFFFF0000) OR (set_stage AND 0x000000FF))
   }"

definition reg_file_set_sub_stage :: "'h hwbus \<Rightarrow> u32 \<Rightarrow> ('h, unit) cal" where
  "reg_file_set_sub_stage M set_sub_stage = do {
     cur_stage_group \<leftarrow> iord M REG_FILE_CUR_STAGE;
     iowr M REG_FILE_CUR_STAGE ((cur_stage_group AND 0xFFFF00FF) OR (push_bit 8 set_sub_stage AND 0x0000FF00))
   }"

text \<open>The masks of the bits a test must report, from the pins of a group.\<close>

definition correct_masks :: "param_t \<Rightarrow> param_t" where
  "correct_masks p = p
     \<lparr>read_correct_mask_vg := push_bit (unat (RW_MGR_MEM_DQ_PER_READ_DQS div RW_MGR_MEM_VIRTUAL_GROUPS_PER_READ_DQS)) 1 - 1,
      write_correct_mask_vg := push_bit (unat (RW_MGR_MEM_DQ_PER_READ_DQS div RW_MGR_MEM_VIRTUAL_GROUPS_PER_READ_DQS)) 1 - 1,
      read_correct_mask := push_bit (unat RW_MGR_MEM_DQ_PER_READ_DQS) 1 - 1,
      write_correct_mask := push_bit (unat RW_MGR_MEM_DQ_PER_WRITE_DQS) 1 - 1,
      dm_correct_mask := push_bit (unat (RW_MGR_MEM_DATA_WIDTH div RW_MGR_MEM_DATA_MASK_WIDTH)) 1 - 1\<rparr>"

definition initialize :: "'h hwbus \<Rightarrow> ('h, unit) cal" where
  "initialize M = do {
     iowr M PHY_MGR_MUX_SEL 0x3;
     iowr M PHY_MGR_RESET_MEM_STBL 0;
     iowr M PHY_MGR_CAL_STATUS 0;
     iowr M PHY_MGR_CAL_DEBUG_INFO 0;
     steps \<leftarrow> gets dyn_calib_steps;
     whenM (steps AND CALIB_SKIP_ALL \<noteq> CALIB_SKIP_ALL) (upd_param correct_masks)
   }"

subsection \<open>Rank selection\<close>

definition RW_MGR_ODT_MODE_OFF :: u32 where [config_simps]: "RW_MGR_ODT_MODE_OFF = 0"
definition RW_MGR_ODT_MODE_READ_WRITE :: u32 where [config_simps]: "RW_MGR_ODT_MODE_READ_WRITE = 1"

text \<open>Termination masks for reads and for writes in the read/write mode.\<close>

definition odt_masks :: "u32 \<Rightarrow> u32 \<times> u32" where
  "odt_masks rank =
     (if LRDIMM then
        (if RW_MGR_MEM_CHIP_SELECT_WIDTH div RW_MGR_MEM_NUMBER_OF_CS_PER_DIMM = 1 then
           (if RW_MGR_MEM_ODT_WIDTH = 1 then (0x0, 0x1)
            else if RW_MGR_MEM_ODT_WIDTH = 2 then (0x0, 0x3) else (0, 0))
         else if RW_MGR_MEM_CHIP_SELECT_WIDTH div RW_MGR_MEM_NUMBER_OF_CS_PER_DIMM = 2 then
           (if RW_MGR_MEM_ODT_WIDTH = 2 then (if rank < 2 then 0x2 else 0x1, 0x3)
            else if RW_MGR_MEM_ODT_WIDTH = 4 then (if rank < 2 then 0xC else 0x3, 0xF) else (0, 0))
         else (0, 0))
      else if RW_MGR_MEM_NUMBER_OF_RANKS = 1 then (0x0, 0x1)
      else if RW_MGR_MEM_NUMBER_OF_RANKS = 2 then
        (if RW_MGR_MEM_NUMBER_OF_CS_PER_DIMM = 1 \<or>
            RDIMM \<and> RW_MGR_MEM_NUMBER_OF_CS_PER_DIMM = 2 \<and> RW_MGR_MEM_CHIP_SELECT_WIDTH = 4
         then (0x3 AND NOT (push_bit (unat rank) 1), 0x3)
         else (0x0, 0x3 AND push_bit (unat rank) 1))
      else if rank = 0 then (0x4, 0x5) else if rank = 1 then (0x8, 0xA)
      else if rank = 2 then (0x1, 0x5) else if rank = 3 then (0x2, 0xA) else (0, 0))"

definition set_rank_and_odt_mask :: "'h hwbus \<Rightarrow> u32 \<Rightarrow> u32 \<Rightarrow> ('h, unit) cal" where
  "set_rank_and_odt_mask M rank odt_mode =
     (let (odt_mask_0, odt_mask_1) = if odt_mode = RW_MGR_ODT_MODE_READ_WRITE then odt_masks rank else (0x0, 0x0);
          cs = if RDIMM \<and> RW_MGR_MEM_NUMBER_OF_CS_PER_DIMM = 2 \<and> RW_MGR_MEM_CHIP_SELECT_WIDTH = 4 \<and>
                  RW_MGR_MEM_NUMBER_OF_RANKS = 2
               then 0xFF AND NOT (push_bit (unat (2 * rank)) 1)
               else 0xFF AND NOT (push_bit (unat rank) 1)
      in iowr M RW_MGR_SET_CS_AND_ODT_MASK
           (cs OR push_bit 8 (0xFF AND odt_mask_0) OR push_bit 16 (0xFF AND odt_mask_1)))"

subsection \<open>Loading one setting\<close>

definition scc_mgr_initialize :: "'h hwbus \<Rightarrow> ('h, unit) cal" where
  "scc_mgr_initialize M = for_each (\<lambda>i. iowr M (SCC_MGR_HHP_RFILE i) 0) (range32 0 16)"

definition scc_mgr_set_dqs_bus_in_delay :: "'h hwbus \<Rightarrow> u32 \<Rightarrow> u32 \<Rightarrow> ('h, unit) cal" where
  "scc_mgr_set_dqs_bus_in_delay M read_group delay = iowr M (SCC_MGR_DQS_IN_DELAY read_group) delay"

definition scc_mgr_set_dqs_io_in_delay :: "'h hwbus \<Rightarrow> u32 \<Rightarrow> u32 \<Rightarrow> ('h, unit) cal" where
  "scc_mgr_set_dqs_io_in_delay M write_group delay = iowr M (SCC_MGR_IO_IN_DELAY RW_MGR_MEM_DQ_PER_WRITE_DQS) delay"

definition scc_mgr_set_dqs_en_phase :: "'h hwbus \<Rightarrow> u32 \<Rightarrow> u32 \<Rightarrow> ('h, unit) cal" where
  "scc_mgr_set_dqs_en_phase M read_group phase = iowr M (SCC_MGR_DQS_EN_PHASE read_group) phase"

text \<open>The ranks that own a set of shadow registers: with one rank, rank 0.\<close>

definition shadow_ranks :: "u32 list" where
  "shadow_ranks = range32 0 (RW_MGR_MEM_NUMBER_OF_RANKS div NUM_RANKS_PER_SHADOW_REG)"

definition scc_mgr_set_dqs_en_phase_all_ranks :: "'h hwbus \<Rightarrow> u32 \<Rightarrow> u32 \<Rightarrow> ('h, unit) cal" where
  "scc_mgr_set_dqs_en_phase_all_ranks M read_group phase = for_each (\<lambda>r. do {
     scc_mgr_set_dqs_en_phase M read_group phase;
     whenM (r = 0) (do {
       iowr M SCC_MGR_DQS_ENA read_group;
       iowr M SCC_MGR_UPD 0
     })
   }) shadow_ranks"

definition scc_mgr_set_dqdqs_output_phase :: "'h hwbus \<Rightarrow> u32 \<Rightarrow> u32 \<Rightarrow> ('h, unit) cal" where
  "scc_mgr_set_dqdqs_output_phase M write_group phase = iowr M (SCC_MGR_DQDQS_OUT_PHASE write_group) phase"

definition scc_mgr_set_dqdqs_output_phase_all_ranks :: "'h hwbus \<Rightarrow> u32 \<Rightarrow> u32 \<Rightarrow> ('h, unit) cal" where
  "scc_mgr_set_dqdqs_output_phase_all_ranks M write_group phase = for_each (\<lambda>r. do {
     scc_mgr_set_dqdqs_output_phase M write_group phase;
     whenM (r = 0) (do {
       iowr M SCC_MGR_DQS_ENA write_group;
       iowr M SCC_MGR_UPD 0
     })
   }) shadow_ranks"

definition scc_mgr_set_dqs_en_delay :: "'h hwbus \<Rightarrow> u32 \<Rightarrow> u32 \<Rightarrow> ('h, unit) cal" where
  "scc_mgr_set_dqs_en_delay M read_group delay = iowr M (SCC_MGR_DQS_EN_DELAY read_group) (delay + 0)"

definition scc_mgr_set_dqs_en_delay_all_ranks :: "'h hwbus \<Rightarrow> u32 \<Rightarrow> u32 \<Rightarrow> ('h, unit) cal" where
  "scc_mgr_set_dqs_en_delay_all_ranks M read_group delay = for_each (\<lambda>r. do {
     scc_mgr_set_dqs_en_delay M read_group delay;
     iowr M SCC_MGR_DQS_ENA read_group;
     iowr M SCC_MGR_UPD 0
   }) shadow_ranks"

text \<open>The read groups whose logic blocks belong to a write group.\<close>

definition read_groups_of :: "u32 \<Rightarrow> u32 list" where
  "read_groups_of write_group =
     range32 (write_group * RW_MGR_MEM_IF_READ_DQS_WIDTH div RW_MGR_MEM_IF_WRITE_DQS_WIDTH)
             ((write_group + 1) * RW_MGR_MEM_IF_READ_DQS_WIDTH div RW_MGR_MEM_IF_WRITE_DQS_WIDTH)"

definition scc_mgr_set_oct_out1_delay :: "'h hwbus \<Rightarrow> u32 \<Rightarrow> u32 \<Rightarrow> ('h, unit) cal" where
  "scc_mgr_set_oct_out1_delay M write_group delay =
     for_each (\<lambda>read_group. iowr M (SCC_MGR_OCT_OUT1_DELAY read_group) delay) (read_groups_of write_group)"

definition scc_mgr_set_oct_out2_delay :: "'h hwbus \<Rightarrow> u32 \<Rightarrow> u32 \<Rightarrow> ('h, unit) cal" where
  "scc_mgr_set_oct_out2_delay M write_group delay = ret ()"

definition scc_mgr_set_dq_out1_delay :: "'h hwbus \<Rightarrow> u32 \<Rightarrow> u32 \<Rightarrow> u32 \<Rightarrow> ('h, unit) cal" where
  "scc_mgr_set_dq_out1_delay M write_group dq_in_group delay = iowr M (SCC_MGR_IO_OUT1_DELAY dq_in_group) delay"

definition scc_mgr_set_dq_out2_delay :: "'h hwbus \<Rightarrow> u32 \<Rightarrow> u32 \<Rightarrow> u32 \<Rightarrow> ('h, unit) cal" where
  "scc_mgr_set_dq_out2_delay M write_group dq_in_group delay = ret ()"

definition scc_mgr_set_dq_in_delay :: "'h hwbus \<Rightarrow> u32 \<Rightarrow> u32 \<Rightarrow> u32 \<Rightarrow> ('h, unit) cal" where
  "scc_mgr_set_dq_in_delay M write_group dq_in_group delay = iowr M (SCC_MGR_IO_IN_DELAY dq_in_group) delay"

definition scc_mgr_set_hhp_extras :: "'h hwbus \<Rightarrow> ('h, unit) cal" where
  "scc_mgr_set_hhp_extras M =
     iowr M (SCC_MGR_HHP_GLOBALS 0)
       (push_bit 8 0 OR push_bit 7 0 OR push_bit 5 1 OR push_bit 2 1 OR push_bit 1 1 OR push_bit 0 1)"

definition scc_mgr_set_dqs_out1_delay :: "'h hwbus \<Rightarrow> u32 \<Rightarrow> u32 \<Rightarrow> ('h, unit) cal" where
  "scc_mgr_set_dqs_out1_delay M write_group delay = iowr M (SCC_MGR_IO_OUT1_DELAY RW_MGR_MEM_DQ_PER_WRITE_DQS) delay"

definition scc_mgr_set_dqs_out2_delay :: "'h hwbus \<Rightarrow> u32 \<Rightarrow> u32 \<Rightarrow> ('h, unit) cal" where
  "scc_mgr_set_dqs_out2_delay M write_group delay = ret ()"

definition scc_mgr_set_dm_out1_delay :: "'h hwbus \<Rightarrow> u32 \<Rightarrow> u32 \<Rightarrow> u32 \<Rightarrow> ('h, unit) cal" where
  "scc_mgr_set_dm_out1_delay M write_group dm delay =
     iowr M (SCC_MGR_IO_OUT1_DELAY (RW_MGR_MEM_DQ_PER_WRITE_DQS + 1 + dm)) delay"

definition scc_mgr_set_dm_out2_delay :: "'h hwbus \<Rightarrow> u32 \<Rightarrow> u32 \<Rightarrow> u32 \<Rightarrow> ('h, unit) cal" where
  "scc_mgr_set_dm_out2_delay M write_group dm delay = ret ()"

definition scc_mgr_set_dm_in_delay :: "'h hwbus \<Rightarrow> u32 \<Rightarrow> u32 \<Rightarrow> u32 \<Rightarrow> ('h, unit) cal" where
  "scc_mgr_set_dm_in_delay M write_group dm delay =
     iowr M (SCC_MGR_IO_IN_DELAY (RW_MGR_MEM_DQ_PER_WRITE_DQS + 1 + dm)) delay"

subsection \<open>Settings of groups\<close>

definition scc_mgr_zero_all :: "'h hwbus \<Rightarrow> ('h, unit) cal" where
  "scc_mgr_zero_all M = for_each (\<lambda>r. do {
     for_each (\<lambda>i. do {
       scc_mgr_set_dqs_bus_in_delay M i IO_DQS_IN_RESERVE;
       scc_mgr_set_dqs_en_phase M i 0;
       scc_mgr_set_dqs_en_delay M i 0
     }) (range32 0 RW_MGR_MEM_IF_READ_DQS_WIDTH);
     for_each (\<lambda>i. do {
       scc_mgr_set_dqdqs_output_phase M i 0;
       scc_mgr_set_oct_out1_delay M i IO_DQS_OUT_RESERVE
     }) (range32 0 RW_MGR_MEM_IF_WRITE_DQS_WIDTH);
     iowr M SCC_MGR_DQS_ENA 0xff;
     iowr M SCC_MGR_UPD 0
   }) shadow_ranks"

definition scc_set_bypass_mode :: "'h hwbus \<Rightarrow> u32 \<Rightarrow> u32 \<Rightarrow> ('h, unit) cal" where
  "scc_set_bypass_mode M write_group mode = do {
     whenM (write_group = 0) (scc_mgr_set_hhp_extras M);
     iowr M SCC_MGR_DQ_ENA 0xff;
     iowr M SCC_MGR_DM_ENA 0xff;
     iowr M SCC_MGR_DQS_IO_ENA 0;
     iowr M SCC_MGR_DQS_ENA write_group;
     iowr M SCC_MGR_UPD 0
   }"

definition scc_mgr_load_dqs_for_write_group :: "'h hwbus \<Rightarrow> u32 \<Rightarrow> ('h, unit) cal" where
  "scc_mgr_load_dqs_for_write_group M write_group =
     for_each (\<lambda>read_group. iowr M SCC_MGR_DQS_ENA read_group) (read_groups_of write_group)"

definition scc_mgr_zero_group :: "'h hwbus \<Rightarrow> u32 \<Rightarrow> u32 \<Rightarrow> bool \<Rightarrow> ('h, unit) cal" where
  "scc_mgr_zero_group M write_group test_begin out_only = for_each (\<lambda>r. do {
     for_each (\<lambda>i. do {
       scc_mgr_set_dq_out1_delay M write_group i 0;
       scc_mgr_set_dq_out2_delay M write_group i 0;
       whenM (\<not> out_only) (scc_mgr_set_dq_in_delay M write_group i 0)
     }) (range32 0 RW_MGR_MEM_DQ_PER_WRITE_DQS);
     iowr M SCC_MGR_DQ_ENA 0xff;
     for_each (\<lambda>i. do {
       whenM (\<not> out_only) (scc_mgr_set_dm_in_delay M write_group i 0);
       scc_mgr_set_dm_out1_delay M write_group i 0;
       scc_mgr_set_dm_out2_delay M write_group i 0
     }) (range32 0 RW_MGR_NUM_DM_PER_WRITE_GROUP);
     iowr M SCC_MGR_DM_ENA 0xff;
     whenM (\<not> out_only) (scc_mgr_set_dqs_io_in_delay M write_group 0);
     scc_mgr_set_dqs_out1_delay M write_group IO_DQS_OUT_RESERVE;
     scc_mgr_set_oct_out1_delay M write_group IO_DQS_OUT_RESERVE;
     scc_mgr_load_dqs_for_write_group M write_group;
     iowr M SCC_MGR_DQS_IO_ENA 0;
     iowr M SCC_MGR_UPD 0
   }) shadow_ranks"

definition scc_mgr_load_dqs :: "'h hwbus \<Rightarrow> u32 \<Rightarrow> ('h, unit) cal" where
  "scc_mgr_load_dqs M dqs = iowr M SCC_MGR_DQS_ENA dqs"

definition scc_mgr_load_dqs_io :: "'h hwbus \<Rightarrow> ('h, unit) cal" where
  "scc_mgr_load_dqs_io M = iowr M SCC_MGR_DQS_IO_ENA 0"

definition scc_mgr_load_dq :: "'h hwbus \<Rightarrow> u32 \<Rightarrow> ('h, unit) cal" where
  "scc_mgr_load_dq M dq_in_group = iowr M SCC_MGR_DQ_ENA dq_in_group"

definition scc_mgr_load_dm :: "'h hwbus \<Rightarrow> u32 \<Rightarrow> ('h, unit) cal" where
  "scc_mgr_load_dm M dm = iowr M SCC_MGR_DM_ENA dm"

definition scc_mgr_apply_group_dq_in_delay :: "'h hwbus \<Rightarrow> u32 \<Rightarrow> u32 \<Rightarrow> u32 \<Rightarrow> ('h, unit) cal" where
  "scc_mgr_apply_group_dq_in_delay M write_group group_bgn delay = for_each (\<lambda>i. do {
     scc_mgr_set_dq_in_delay M write_group (group_bgn + i) delay;
     scc_mgr_load_dq M (group_bgn + i)
   }) (range32 0 RW_MGR_MEM_DQ_PER_READ_DQS)"

definition scc_mgr_apply_group_dq_out1_delay :: "'h hwbus \<Rightarrow> u32 \<Rightarrow> u32 \<Rightarrow> u32 \<Rightarrow> ('h, unit) cal" where
  "scc_mgr_apply_group_dq_out1_delay M write_group group_bgn delay1 = for_each (\<lambda>i. do {
     scc_mgr_set_dq_out1_delay M write_group i delay1;
     scc_mgr_load_dq M i
   }) (range32 0 RW_MGR_MEM_DQ_PER_WRITE_DQS)"

definition scc_mgr_apply_group_dm_out1_delay :: "'h hwbus \<Rightarrow> u32 \<Rightarrow> u32 \<Rightarrow> ('h, unit) cal" where
  "scc_mgr_apply_group_dm_out1_delay M write_group delay1 = for_each (\<lambda>i. do {
     scc_mgr_set_dm_out1_delay M write_group i delay1;
     scc_mgr_load_dm M i
   }) (range32 0 RW_MGR_NUM_DM_PER_WRITE_GROUP)"

definition scc_mgr_apply_group_dqs_io_and_oct_out1 :: "'h hwbus \<Rightarrow> u32 \<Rightarrow> u32 \<Rightarrow> ('h, unit) cal" where
  "scc_mgr_apply_group_dqs_io_and_oct_out1 M write_group delay = do {
     scc_mgr_set_dqs_out1_delay M write_group delay;
     scc_mgr_load_dqs_io M;
     scc_mgr_set_oct_out1_delay M write_group delay;
     scc_mgr_load_dqs_for_write_group M write_group
   }"

text \<open>One tap at a time towards the target, first down, then up.\<close>

definition scc_mgr_set_group_dqs_io_and_oct_out1_gradual :: "'h hwbus \<Rightarrow> u32 \<Rightarrow> u32 \<Rightarrow> ('h, unit) cal" where
  "scc_mgr_set_group_dqs_io_and_oct_out1_gradual M write_group delay = do {
     d \<leftarrow> iord M (SCC_MGR_IO_OUT1_DELAY RW_MGR_MEM_DQ_PER_WRITE_DQS);
     for_each (\<lambda>d. do {
       scc_mgr_apply_group_dqs_io_and_oct_out1 M write_group d;
       iowr M SCC_MGR_UPD 0
     }) (rev (range32 delay d));
     for_each (\<lambda>d. do {
       scc_mgr_apply_group_dqs_io_and_oct_out1 M write_group (d + 1);
       iowr M SCC_MGR_UPD 0
     }) (range32 (min d delay) delay)
   }"

definition scc_mgr_apply_group_all_out_delay :: "'h hwbus \<Rightarrow> u32 \<Rightarrow> u32 \<Rightarrow> u32 \<Rightarrow> ('h, unit) cal" where
  "scc_mgr_apply_group_all_out_delay M write_group group_bgn delay = do {
     scc_mgr_apply_group_dq_out1_delay M write_group group_bgn delay;
     scc_mgr_apply_group_dm_out1_delay M write_group delay;
     scc_mgr_apply_group_dqs_io_and_oct_out1 M write_group delay
   }"

definition scc_mgr_apply_group_all_out_delay_all_ranks :: "'h hwbus \<Rightarrow> u32 \<Rightarrow> u32 \<Rightarrow> u32 \<Rightarrow> ('h, unit) cal" where
  "scc_mgr_apply_group_all_out_delay_all_ranks M write_group group_bgn delay = for_each (\<lambda>r. do {
     scc_mgr_apply_group_all_out_delay M write_group group_bgn delay;
     iowr M SCC_MGR_UPD 0
   }) shadow_ranks"

text \<open>The part of a delay that fits the second chain, and what is left for the first.\<close>

definition out2_part :: "u32 \<Rightarrow> u32" where
  "out2_part new_delay = (if new_delay > IO_IO_OUT2_DELAY_MAX then IO_IO_OUT2_DELAY_MAX else new_delay)"

definition scc_mgr_apply_group_all_out_delay_add :: "'h hwbus \<Rightarrow> u32 \<Rightarrow> u32 \<Rightarrow> u32 \<Rightarrow> ('h, unit) cal" where
  "scc_mgr_apply_group_all_out_delay_add M write_group group_bgn delay = do {
     for_each (\<lambda>i. do {
       scc_mgr_set_dq_out2_delay M write_group i (out2_part (0 + delay));
       scc_mgr_load_dq M i
     }) (range32 0 RW_MGR_MEM_DQ_PER_WRITE_DQS);
     for_each (\<lambda>i. do {
       scc_mgr_set_dm_out2_delay M write_group i (out2_part (0 + delay));
       scc_mgr_load_dm M i
     }) (range32 0 RW_MGR_NUM_DM_PER_WRITE_GROUP);
     whenM (0 + delay > IO_IO_OUT2_DELAY_MAX)
       (scc_mgr_set_dqs_out1_delay M write_group (0 + delay - IO_IO_OUT2_DELAY_MAX));
     scc_mgr_set_dqs_out2_delay M write_group (out2_part (0 + delay));
     scc_mgr_load_dqs_io M;
     whenM (0 + delay > IO_IO_OUT2_DELAY_MAX)
       (scc_mgr_set_oct_out1_delay M write_group (0 + delay - IO_IO_OUT2_DELAY_MAX));
     scc_mgr_set_oct_out2_delay M write_group (out2_part (0 + delay));
     scc_mgr_load_dqs_for_write_group M write_group
   }"

definition scc_mgr_apply_group_all_out_delay_add_all_ranks :: "'h hwbus \<Rightarrow> u32 \<Rightarrow> u32 \<Rightarrow> u32 \<Rightarrow> ('h, unit) cal" where
  "scc_mgr_apply_group_all_out_delay_add_all_ranks M write_group group_bgn delay = for_each (\<lambda>r. do {
     scc_mgr_apply_group_all_out_delay_add M write_group group_bgn delay;
     iowr M SCC_MGR_UPD 0
   }) shadow_ranks"

subsection \<open>Lemmas\<close>

lemma u32_less_4: "(g :: u32) < 4 \<Longrightarrow> g = 0 \<or> g = 1 \<or> g = 2 \<or> g = 3"
  by (auto simp: word_unat_eq_iff word_less_nat_alt)

lemma read_groups_of_single [simp]: "g < 4 \<Longrightarrow> read_groups_of g = [g]"
  by (drule u32_less_4) (auto simp: read_groups_of_def range32_def config_simps upt_conv_Cons)

lemma shadow_ranks_eq [simp]: "shadow_ranks = [0]"
  by (simp add: shadow_ranks_def config_simps)

lemma pin_bound: "(p :: u32) < 8 \<Longrightarrow> p < 10"
  by (simp add: word_less_nat_alt)

lemma range32_small [simp]:
  "range32 0 4 = [0, 1, 2, 3]" "range32 0 8 = [0, 1, 2, 3, 4, 5, 6, 7]"
  by (simp_all add: range32_def upt_conv_Cons)

lemma run_whenM [simp]: "run_state (whenM b m) s = (if b then run_state m s else ((), s))"
  by (simp add: whenM_def)

subsection \<open>Every setting stays in range\<close>

context scc_bus
begin

lemma safe_dqs_in: "g < 4 \<Longrightarrow> d \<le> 31 \<Longrightarrow> safe ok (iowr M (SCC_MGR_DQS_IN_DELAY g) d)"
  by (rule safe_iowr) (simp add: routine_def legal_def config_simps)

lemma safe_set_failing [safe_intros]: "safe ok (set_failing_group_stage a b c)"
  unfolding set_failing_group_stage_def by (rule safe_upd_gbl) simp

lemma safe_reg_file [safe_intros]:
  "safe ok (reg_file_set_group M g)" "safe ok (reg_file_set_stage M g)" "safe ok (reg_file_set_sub_stage M g)"
  by (auto simp: reg_file_set_group_def reg_file_set_stage_def reg_file_set_sub_stage_def intro!: safe_intros)

lemma safe_initialize [safe_intros]: "safe ok (initialize M)"
  by (auto simp: initialize_def intro!: safe_intros)

lemma safe_set_rank [safe_intros]: "safe ok (set_rank_and_odt_mask M r m)"
  by (auto simp: set_rank_and_odt_mask_def intro!: safe_intros split: prod.splits)

lemma safe_scc_mgr_initialize [safe_intros]: "safe ok (scc_mgr_initialize M)"
  by (auto simp: scc_mgr_initialize_def intro!: safe_intros)

lemma safe_dqs_settings [safe_intros]:
  "g < 4 \<Longrightarrow> d \<le> 31 \<Longrightarrow> safe ok (scc_mgr_set_dqs_bus_in_delay M g d)"
  "g < 4 \<Longrightarrow> p \<le> 7 \<Longrightarrow> safe ok (scc_mgr_set_dqs_en_phase M g p)"
  "g < 4 \<Longrightarrow> d \<le> 31 \<Longrightarrow> safe ok (scc_mgr_set_dqs_en_delay M g d)"
  "g < 4 \<Longrightarrow> p = 0 \<Longrightarrow> safe ok (scc_mgr_set_dqdqs_output_phase M g p)"
  by (auto simp: scc_mgr_set_dqs_bus_in_delay_def scc_mgr_set_dqs_en_phase_def scc_mgr_set_dqs_en_delay_def
      scc_mgr_set_dqdqs_output_phase_def routine_def legal_def config_simps intro!: safe_iowr)

lemma safe_pin_settings [safe_intros]:
  "d \<le> 31 \<Longrightarrow> safe ok (scc_mgr_set_dqs_io_in_delay M g d)"
  "p < 8 \<Longrightarrow> d \<le> 31 \<Longrightarrow> safe ok (scc_mgr_set_dq_out1_delay M g p d)"
  "p < 8 \<Longrightarrow> d \<le> 31 \<Longrightarrow> safe ok (scc_mgr_set_dq_in_delay M g p d)"
  "d \<le> 31 \<Longrightarrow> safe ok (scc_mgr_set_dqs_out1_delay M g d)"
  by (auto simp: scc_mgr_set_dqs_io_in_delay_def scc_mgr_set_dq_out1_delay_def scc_mgr_set_dq_in_delay_def
      scc_mgr_set_dqs_out1_delay_def routine_def legal_def config_simps pin_bound intro!: safe_iowr)

lemma safe_dm_settings [safe_intros]:
  "i = 0 \<Longrightarrow> d \<le> 31 \<Longrightarrow> safe ok (scc_mgr_set_dm_out1_delay M g i d)"
  "i = 0 \<Longrightarrow> d \<le> 31 \<Longrightarrow> safe ok (scc_mgr_set_dm_in_delay M g i d)"
  by (auto simp: scc_mgr_set_dm_out1_delay_def scc_mgr_set_dm_in_delay_def routine_def legal_def config_simps intro!: safe_iowr)

lemma safe_oct_out1 [safe_intros]: "g < 4 \<Longrightarrow> d \<le> 31 \<Longrightarrow> safe ok (scc_mgr_set_oct_out1_delay M g d)"
  by (auto simp: scc_mgr_set_oct_out1_delay_def routine_def legal_def config_simps intro!: safe_intros safe_iowr)

lemma safe_out2 [safe_intros]:
  "safe ok (scc_mgr_set_oct_out2_delay M g d)" "safe ok (scc_mgr_set_dq_out2_delay M g p d)"
  "safe ok (scc_mgr_set_dqs_out2_delay M g d)" "safe ok (scc_mgr_set_dm_out2_delay M g p d)"
  by (simp_all add: scc_mgr_set_oct_out2_delay_def scc_mgr_set_dq_out2_delay_def
      scc_mgr_set_dqs_out2_delay_def scc_mgr_set_dm_out2_delay_def safe_ret)

lemma safe_all_ranks [safe_intros]:
  "g < 4 \<Longrightarrow> p \<le> 7 \<Longrightarrow> safe ok (scc_mgr_set_dqs_en_phase_all_ranks M g p)"
  "g < 4 \<Longrightarrow> q = 0 \<Longrightarrow> safe ok (scc_mgr_set_dqdqs_output_phase_all_ranks M g q)"
  "g < 4 \<Longrightarrow> d \<le> 31 \<Longrightarrow> safe ok (scc_mgr_set_dqs_en_delay_all_ranks M g d)"
  by (auto simp: scc_mgr_set_dqs_en_phase_all_ranks_def scc_mgr_set_dqdqs_output_phase_all_ranks_def
      scc_mgr_set_dqs_en_delay_all_ranks_def intro!: safe_intros)

lemma safe_loads [safe_intros]:
  "safe ok (scc_mgr_load_dqs M g)" "safe ok (scc_mgr_load_dqs_io M)" "safe ok (scc_mgr_load_dq M p)"
  "safe ok (scc_mgr_load_dm M p)" "safe ok (scc_mgr_load_dqs_for_write_group M g)"
  by (auto simp: scc_mgr_load_dqs_def scc_mgr_load_dqs_io_def scc_mgr_load_dq_def scc_mgr_load_dm_def
      scc_mgr_load_dqs_for_write_group_def intro!: safe_intros)

lemma safe_zero_all [safe_intros]: "safe ok (scc_mgr_zero_all M)"
  by (auto simp: scc_mgr_zero_all_def config_simps range32_mem intro!: safe_intros)

lemma safe_bypass [safe_intros]: "safe ok (scc_set_bypass_mode M g m)"
  by (auto simp: scc_set_bypass_mode_def scc_mgr_set_hhp_extras_def intro!: safe_intros)

lemma safe_zero_group [safe_intros]: "g < 4 \<Longrightarrow> safe ok (scc_mgr_zero_group M g t out_only)"
  by (auto simp: scc_mgr_zero_group_def config_simps range32_mem intro!: safe_intros)

lemma safe_apply_group [safe_intros]:
  "t = 0 \<Longrightarrow> d \<le> 31 \<Longrightarrow> safe ok (scc_mgr_apply_group_dq_in_delay M g t d)"
  "d \<le> 31 \<Longrightarrow> safe ok (scc_mgr_apply_group_dq_out1_delay M g t d)"
  "d \<le> 31 \<Longrightarrow> safe ok (scc_mgr_apply_group_dm_out1_delay M g d)"
  "g < 4 \<Longrightarrow> d \<le> 31 \<Longrightarrow> safe ok (scc_mgr_apply_group_dqs_io_and_oct_out1 M g d)"
  by (auto simp: scc_mgr_apply_group_dq_in_delay_def scc_mgr_apply_group_dq_out1_delay_def
      scc_mgr_apply_group_dm_out1_delay_def scc_mgr_apply_group_dqs_io_and_oct_out1_def
      config_simps range32_mem intro!: safe_intros)

lemma safe_apply_all_out [safe_intros]:
  "g < 4 \<Longrightarrow> d \<le> 31 \<Longrightarrow> safe ok (scc_mgr_apply_group_all_out_delay M g t d)"
  "g < 4 \<Longrightarrow> d \<le> 31 \<Longrightarrow> safe ok (scc_mgr_apply_group_all_out_delay_all_ranks M g t d)"
  by (auto simp: scc_mgr_apply_group_all_out_delay_all_ranks_def scc_mgr_apply_group_all_out_delay_def
      intro!: safe_intros)

lemma safe_apply_all_out_add [safe_intros]:
  "g < 4 \<Longrightarrow> d \<le> 31 \<Longrightarrow> safe ok (scc_mgr_apply_group_all_out_delay_add M g t d)"
  "g < 4 \<Longrightarrow> d \<le> 31 \<Longrightarrow> safe ok (scc_mgr_apply_group_all_out_delay_add_all_ranks M g t d)"
  by (auto simp: scc_mgr_apply_group_all_out_delay_add_all_ranks_def scc_mgr_apply_group_all_out_delay_add_def
      config_simps intro!: safe_intros)

end

subsection \<open>What the operations do\<close>

lemma set_failing_keeps:
  "error_stage (gbl s) \<noteq> CAL_STAGE_NIL \<Longrightarrow> run_state (set_failing_group_stage a b c) s = ((), s)"
  by (simp add: set_failing_group_stage_def)

lemma failing_kept:
  "error_stage (gbl s) \<noteq> CAL_STAGE_NIL \<Longrightarrow>
   run_state (for_each (\<lambda>(a, b, c). set_failing_group_stage a b c) xs) s = ((), s)"
  by (induction xs) (auto simp: set_failing_keeps)

text \<open>
  of several failures reported one after the other, each with a stage, the first one is the
  one that is kept for the report at the end of calibration.
\<close>

theorem first_failure_is_kept:
  assumes "error_stage (gbl s) = CAL_STAGE_NIL" and "b \<noteq> CAL_STAGE_NIL"
    and "gbl s' = gbl (snd (run_state (for_each (\<lambda>(a, b, c). set_failing_group_stage a b c) ((a, b, c) # xs)) s))"
  shows "(error_group (gbl s'), error_stage (gbl s'), error_substage (gbl s')) = (a, b, c)"
proof -
  define s1 where "s1 = snd (run_state (set_failing_group_stage a b c) s)"
  then have "(error_group (gbl s1), error_stage (gbl s1), error_substage (gbl s1)) = (a, b, c)"
    using assms by (simp add: set_failing_group_stage_def)
  moreover have "run_state (for_each (\<lambda>(a, b, c). set_failing_group_stage a b c) ((a, b, c) # xs)) s = ((), s1)"
    using failing_kept [of s1 xs] calculation assms(2) by (auto simp: s1_def split: prod.splits)
  ultimately show ?thesis using assms(3) by simp
qed

text \<open>A register that holds what is written to it.\<close>

definition holds :: "'h hwbus \<Rightarrow> reg \<Rightarrow> bool" where
  "holds M r \<longleftrightarrow> (\<forall>h v. fst (bus_rd M r (bus_wr M r v h)) = v \<and>
                     fst (bus_rd M r (snd (bus_rd M r h))) = fst (bus_rd M r h))"

lemma stage_masks:
  "(0xFFFF :: u32) = mask 16" "(0xFFFF0000 :: u32) = push_bit 16 (mask 16)" "(0xFF :: u32) = mask 8"
  "(0xFFFF00FF :: u32) = push_bit 16 (mask 16) OR mask 8" "(0xFF00 :: u32) = push_bit 8 (mask 8)"
  by code_simp+

lemma u32_small_bit:
  assumes "unat (x :: u32) < 2 ^ n" and "bit x i"
  shows "i < n"
proof -
  have "take_bit n x = x"
    using assms(1) by (simp add: word_unat_eq_iff unsigned_take_bit_eq take_bit_nat_eq_self)
  with assms(2) show ?thesis by (metis bit_take_bit_iff)
qed

lemma stage_word:
  fixes g st sub x :: u32
  assumes "unat g < 2 ^ 16" and "unat st < 2 ^ 8" and "unat sub < 2 ^ 8"
  shows "((((((x AND 0x0000FFFF) OR push_bit 16 g) AND 0xFFFF0000) OR (st AND 0xFF)) AND 0xFFFF00FF) OR
          (push_bit 8 sub AND 0xFF00)) = push_bit 16 g OR push_bit 8 sub OR st"
proof (rule bit_word_eqI)
  fix i
  assume "i < LENGTH(32)"
  then show "bit ((((((x AND 0x0000FFFF) OR push_bit 16 g) AND 0xFFFF0000) OR (st AND 0xFF)) AND 0xFFFF00FF) OR
          (push_bit 8 sub AND 0xFF00)) i \<longleftrightarrow> bit (push_bit 16 g OR push_bit 8 sub OR st) i"
    using u32_small_bit [OF assms(1), of "i - 16"] u32_small_bit [OF assms(2), of i]
      u32_small_bit [OF assms(3), of "i - 8"]
    unfolding stage_masks by (auto simp: bit_simps)
qed

text \<open>
  the status register.  After the group, the stage and the substage are set, in this order, the
  register reads as the group in the upper half, the substage in the second byte and the stage in
  the first, whatever it held before.
\<close>

theorem status_register_fields:
  assumes "holds M REG_FILE_CUR_STAGE" and "g < 0x10000" and "st < 0x100" and "sub < 0x100"
  shows "fst (run_state (do { reg_file_set_group M g; reg_file_set_stage M st; reg_file_set_sub_stage M sub;
           iord M REG_FILE_CUR_STAGE }) s) = push_bit 16 g OR push_bit 8 sub OR st"
proof -
  have rd: "fst (bus_rd M REG_FILE_CUR_STAGE (bus_wr M REG_FILE_CUR_STAGE v h)) = v" for v h
    using assms(1) by (simp add: holds_def)
  show ?thesis
    using stage_word [of g st sub "fst (bus_rd M REG_FILE_CUR_STAGE (io s))"] assms(2-4)
    by (simp add: word_less_nat_alt reg_file_set_group_def reg_file_set_stage_def reg_file_set_sub_stage_def rd)
qed

text \<open>A hardware whose registers are a plain memory, to try the theorems on.\<close>

definition memory_bus :: "(reg \<Rightarrow> u32) hwbus" where
  "memory_bus = \<lparr>bus_rd = (\<lambda>r h. (h r, h)), bus_wr = (\<lambda>r v h. h(r := v))\<rparr>"

definition start_gbl :: gbl_t where
  "start_gbl = \<lparr>phy_debug_mode_flags = 0, curr_read_lat = 0, curr_write_lat = 0, error_substage = 0,
     error_stage = 0, error_group = 0, fom_in = 0, fom_out = 0, rw_wl_nop_cycles = 0\<rparr>"

definition start_seq :: "'h \<Rightarrow> 'h seq" where
  "start_seq h = \<lparr>io = h, gbl = start_gbl,
     param = \<lparr>dm_correct_mask = 0, read_correct_mask = 0, read_correct_mask_vg = 0, write_correct_mask = 0,
       write_correct_mask_vg = 0, skip_ranks = (\<lambda>_. 0), skip_groups = 0, skip_shadow_regs = (\<lambda>_. 0)\<rparr>,
     dyn_calib_steps = 0, skip_delay_mask = 0\<rparr>"

lemma memory_holds: "holds memory_bus r"
  by (simp add: holds_def memory_bus_def)

theorem first_failure_is_kept_witness:
  "let s' = snd (run_state (for_each (\<lambda>(a, b, c). set_failing_group_stage a b c) [(2, 1, 3), (0, 4, 1)])
               (start_seq ()))
   in (error_group (gbl s'), error_stage (gbl s'), error_substage (gbl s')) = (2, 1, 3)"
  using first_failure_is_kept [of "start_seq ()" 1 _ 2 3 "[(0, 4, 1)]", OF _ _ refl]
  by (simp add: start_seq_def start_gbl_def config_simps Let_def)

theorem status_register_fields_witness:
  "fst (run_state (do { reg_file_set_group memory_bus 3; reg_file_set_stage memory_bus 4;
      reg_file_set_sub_stage memory_bus 1; iord memory_bus REG_FILE_CUR_STAGE })
     (start_seq (\<lambda>_. 0xFFFFFFFF))) = 0x30104"
  using status_register_fields [OF memory_holds, of 3 4 1 "start_seq (\<lambda>_. 0xFFFFFFFF)"] by simp

text \<open>
  adding a delay to the output side of a group.  Of the pins of the group only the strobe and
  its termination get the delay: the second chain, which should take the share of the data and
  mask pins, does not exist, so that their delays stay as they are.
\<close>

theorem all_out_delay_add_moves_strobe_only:
  assumes "g < 4" and "0 < d"
  shows "delays (io (snd (run_state (scc_mgr_apply_group_all_out_delay_add_all_ranks (scc_file M) g t d) s))) =
         (delays (io s))(SCC_MGR_IO_OUT1_DELAY RW_MGR_MEM_DQ_PER_WRITE_DQS := d, SCC_MGR_OCT_OUT1_DELAY g := d)"
  using assms
  by (simp add: scc_mgr_apply_group_all_out_delay_add_all_ranks_def scc_mgr_apply_group_all_out_delay_add_def
      scc_mgr_set_dq_out2_delay_def scc_mgr_load_dq_def scc_mgr_set_dm_out2_delay_def scc_mgr_load_dm_def
      scc_mgr_set_dqs_out1_delay_def scc_mgr_set_dqs_out2_delay_def scc_mgr_load_dqs_io_def
      scc_mgr_set_oct_out1_delay_def scc_mgr_set_oct_out2_delay_def scc_mgr_load_dqs_for_write_group_def
      scc_file_def config_simps)

theorem all_out_delay_add_moves_strobe_only_witness:
  "delays (io (snd (run_state (scc_mgr_apply_group_all_out_delay_add_all_ranks (scc_file memory_bus) 1 0 6)
      (start_seq \<lparr>behind = (\<lambda>_. 0), delays = (\<lambda>_. 0), wlog = []\<rparr>)))) =
   ((\<lambda>_. 0)(SCC_MGR_IO_OUT1_DELAY 8 := 6, SCC_MGR_OCT_OUT1_DELAY 1 := 6))"
  using all_out_delay_add_moves_strobe_only [of 1 6 memory_bus 0]
  by (simp add: start_seq_def config_simps)

end
