(* ===== verification/SeqRw.thy ===== *)
theory SeqRw
  imports SeqScc
begin

text \<open>
  The read/write manager side of the sequencer (\<open>sequencer.c\<close>, lines 2008 to 3929, 6256 to 6479 and
  8168 to 8542): delays, the power-up sequence and the hand-off of the memory, and the tests, which
  load a micro-program, run it on a group and read back the bits that failed.
\<close>

subsection \<open>Delays\<close>

definition SEQ_TINIT_CNTR0_VAL :: u32 where [config_simps]: "SEQ_TINIT_CNTR0_VAL = 99"
definition SEQ_TINIT_CNTR1_VAL :: u32 where [config_simps]: "SEQ_TINIT_CNTR1_VAL = 32"
definition SEQ_TINIT_CNTR2_VAL :: u32 where [config_simps]: "SEQ_TINIT_CNTR2_VAL = 32"
definition SEQ_TRESET_CNTR0_VAL :: u32 where [config_simps]: "SEQ_TRESET_CNTR0_VAL = 99"
definition SEQ_TRESET_CNTR1_VAL :: u32 where [config_simps]: "SEQ_TRESET_CNTR1_VAL = 99"
definition SEQ_TRESET_CNTR2_VAL :: u32 where [config_simps]: "SEQ_TRESET_CNTR2_VAL = 10"
definition RW_MGR_RANK_ALL :: u32 where [config_simps]: "RW_MGR_RANK_ALL = 0"

definition SKIP_DELAY_LOOP_VALUE_OR_ZERO :: "u32 \<Rightarrow> ('h, u32) cal" where
  "SKIP_DELAY_LOOP_VALUE_OR_ZERO v = gets (\<lambda>s. v AND ucast (skip_delay_mask s))"

definition set_jump_as_return :: "'h hwbus \<Rightarrow> ('h, unit) cal" where
  "set_jump_as_return M = do {
     iowr M RW_MGR_LOAD_CNTR_0 0xFF;
     iowr M RW_MGR_LOAD_JUMP_ADD_0 (inst I_RETURN)
   }"

text \<open>The two loop counters and the repetition of the outermost loop for a number of clocks.\<close>

definition delay_counters :: "u32 \<Rightarrow> u8 \<times> u8 \<times> u16" where
  "delay_counters afi_clocks =
     (if afi_clocks = 0 then (0, 0, 0)
      else if afi_clocks \<le> 0x100 then (ucast (afi_clocks - 1), 0, 0)
      else if afi_clocks \<le> 0x10000 then (0xff, ucast (drop_bit 8 (afi_clocks - 1)), 0)
      else (0xff, 0xff, ucast (drop_bit 16 (afi_clocks - 1))))"

definition delay_for_n_mem_clocks :: "'h hwbus \<Rightarrow> u32 \<Rightarrow> ('h, unit) cal" where
  "delay_for_n_mem_clocks M clocks =
     (let afi_clocks = (clocks + AFI_RATE_RATIO - 1) div AFI_RATE_RATIO;
          (inner, outer, c_loop) = delay_counters afi_clocks
      in if afi_clocks \<le> 0x100 then do {
           v \<leftarrow> SKIP_DELAY_LOOP_VALUE_OR_ZERO (ucast inner);
           iowr M RW_MGR_LOAD_CNTR_1 v;
           iowr M RW_MGR_LOAD_JUMP_ADD_1 (inst I_IDLE_LOOP1);
           iowr M (RW_MGR_RUN_SINGLE_GROUP 0) (inst I_IDLE_LOOP1)
         } else do {
           v \<leftarrow> SKIP_DELAY_LOOP_VALUE_OR_ZERO (ucast inner);
           iowr M RW_MGR_LOAD_CNTR_0 v;
           v \<leftarrow> SKIP_DELAY_LOOP_VALUE_OR_ZERO (ucast outer);
           iowr M RW_MGR_LOAD_CNTR_1 v;
           iowr M RW_MGR_LOAD_JUMP_ADD_0 (inst I_IDLE_LOOP2);
           iowr M RW_MGR_LOAD_JUMP_ADD_1 (inst I_IDLE_LOOP2);
           if afi_clocks \<le> 0x10000 then iowr M (RW_MGR_RUN_SINGLE_GROUP 0) (inst I_IDLE_LOOP2)
           else for_each (\<lambda>_. iowr M (RW_MGR_RUN_SINGLE_GROUP 0) (inst I_IDLE_LOOP2))
                  (replicate (unat c_loop + 1) ())
         })"

subsection \<open>Power-up and hand-off\<close>

text \<open>One pass of the nested counters of the reset phases.\<close>

definition run_reset_phase :: "'h hwbus \<Rightarrow> u32 \<Rightarrow> u32 \<Rightarrow> u32 \<Rightarrow> uinst \<Rightarrow> ('h, unit) cal" where
  "run_reset_phase M c0 c1 c2 i = do {
     v \<leftarrow> SKIP_DELAY_LOOP_VALUE_OR_ZERO c0;
     iowr M RW_MGR_LOAD_CNTR_0 v;
     v \<leftarrow> SKIP_DELAY_LOOP_VALUE_OR_ZERO c1;
     iowr M RW_MGR_LOAD_CNTR_1 v;
     v \<leftarrow> SKIP_DELAY_LOOP_VALUE_OR_ZERO c2;
     iowr M RW_MGR_LOAD_CNTR_2 v;
     iowr M RW_MGR_LOAD_JUMP_ADD_0 (inst i);
     iowr M RW_MGR_LOAD_JUMP_ADD_1 (inst i);
     iowr M RW_MGR_LOAD_JUMP_ADD_2 (inst i);
     iowr M (RW_MGR_RUN_SINGLE_GROUP 0) (inst i)
   }"

text \<open>A mode register command: run the instruction and return.\<close>

definition run_mrs :: "'h hwbus \<Rightarrow> uinst \<Rightarrow> ('h, unit) cal" where
  "run_mrs M i = do {
     set_jump_as_return M;
     iowr M (RW_MGR_RUN_SINGLE_GROUP 0) (inst i)
   }"

text \<open>Whether the commands of a rank go to mirrored address pins.\<close>

definition mirrored :: "u32 \<Rightarrow> bool" where
  "mirrored r \<longleftrightarrow> drop_bit (unat r) RW_MGR_MEM_ADDRESS_MIRRORING AND 0x1 \<noteq> 0"

definition rw_mgr_mem_initialize :: "'h hwbus \<Rightarrow> ('h, unit) cal" where
  "rw_mgr_mem_initialize M = do {
     iowr M RW_MGR_SET_CS_AND_ODT_MASK RW_MGR_RANK_ALL;
     run_reset_phase M SEQ_TINIT_CNTR0_VAL SEQ_TINIT_CNTR1_VAL SEQ_TINIT_CNTR2_VAL I_INIT_RESET_0_CKE_0;
     iowr M PHY_MGR_RESET_MEM_STBL 1;
     run_reset_phase M SEQ_TRESET_CNTR0_VAL SEQ_TRESET_CNTR1_VAL SEQ_TRESET_CNTR2_VAL I_INIT_RESET_1_CKE_0;
     delay_for_n_mem_clocks M 250;
     for_each (\<lambda>r. do {
       skip \<leftarrow> gets (\<lambda>s. skip_ranks (param s) r);
       whenM (skip = 0) (do {
         set_rank_and_odt_mask M r RW_MGR_ODT_MODE_OFF;
         (if mirrored r then do {
           run_mrs M I_MRS2_MIRR;
           delay_for_n_mem_clocks M 4;
           run_mrs M I_MRS3_MIRR;
           delay_for_n_mem_clocks M 4;
           run_mrs M I_MRS1_MIRR;
           delay_for_n_mem_clocks M 4;
           run_mrs M I_MRS0_DLL_RESET_MIRR
         } else do {
           run_mrs M I_MRS2;
           delay_for_n_mem_clocks M 4;
           run_mrs M I_MRS3;
           delay_for_n_mem_clocks M 4;
           run_mrs M I_MRS1;
           run_mrs M I_MRS0_DLL_RESET
         });
         run_mrs M I_ZQCL;
         delay_for_n_mem_clocks M 512
       })
     }) (range32 0 RW_MGR_MEM_NUMBER_OF_RANKS)
   }"

definition rw_mgr_mem_handoff :: "'h hwbus \<Rightarrow> ('h, unit) cal" where
  "rw_mgr_mem_handoff M = for_each (\<lambda>r. do {
     skip \<leftarrow> gets (\<lambda>s. skip_ranks (param s) r);
     whenM (skip = 0) (do {
       set_rank_and_odt_mask M r RW_MGR_ODT_MODE_OFF;
       iowr M (RW_MGR_RUN_SINGLE_GROUP 0) (inst I_PRECHARGE_ALL);
       if mirrored r then do {
         run_mrs M I_MRS2_MIRR;
         delay_for_n_mem_clocks M 4;
         run_mrs M I_MRS3_MIRR;
         delay_for_n_mem_clocks M 4;
         run_mrs M I_MRS1_MIRR;
         delay_for_n_mem_clocks M 4;
         run_mrs M I_MRS0_USER_MIRR
       } else do {
         run_mrs M I_MRS2;
         delay_for_n_mem_clocks M 4;
         run_mrs M I_MRS3;
         delay_for_n_mem_clocks M 4;
         run_mrs M I_MRS1;
         delay_for_n_mem_clocks M 4;
         run_mrs M I_MRS0_USER
       }
     })
   }) (range32 0 RW_MGR_MEM_NUMBER_OF_RANKS)"

definition mem_precharge_and_activate :: "'h hwbus \<Rightarrow> ('h, unit) cal" where
  "mem_precharge_and_activate M = for_each (\<lambda>r. do {
     skip \<leftarrow> gets (\<lambda>s. skip_ranks (param s) r);
     whenM (skip = 0) (do {
       set_rank_and_odt_mask M r RW_MGR_ODT_MODE_OFF;
       iowr M (RW_MGR_RUN_SINGLE_GROUP 0) (inst I_PRECHARGE_ALL);
       iowr M RW_MGR_LOAD_CNTR_0 0x0F;
       iowr M RW_MGR_LOAD_JUMP_ADD_0 (inst I_ACTIVATE_0_AND_1_WAIT1);
       iowr M RW_MGR_LOAD_CNTR_1 0x0F;
       iowr M RW_MGR_LOAD_JUMP_ADD_1 (inst I_ACTIVATE_0_AND_1_WAIT2);
       iowr M (RW_MGR_RUN_SINGLE_GROUP 0) (inst I_ACTIVATE_0_AND_1)
     })
   }) (range32 0 RW_MGR_MEM_NUMBER_OF_RANKS)"

subsection \<open>Read tests\<close>

text \<open>
  A test returns whether it passed and, in the place of the C code's pointer argument, the bits
  that passed.  Ranks are tested one after the other and only a bit that passes on all of them
  counts; a rank may be left out.
\<close>

definition test_ranks :: "u32 \<Rightarrow> bool \<Rightarrow> u32 list" where
  "test_ranks rank_bgn all_ranks =
     range32 rank_bgn (if all_ranks then RW_MGR_MEM_NUMBER_OF_RANKS else rank_bgn + NUM_RANKS_PER_SHADOW_REG)"

definition rw_mgr_mem_calibrate_read_test_patterns ::
    "'h hwbus \<Rightarrow> u32 \<Rightarrow> u32 \<Rightarrow> u32 \<Rightarrow> bool \<Rightarrow> ('h, bool \<times> u32) cal" where
  "rw_mgr_mem_calibrate_read_test_patterns M rank_bgn grp num_tries all_ranks = do {
     mask_all \<leftarrow> gets (\<lambda>s. read_correct_mask (param s));
     correct_mask_vg \<leftarrow> gets (\<lambda>s. read_correct_mask_vg (param s));
     bit_chk \<leftarrow> fold_each (\<lambda>r bit_chk. do {
       skip \<leftarrow> gets (\<lambda>s. skip_ranks (param s) r);
       if skip \<noteq> 0 then ret bit_chk
       else do {
         set_rank_and_odt_mask M r RW_MGR_ODT_MODE_READ_WRITE;
         iowr M RW_MGR_LOAD_CNTR_0 0x20;
         iowr M RW_MGR_LOAD_JUMP_ADD_0 (inst I_GUARANTEED_READ);
         iowr M RW_MGR_LOAD_CNTR_1 0x20;
         iowr M RW_MGR_LOAD_JUMP_ADD_1 (inst I_GUARANTEED_READ_CONT);
         tmp_bit_chk \<leftarrow> fold_each (\<lambda>vg tmp_bit_chk. do {
           iowr M PHY_MGR_CMD_FIFO_RESET 0;
           iowr M RW_MGR_RESET_READ_DATAPATH 0;
           iowr M (RW_MGR_RUN_SINGLE_GROUP (grp * RW_MGR_MEM_VIRTUAL_GROUPS_PER_READ_DQS + vg)) (inst I_GUARANTEED_READ);
           v \<leftarrow> iord M (RW_MGR_RUN_SINGLE_GROUP 0);
           ret (push_bit (unat (RW_MGR_MEM_DQ_PER_READ_DQS div RW_MGR_MEM_VIRTUAL_GROUPS_PER_READ_DQS)) tmp_bit_chk OR
                (correct_mask_vg AND NOT v))
         }) (rev (range32 0 RW_MGR_MEM_VIRTUAL_GROUPS_PER_READ_DQS)) 0;
         ret (bit_chk AND tmp_bit_chk)
       }
     }) (test_ranks rank_bgn all_ranks) mask_all;
     iowr M (RW_MGR_RUN_SINGLE_GROUP grp) (inst I_CLEAR_DQS_ENABLE);
     set_rank_and_odt_mask M 0 RW_MGR_ODT_MODE_OFF;
     ret (bit_chk = mask_all, bit_chk)
   }"

definition rw_mgr_mem_calibrate_read_test_patterns_all_ranks ::
    "'h hwbus \<Rightarrow> u32 \<Rightarrow> u32 \<Rightarrow> ('h, bool \<times> u32) cal" where
  "rw_mgr_mem_calibrate_read_test_patterns_all_ranks M grp num_tries = do {
     (pass, bit_chk) \<leftarrow> rw_mgr_mem_calibrate_read_test_patterns M 0 grp num_tries True;
     if pass then ret (True, bit_chk)
     else loop (\<lambda>p _. do {
       scc_mgr_set_dqs_en_phase_all_ranks M grp p;
       rw_mgr_mem_calibrate_read_test_patterns M 0 grp num_tries True
     }) (range32 0 (IO_DQS_EN_PHASE_MAX + 1)) bit_chk
   }"

definition rw_mgr_mem_calibrate_read_load_patterns :: "'h hwbus \<Rightarrow> u32 \<Rightarrow> bool \<Rightarrow> ('h, unit) cal" where
  "rw_mgr_mem_calibrate_read_load_patterns M rank_bgn all_ranks = do {
     for_each (\<lambda>r. do {
       skip \<leftarrow> gets (\<lambda>s. skip_ranks (param s) r);
       whenM (skip = 0) (do {
         set_rank_and_odt_mask M r RW_MGR_ODT_MODE_READ_WRITE;
         iowr M RW_MGR_LOAD_CNTR_0 0x20;
         iowr M RW_MGR_LOAD_JUMP_ADD_0 (inst I_GUARANTEED_WRITE_WAIT0);
         iowr M RW_MGR_LOAD_CNTR_1 0x20;
         iowr M RW_MGR_LOAD_JUMP_ADD_1 (inst I_GUARANTEED_WRITE_WAIT1);
         iowr M RW_MGR_LOAD_CNTR_2 0x04;
         iowr M RW_MGR_LOAD_JUMP_ADD_2 (inst I_GUARANTEED_WRITE_WAIT2);
         iowr M RW_MGR_LOAD_CNTR_3 0x04;
         iowr M RW_MGR_LOAD_JUMP_ADD_3 (inst I_GUARANTEED_WRITE_WAIT3);
         iowr M (RW_MGR_RUN_SINGLE_GROUP 0) (inst I_GUARANTEED_WRITE)
       })
     }) (test_ranks rank_bgn all_ranks);
     set_rank_and_odt_mask M 0 RW_MGR_ODT_MODE_OFF
   }"

definition rw_mgr_mem_calibrate_read_load_patterns_all_ranks :: "'h hwbus \<Rightarrow> ('h, unit) cal" where
  "rw_mgr_mem_calibrate_read_load_patterns_all_ranks M = rw_mgr_mem_calibrate_read_load_patterns M 0 True"

definition rw_mgr_mem_calibrate_read_test ::
    "'h hwbus \<Rightarrow> u32 \<Rightarrow> u32 \<Rightarrow> u32 \<Rightarrow> bool \<Rightarrow> bool \<Rightarrow> bool \<Rightarrow> ('h, bool \<times> u32) cal" where
  "rw_mgr_mem_calibrate_read_test M rank_bgn grp num_tries all_correct all_groups all_ranks = do {
     mask_all \<leftarrow> gets (\<lambda>s. read_correct_mask (param s));
     correct_mask_vg \<leftarrow> gets (\<lambda>s. read_correct_mask_vg (param s));
     bit_chk \<leftarrow> fold_each (\<lambda>r bit_chk. do {
       skip \<leftarrow> gets (\<lambda>s. skip_ranks (param s) r);
       if skip \<noteq> 0 then ret bit_chk
       else do {
         set_rank_and_odt_mask M r RW_MGR_ODT_MODE_READ_WRITE;
         iowr M RW_MGR_LOAD_CNTR_1 0x10;
         iowr M RW_MGR_LOAD_JUMP_ADD_1 (inst I_READ_B2B_WAIT1);
         iowr M RW_MGR_LOAD_CNTR_2 0x10;
         iowr M RW_MGR_LOAD_JUMP_ADD_2 (inst I_READ_B2B_WAIT2);
         iowr M RW_MGR_LOAD_CNTR_0 (if all_groups then 0x06 else 0x32);
         iowr M RW_MGR_LOAD_JUMP_ADD_0 (inst I_READ_B2B);
         iowr M RW_MGR_LOAD_CNTR_3
           (if all_groups then RW_MGR_MEM_IF_READ_DQS_WIDTH * RW_MGR_MEM_VIRTUAL_GROUPS_PER_READ_DQS - 1 else 0x0);
         iowr M RW_MGR_LOAD_JUMP_ADD_3 (inst I_READ_B2B);
         tmp_bit_chk \<leftarrow> fold_each (\<lambda>vg tmp_bit_chk. do {
           iowr M PHY_MGR_CMD_FIFO_RESET 0;
           iowr M RW_MGR_RESET_READ_DATAPATH 0;
           iowr M (if all_groups then RW_MGR_RUN_ALL_GROUPS (grp * RW_MGR_MEM_VIRTUAL_GROUPS_PER_READ_DQS + vg)
                   else RW_MGR_RUN_SINGLE_GROUP (grp * RW_MGR_MEM_VIRTUAL_GROUPS_PER_READ_DQS + vg)) (inst I_READ_B2B);
           v \<leftarrow> iord M (RW_MGR_RUN_SINGLE_GROUP 0);
           ret (push_bit (unat (RW_MGR_MEM_DQ_PER_READ_DQS div RW_MGR_MEM_VIRTUAL_GROUPS_PER_READ_DQS)) tmp_bit_chk OR
                (correct_mask_vg AND NOT v))
         }) (rev (range32 0 RW_MGR_MEM_VIRTUAL_GROUPS_PER_READ_DQS)) 0;
         ret (bit_chk AND tmp_bit_chk)
       }
     }) (test_ranks rank_bgn all_ranks) mask_all;
     iowr M (RW_MGR_RUN_SINGLE_GROUP grp) (inst I_CLEAR_DQS_ENABLE);
     set_rank_and_odt_mask M 0 RW_MGR_ODT_MODE_OFF;
     ret (if all_correct then bit_chk = mask_all else bit_chk \<noteq> 0x00, bit_chk)
   }"

text \<open>Repeat a read test until it fails or the tries are used up; at least one try is made.\<close>

definition rw_mgr_mem_calibrate_read_test_all_ranks ::
    "'h hwbus \<Rightarrow> u32 \<Rightarrow> u32 \<Rightarrow> bool \<Rightarrow> bool \<Rightarrow> ('h, bool \<times> u32) cal" where
  "rw_mgr_mem_calibrate_read_test_all_ranks M grp num_tries all_correct all_groups = do {
     (failed, bit_chk) \<leftarrow> loop (\<lambda>i _. do {
       (one_test_success, bit_chk) \<leftarrow> rw_mgr_mem_calibrate_read_test M 0 grp 1 all_correct all_groups True;
       ret (\<not> one_test_success, bit_chk)
     }) (range32 0 (if num_tries = 0 then 1 else num_tries)) 0;
     ret (\<not> failed, bit_chk)
   }"

subsection \<open>The read valid FIFO\<close>

text \<open>
  The position of the FIFO can only be advanced; going back by one is going forward by the size
  of the FIFO less one.  The second component counts the increments.
\<close>

definition rw_mgr_incr_vfifo :: "'h hwbus \<Rightarrow> u32 \<Rightarrow> u32 \<Rightarrow> ('h, u32) cal" where
  "rw_mgr_incr_vfifo M grp v = do {
     iowr M PHY_MGR_CMD_INC_VFIFO_HARD_PHY grp;
     ret (v + 1)
   }"

definition rw_mgr_decr_vfifo :: "'h hwbus \<Rightarrow> u32 \<Rightarrow> u32 \<Rightarrow> ('h, u32) cal" where
  "rw_mgr_decr_vfifo M grp v = fold_each (\<lambda>i v. rw_mgr_incr_vfifo M grp v) (range32 0 (VFIFO_SIZE - 1)) v"

subsection \<open>Write tests\<close>

text \<open>The jump that gives the right number of idle cycles between write command and data.\<close>

definition write_test_jumps :: "'h hwbus \<Rightarrow> u32 \<Rightarrow> bool \<Rightarrow> ('h, uinst) cal" where
  "write_test_jumps M nop_cycles test_dm =
     (if nop_cycles = - 1 then do {
        iowr M RW_MGR_LOAD_CNTR_2 0xFF;
        if test_dm then do {
          iowr M RW_MGR_LOAD_JUMP_ADD_2 (inst I_LFSR_WR_RD_DM_BANK_0_DATA);
          iowr M RW_MGR_LOAD_JUMP_ADD_3 (inst I_LFSR_WR_RD_DM_BANK_0_NOP);
          ret I_LFSR_WR_RD_DM_BANK_0_WL_1
        } else do {
          iowr M RW_MGR_LOAD_JUMP_ADD_2 (inst I_LFSR_WR_RD_BANK_0_DATA);
          iowr M RW_MGR_LOAD_JUMP_ADD_3 (inst I_LFSR_WR_RD_BANK_0_NOP);
          ret I_LFSR_WR_RD_BANK_0_WL_1
        }
      } else if nop_cycles = 0 then do {
        iowr M RW_MGR_LOAD_CNTR_2 0xFF;
        if test_dm then do {
          iowr M RW_MGR_LOAD_JUMP_ADD_2 (inst I_LFSR_WR_RD_DM_BANK_0_DQS);
          ret I_LFSR_WR_RD_DM_BANK_0
        } else do {
          iowr M RW_MGR_LOAD_JUMP_ADD_2 (inst I_LFSR_WR_RD_BANK_0_DQS);
          ret I_LFSR_WR_RD_BANK_0
        }
      } else do {
        iowr M RW_MGR_LOAD_CNTR_2 0x0;
        iowr M RW_MGR_LOAD_JUMP_ADD_2 0x0;
        iowr M RW_MGR_LOAD_CNTR_3 (nop_cycles - 1);
        if test_dm then do {
          iowr M RW_MGR_LOAD_JUMP_ADD_3 (inst I_LFSR_WR_RD_DM_BANK_0_NOP);
          ret I_LFSR_WR_RD_DM_BANK_0
        } else do {
          iowr M RW_MGR_LOAD_JUMP_ADD_3 (inst I_LFSR_WR_RD_BANK_0_NOP);
          ret I_LFSR_WR_RD_BANK_0
        }
      })"

definition rw_mgr_mem_calibrate_write_test_issue :: "'h hwbus \<Rightarrow> u32 \<Rightarrow> bool \<Rightarrow> ('h, unit) cal" where
  "rw_mgr_mem_calibrate_write_test_issue M grp test_dm = do {
     nop_cycles \<leftarrow> gets (\<lambda>s. rw_wl_nop_cycles (gbl s));
     mcc_instruction \<leftarrow> write_test_jumps M nop_cycles test_dm;
     iowr M RW_MGR_RESET_READ_DATAPATH 0;
     iowr M RW_MGR_LOAD_CNTR_0 0x40;
     iowr M RW_MGR_LOAD_JUMP_ADD_0 (inst mcc_instruction);
     iowr M RW_MGR_LOAD_CNTR_1 0x30;
     iowr M RW_MGR_LOAD_JUMP_ADD_1
       (if test_dm then inst I_LFSR_WR_RD_DM_BANK_0_WAIT else inst I_LFSR_WR_RD_BANK_0_WAIT);
     iowr M (RW_MGR_RUN_SINGLE_GROUP grp) (inst mcc_instruction)
   }"

definition rw_mgr_mem_calibrate_write_test ::
    "'h hwbus \<Rightarrow> u32 \<Rightarrow> u32 \<Rightarrow> bool \<Rightarrow> bool \<Rightarrow> bool \<Rightarrow> ('h, bool \<times> u32) cal" where
  "rw_mgr_mem_calibrate_write_test M rank_bgn write_group use_dm all_correct all_ranks = do {
     mask_all \<leftarrow> gets (\<lambda>s. write_correct_mask (param s));
     correct_mask_vg \<leftarrow> gets (\<lambda>s. write_correct_mask_vg (param s));
     bit_chk \<leftarrow> fold_each (\<lambda>r bit_chk. do {
       skip \<leftarrow> gets (\<lambda>s. skip_ranks (param s) r);
       if skip \<noteq> 0 then ret bit_chk
       else do {
         set_rank_and_odt_mask M r RW_MGR_ODT_MODE_READ_WRITE;
         tmp_bit_chk \<leftarrow> fold_each (\<lambda>vg tmp_bit_chk. do {
           iowr M PHY_MGR_CMD_FIFO_RESET 0;
           rw_mgr_mem_calibrate_write_test_issue M (write_group * RW_MGR_MEM_VIRTUAL_GROUPS_PER_WRITE_DQS + vg) use_dm;
           v \<leftarrow> iord M (RW_MGR_RUN_SINGLE_GROUP 0);
           ret (push_bit (unat (RW_MGR_MEM_DQ_PER_WRITE_DQS div RW_MGR_MEM_VIRTUAL_GROUPS_PER_WRITE_DQS)) tmp_bit_chk OR
                (correct_mask_vg AND NOT v))
         }) (rev (range32 0 RW_MGR_MEM_VIRTUAL_GROUPS_PER_WRITE_DQS)) 0;
         ret (bit_chk AND tmp_bit_chk)
       }
     }) (test_ranks rank_bgn all_ranks) mask_all;
     set_rank_and_odt_mask M 0 RW_MGR_ODT_MODE_OFF;
     ret (if all_correct then bit_chk = mask_all else bit_chk \<noteq> 0x00, bit_chk)
   }"

definition rw_mgr_mem_calibrate_write_test_all_ranks ::
    "'h hwbus \<Rightarrow> u32 \<Rightarrow> bool \<Rightarrow> bool \<Rightarrow> ('h, bool \<times> u32) cal" where
  "rw_mgr_mem_calibrate_write_test_all_ranks M write_group use_dm all_correct =
     rw_mgr_mem_calibrate_write_test M 0 write_group use_dm all_correct True"

text \<open>The last enabled group decides the result, as in the code.\<close>

definition rw_mgr_mem_calibrate_full_test :: "'h hwbus \<Rightarrow> u32 \<Rightarrow> bool \<Rightarrow> ('h, bool \<times> u32) cal" where
  "rw_mgr_mem_calibrate_full_test M min_correct test_dm = do {
     skip \<leftarrow> gets (\<lambda>s. skip_groups (param s));
     (run_groups, res) \<leftarrow> fold_each (\<lambda>g (run_groups, res). do {
       res \<leftarrow> (if run_groups AND (push_bit (unat RW_MGR_NUM_DQS_PER_WRITE_GROUP) 1 - 1) \<noteq> 0
               then rw_mgr_mem_calibrate_write_test_all_ranks M g test_dm True else ret res);
       ret (drop_bit (unat RW_MGR_NUM_DQS_PER_WRITE_GROUP) run_groups, res)
     }) (range32 0 RW_MGR_MEM_IF_READ_DQS_WIDTH) (NOT skip, (False, 0));
     ret res
   }"

subsection \<open>Tests and delays keep the settings in range\<close>

lemma u32_less_8: "(p :: u32) < 8 \<longleftrightarrow> p \<le> 7"
  by (auto simp: word_less_nat_alt word_le_nat_alt)

context scc_bus
begin

lemma safe_delay_value [safe_intros]: "safe ok (SKIP_DELAY_LOOP_VALUE_OR_ZERO v)"
  by (simp add: SKIP_DELAY_LOOP_VALUE_OR_ZERO_def safe_intros)

lemma safe_delay [safe_intros]: "safe ok (delay_for_n_mem_clocks M n)"
  by (auto simp: delay_for_n_mem_clocks_def Let_def intro!: safe_intros split: prod.splits)

lemma safe_run_mrs [safe_intros]: "safe ok (run_mrs M i)" "safe ok (run_reset_phase M a b c i)"
  by (auto simp: run_mrs_def set_jump_as_return_def run_reset_phase_def intro!: safe_intros)

lemma safe_mem_initialize [safe_intros]: "safe ok (rw_mgr_mem_initialize M)"
  by (auto simp: rw_mgr_mem_initialize_def intro!: safe_intros)

lemma safe_mem_handoff [safe_intros]: "safe ok (rw_mgr_mem_handoff M)"
  by (auto simp: rw_mgr_mem_handoff_def intro!: safe_intros)

lemma safe_precharge [safe_intros]: "safe ok (mem_precharge_and_activate M)"
  by (auto simp: mem_precharge_and_activate_def intro!: safe_intros)

lemma safe_read_test_patterns [safe_intros]: "safe ok (rw_mgr_mem_calibrate_read_test_patterns M r g n a)"
  by (auto simp: rw_mgr_mem_calibrate_read_test_patterns_def intro!: safe_intros)

lemma safe_read_test_patterns_all [safe_intros]:
  "g < 4 \<Longrightarrow> safe ok (rw_mgr_mem_calibrate_read_test_patterns_all_ranks M g n)"
  by (auto simp: rw_mgr_mem_calibrate_read_test_patterns_all_ranks_def range32_mem config_simps
      u32_less_8 intro!: safe_intros)

lemma safe_load_patterns [safe_intros]:
  "safe ok (rw_mgr_mem_calibrate_read_load_patterns M r a)"
  "safe ok (rw_mgr_mem_calibrate_read_load_patterns_all_ranks M)"
  by (auto simp: rw_mgr_mem_calibrate_read_load_patterns_all_ranks_def
      rw_mgr_mem_calibrate_read_load_patterns_def intro!: safe_intros)

lemma safe_read_test [safe_intros]:
  "safe ok (rw_mgr_mem_calibrate_read_test M r g n c ag ar)"
  "safe ok (rw_mgr_mem_calibrate_read_test_all_ranks M g n c ag)"
  by (auto simp: rw_mgr_mem_calibrate_read_test_all_ranks_def rw_mgr_mem_calibrate_read_test_def
      intro!: safe_intros)

lemma safe_vfifo_moves [safe_intros]: "safe ok (rw_mgr_incr_vfifo M g v)" "safe ok (rw_mgr_decr_vfifo M g v)"
  by (auto simp: rw_mgr_decr_vfifo_def rw_mgr_incr_vfifo_def intro!: safe_intros)

lemma safe_write_test [safe_intros]:
  "safe ok (rw_mgr_mem_calibrate_write_test M r g dm c ar)"
  by (auto simp: rw_mgr_mem_calibrate_write_test_def rw_mgr_mem_calibrate_write_test_issue_def
      write_test_jumps_def intro!: safe_intros)

lemma safe_write_test_all [safe_intros]: "safe ok (rw_mgr_mem_calibrate_write_test_all_ranks M g dm c)"
  by (simp add: rw_mgr_mem_calibrate_write_test_all_ranks_def safe_intros)

end

subsection \<open>How long a delay takes\<close>

text \<open>
  The read/write manager is hardware.  What the code relies on are the idle loops of its micro-program
  as the comments of \<open>delay_for_n_mem_clocks\<close> give them: \<open>IDLE_LOOP2\<close> jumps on counter 0 and falls through
  to \<open>IDLE_LOOP1\<close>, which jumps on counter 1 and is followed by the return; the test comes before the
  decrement, so that a loop runs once more than its counter says, each time it is entered.
  \<open>idle_prog R pc c0 c1 n\<close>: with the registers \<open>R\<close> loaded, at \<open>pc\<close> with \<open>c0\<close> and \<open>c1\<close> left in the counters,
  \<open>n\<close> instructions of the loops are executed until the return.
\<close>

record idle_regs =
  cntr0 :: u32
  cntr1 :: u32
  jump0 :: u32
  jump1 :: u32

inductive idle_prog :: "idle_regs \<Rightarrow> u32 \<Rightarrow> nat \<Rightarrow> nat \<Rightarrow> nat \<Rightarrow> bool" for R :: idle_regs where
  loop2_jump: "idle_prog R (jump0 R) c0 c1 n \<Longrightarrow> idle_prog R (inst I_IDLE_LOOP2) (Suc c0) c1 (Suc n)"
| loop2_fall: "idle_prog R (inst I_IDLE_LOOP1) (unat (cntr0 R)) c1 n \<Longrightarrow> idle_prog R (inst I_IDLE_LOOP2) 0 c1 (Suc n)"
| loop1_jump: "idle_prog R (jump1 R) c0 c1 n \<Longrightarrow> idle_prog R (inst I_IDLE_LOOP1) c0 (Suc c1) (Suc n)"
| loop1_return: "idle_prog R (inst I_IDLE_LOOP1) c0 0 1"

text \<open>
  The law the hardware has to satisfy, for a reading \<open>regs\<close> of the four registers and \<open>cycles\<close> of the
  cycles spent in idle loops: loading a register loads it, and running one of the two loops with its
  jumps set to itself takes one cycle for each instruction.
\<close>

definition idle_law :: "'h hwbus \<Rightarrow> ('h \<Rightarrow> idle_regs) \<Rightarrow> ('h \<Rightarrow> nat) \<Rightarrow> bool" where
  "idle_law M regs cycles \<longleftrightarrow>
     (\<forall>v h. regs (bus_wr M RW_MGR_LOAD_CNTR_0 v h) = (regs h)\<lparr>cntr0 := v\<rparr> \<and>
            regs (bus_wr M RW_MGR_LOAD_CNTR_1 v h) = (regs h)\<lparr>cntr1 := v\<rparr> \<and>
            regs (bus_wr M RW_MGR_LOAD_JUMP_ADD_0 v h) = (regs h)\<lparr>jump0 := v\<rparr> \<and>
            regs (bus_wr M RW_MGR_LOAD_JUMP_ADD_1 v h) = (regs h)\<lparr>jump1 := v\<rparr> \<and>
            (\<forall>r \<in> {RW_MGR_LOAD_CNTR_0, RW_MGR_LOAD_CNTR_1, RW_MGR_LOAD_JUMP_ADD_0, RW_MGR_LOAD_JUMP_ADD_1}.
               cycles (bus_wr M r v h) = cycles h)) \<and>
     (\<forall>g h n. jump1 (regs h) = inst I_IDLE_LOOP1 \<and>
        idle_prog (regs h) (inst I_IDLE_LOOP1) (unat (cntr0 (regs h))) (unat (cntr1 (regs h))) n \<longrightarrow>
        regs (bus_wr M (RW_MGR_RUN_SINGLE_GROUP g) (inst I_IDLE_LOOP1) h) = regs h \<and>
        cycles (bus_wr M (RW_MGR_RUN_SINGLE_GROUP g) (inst I_IDLE_LOOP1) h) = cycles h + n) \<and>
     (\<forall>g h n. jump0 (regs h) = inst I_IDLE_LOOP2 \<and> jump1 (regs h) = inst I_IDLE_LOOP2 \<and>
        idle_prog (regs h) (inst I_IDLE_LOOP2) (unat (cntr0 (regs h))) (unat (cntr1 (regs h))) n \<longrightarrow>
        regs (bus_wr M (RW_MGR_RUN_SINGLE_GROUP g) (inst I_IDLE_LOOP2) h) = regs h \<and>
        cycles (bus_wr M (RW_MGR_RUN_SINGLE_GROUP g) (inst I_IDLE_LOOP2) h) = cycles h + n)"

lemma idle_loop1: "jump1 R = inst I_IDLE_LOOP1 \<Longrightarrow> idle_prog R (inst I_IDLE_LOOP1) c0 c1 (c1 + 1)"
proof (induction c1)
  case 0
  show ?case using loop1_return by (simp only: add_0)
next
  case (Suc c1)
  from Suc.IH [OF Suc.prems] Suc.prems have "idle_prog R (jump1 R) c0 c1 (c1 + 1)" by (simp only:)
  from loop1_jump [OF this] show ?case by (simp only: add_Suc)
qed

lemma idle_loop2_inner:
  assumes "jump0 R = inst I_IDLE_LOOP2" "idle_prog R (inst I_IDLE_LOOP1) (unat (cntr0 R)) c1 n"
  shows "idle_prog R (inst I_IDLE_LOOP2) c0 c1 (Suc c0 + n)"
proof (induction c0)
  case 0
  show ?case using loop2_fall [OF assms(2)] by simp
next
  case (Suc c0)
  with assms(1) have "idle_prog R (jump0 R) c0 c1 (Suc c0 + n)" by simp
  from loop2_jump [OF this] show ?case by simp
qed

lemma idle_loop2:
  assumes "jump0 R = inst I_IDLE_LOOP2" "jump1 R = inst I_IDLE_LOOP2"
  shows "idle_prog R (inst I_IDLE_LOOP2) (unat (cntr0 R)) c1 ((c1 + 1) * (unat (cntr0 R) + 2))"
proof (induction c1)
  case 0
  show ?case using idle_loop2_inner [OF assms(1) loop1_return, of "unat (cntr0 R)"] by simp
next
  case (Suc c1)
  then have "idle_prog R (jump1 R) (unat (cntr0 R)) c1 ((c1 + 1) * (unat (cntr0 R) + 2))" using assms(2) by simp
  from idle_loop2_inner [OF assms(1) loop1_jump [OF this], of "unat (cntr0 R)"] show ?case by (simp add: algebra_simps)
qed

lemma run_for_each_replicate:
  "run_state (for_each (\<lambda>_. iowr M r v) (replicate k ())) s = ((), s\<lparr>io := (bus_wr M r v ^^ k) (io s)\<rparr>)"
  by (induction k arbitrary: s) (simp_all add: funpow_swap1)

lemma idle_law_simps:
  assumes "idle_law M regs cycles"
  shows "regs (bus_wr M RW_MGR_LOAD_CNTR_0 v h) = (regs h)\<lparr>cntr0 := v\<rparr>" "cycles (bus_wr M RW_MGR_LOAD_CNTR_0 v h) = cycles h"
    "regs (bus_wr M RW_MGR_LOAD_CNTR_1 v h) = (regs h)\<lparr>cntr1 := v\<rparr>" "cycles (bus_wr M RW_MGR_LOAD_CNTR_1 v h) = cycles h"
    "regs (bus_wr M RW_MGR_LOAD_JUMP_ADD_0 v h) = (regs h)\<lparr>jump0 := v\<rparr>" "cycles (bus_wr M RW_MGR_LOAD_JUMP_ADD_0 v h) = cycles h"
    "regs (bus_wr M RW_MGR_LOAD_JUMP_ADD_1 v h) = (regs h)\<lparr>jump1 := v\<rparr>" "cycles (bus_wr M RW_MGR_LOAD_JUMP_ADD_1 v h) = cycles h"
    "jump1 (regs h) = inst I_IDLE_LOOP1 \<Longrightarrow>
       cycles (bus_wr M (RW_MGR_RUN_SINGLE_GROUP g) (inst I_IDLE_LOOP1) h) = cycles h + (unat (cntr1 (regs h)) + 1)"
    "jump0 (regs h) = inst I_IDLE_LOOP2 \<Longrightarrow> jump1 (regs h) = inst I_IDLE_LOOP2 \<Longrightarrow>
       regs (bus_wr M (RW_MGR_RUN_SINGLE_GROUP g) (inst I_IDLE_LOOP2) h) = regs h"
  using assms idle_loop1 idle_loop2 unfolding idle_law_def by blast+

lemma idle_loop2_repeat:
  assumes "idle_law M regs cycles" "jump0 (regs h) = inst I_IDLE_LOOP2" "jump1 (regs h) = inst I_IDLE_LOOP2"
  shows "cycles ((bus_wr M (RW_MGR_RUN_SINGLE_GROUP g) (inst I_IDLE_LOOP2) ^^ k) h) =
    cycles h + k * ((unat (cntr1 (regs h)) + 1) * (unat (cntr0 (regs h)) + 2))"
  using assms(2,3)
proof (induction k arbitrary: h)
  case (Suc k)
  let ?h = "bus_wr M (RW_MGR_RUN_SINGLE_GROUP g) (inst I_IDLE_LOOP2) h"
  have "regs ?h = regs h \<and> cycles ?h = cycles h + (unat (cntr1 (regs h)) + 1) * (unat (cntr0 (regs h)) + 2)"
    using assms(1) idle_loop2 [OF Suc.prems] Suc.prems unfolding idle_law_def by blast
  with Suc.IH [of ?h] Suc.prems show ?case by (simp add: funpow_swap1)
qed simp

lemma byte_mask: "(ucast (x :: u8) :: u32) AND 0xff = ucast x"
  by (rule bit_word_eqI) (auto simp: bit_simps stage_masks(3) dest: bit_imp_le_length)

lemma u32_pred: "n \<noteq> 0 \<Longrightarrow> unat (n - 1 :: u32) = unat n - 1"
  by (simp add: unat_minus_one)

lemma unat_ucast_u8: "unat (x :: u32) < 256 \<Longrightarrow> unat (ucast x :: u8) = unat x"
  by (simp add: unsigned_ucast_eq take_bit_nat_eq_self)

lemma unat_ucast_u16: "unat (x :: u32) < 65536 \<Longrightarrow> unat (ucast x :: u16) = unat x"
  by (simp add: unsigned_ucast_eq take_bit_nat_eq_self)

lemma unat_drop: "unat (drop_bit k (x :: u32)) = unat x div 2 ^ k"
  unfolding unsigned_drop_bit_eq
  using unsigned_less [where ?'a = nat, of x] by (simp add: drop_bit_eq_div take_bit_nat_eq_self)

lemma unat_u8_up: "unat (ucast (x :: u8) :: u32) = unat x"
proof -
  have "unat x < 2 ^ 32" using unsigned_less [where ?'a = nat, of x] by simp
  then show ?thesis by (simp add: unsigned_ucast_eq take_bit_nat_eq_self)
qed

lemma round_up: "0 < k \<Longrightarrow> 0 < d \<Longrightarrow> (k + (d - 1)) div d = Suc ((k - 1) div (d :: nat))"
proof -
  assume "0 < k" "0 < d"
  then have "k + (d - 1) = (k - 1) + d" by simp
  then have "(k + (d - 1)) div d = ((k - 1) + d) div d" by (rule arg_cong)
  also have "\<dots> = (k - 1) div d + 1" using \<open>0 < d\<close> by (intro div_add_self2) simp
  finally show ?thesis by (simp only: Suc_eq_plus1)
qed

lemma rounded_up: "0 < k \<Longrightarrow> 0 < d \<Longrightarrow> k \<le> d * Suc ((k - 1) div (d :: nat))"
  using dividend_less_times_div [of d "k - 1"] by simp

lemma delay_cycles:
  assumes "idle_law M regs cycles" "skip_delay_mask s = 0xff"
  shows "cycles (io (snd (run_state (delay_for_n_mem_clocks M n) s))) =
    (case delay_counters n of (i, ou, c) \<Rightarrow>
      cycles (io s) + (if n \<le> 0x100 then unat i + 1 else if n \<le> 0x10000 then (unat ou + 1) * (unat i + 2)
        else (unat c + 1) * ((unat ou + 1) * (unat i + 2))))"
  using assms(2) idle_loop2_repeat [OF assms(1), where k = 1]
  by (auto simp: delay_for_n_mem_clocks_def config_simps SKIP_DELAY_LOOP_VALUE_OR_ZERO_def byte_mask
      run_for_each_replicate idle_loop2_repeat [OF assms(1)] Let_def unat_u8_up idle_law_simps [OF assms(1)]
      simp del: inst.simps split: prod.splits)

text \<open>
  C33: a delay is long enough, and how long it is.  On hardware that runs the idle loops as documented and
  with delay loops enabled, waiting for a number of memory clocks keeps the manager idle for at least that
  many cycles: exactly as many up to 256 (one for none); beyond, the number is rounded up to whole rounds of
  the inner loop, and every round takes one instruction more than the code accounts for, 257 instead of 256.
\<close>

theorem delay_covers_clocks:
  assumes "idle_law M regs cycles" "skip_delay_mask s = 0xff"
  shows "\<exists>waited. cycles (io (snd (run_state (delay_for_n_mem_clocks M n) s))) = cycles (io s) + waited \<and> unat n \<le> waited \<and>
    waited = (if n = 0 then 1 else if unat n \<le> 256 then unat n
      else if unat n \<le> 65536 then 257 * ((unat n + 255) div 256) else 65792 * ((unat n + 65535) div 65536))"
proof -
  define k where "k = unat n"
  have le: "n \<le> 0x100 \<longleftrightarrow> k \<le> 256" "n \<le> 0x10000 \<longleftrightarrow> k \<le> 65536" "n = 0 \<longleftrightarrow> k = 0" "k < 2 ^ 32"
    using unsigned_less [where ?'a = nat, of n] by (auto simp: k_def word_le_nat_alt unat_eq_zero)
  note cyc = delay_cycles [OF assms, of n]
  consider "k = 0" | "0 < k" "k \<le> 256" | "256 < k" "k \<le> 65536" | "65536 < k" by linarith
  then show ?thesis
  proof cases
    case 1
    then show ?thesis using cyc le by (simp add: delay_counters_def k_def)
  next
    case 2
    then have "unat (ucast (n - 1) :: u8) = k - 1"
      using le by (subst unat_ucast_u8) (auto simp: u32_pred k_def)
    with 2 show ?thesis using cyc le by (simp add: delay_counters_def flip: k_def)
  next
    case 3
    then have "unat (ucast (drop_bit 8 (n - 1)) :: u8) = (k - 1) div 256"
      using le by (subst unat_ucast_u8) (auto simp: u32_pred k_def unat_drop less_mult_imp_div_less)
    moreover have "(k + 255) div 256 = Suc ((k - 1) div 256)" using 3 round_up [of k 256] by simp
    moreover have "k \<le> 256 * Suc ((k - 1) div 256)" using 3 rounded_up [of k 256] by simp
    ultimately show ?thesis using 3 cyc le by (simp add: delay_counters_def flip: k_def)
  next
    case 4
    then have "unat (ucast (drop_bit 16 (n - 1)) :: u16) = (k - 1) div 65536"
      using le by (subst unat_ucast_u16) (auto simp: u32_pred k_def unat_drop less_mult_imp_div_less)
    moreover have "(k + 65535) div 65536 = Suc ((k - 1) div 65536)" using 4 round_up [of k 65536] by simp
    moreover have "k \<le> 65536 * Suc ((k - 1) div 65536)" using 4 rounded_up [of k 65536] by simp
    ultimately show ?thesis using 4 cyc le by (simp add: delay_counters_def flip: k_def)
  qed
qed

text \<open>A manager that does nothing but run the idle loops.\<close>

definition idle_bus :: "(idle_regs \<times> nat) hwbus" where
  "idle_bus = \<lparr>bus_rd = (\<lambda>r h. (0, h)),
     bus_wr = (\<lambda>r v (R, n). case r of
         RW_MGR_LOAD_CNTR_0 \<Rightarrow> (R\<lparr>cntr0 := v\<rparr>, n)
       | RW_MGR_LOAD_CNTR_1 \<Rightarrow> (R\<lparr>cntr1 := v\<rparr>, n)
       | RW_MGR_LOAD_JUMP_ADD_0 \<Rightarrow> (R\<lparr>jump0 := v\<rparr>, n)
       | RW_MGR_LOAD_JUMP_ADD_1 \<Rightarrow> (R\<lparr>jump1 := v\<rparr>, n)
       | RW_MGR_RUN_SINGLE_GROUP g \<Rightarrow>
           (R, n + (if v = inst I_IDLE_LOOP1 then unat (cntr1 R) + 1 else (unat (cntr1 R) + 1) * (unat (cntr0 R) + 2)))
       | _ \<Rightarrow> (R, n))\<rparr>"

lemma idle_places: "inst I_IDLE_LOOP1 = 0x7b" "inst I_IDLE_LOOP2 = 0x7a"
  by simp_all

lemma idle_loop1_unique:
  "idle_prog R pc c0 c1 n \<Longrightarrow> pc = inst I_IDLE_LOOP1 \<Longrightarrow> jump1 R = inst I_IDLE_LOOP1 \<Longrightarrow> n = c1 + 1"
  by (induction rule: idle_prog.induct) (auto simp: idle_places)

lemma idle_loop2_unique:
  "idle_prog R pc c0 c1 n \<Longrightarrow> jump0 R = inst I_IDLE_LOOP2 \<Longrightarrow> jump1 R = inst I_IDLE_LOOP2 \<Longrightarrow>
     (pc = inst I_IDLE_LOOP2 \<longrightarrow> n = c0 + 2 + c1 * (unat (cntr0 R) + 2)) \<and>
     (pc = inst I_IDLE_LOOP1 \<longrightarrow> c0 = unat (cntr0 R) \<longrightarrow> n = 1 + c1 * (unat (cntr0 R) + 2))"
  by (induction rule: idle_prog.induct) (auto simp: idle_places)

lemma idle_bus_law: "idle_law idle_bus fst snd"
  using idle_loop1_unique idle_loop2_unique
  by (fastforce simp: idle_law_def idle_bus_def idle_places split: prod.splits)

theorem delay_covers_clocks_witness:
  "let s = (start_seq (\<lparr>cntr0 = 0, cntr1 = 0, jump0 = 0, jump1 = 0\<rparr>, 0))\<lparr>skip_delay_mask := 0xff\<rparr>
   in snd (io (snd (run_state (delay_for_n_mem_clocks idle_bus 512) s))) = 514"
  using delay_covers_clocks [OF idle_bus_law, of "(start_seq (\<lparr>cntr0 = 0, cntr1 = 0, jump0 = 0, jump1 = 0\<rparr>, 0))
      \<lparr>skip_delay_mask := 0xff\<rparr>" 512]
  by (simp add: start_seq_def Let_def)

subsection \<open>The order of the commands to the memory\<close>

text \<open>The micro-instructions run so far, in order.\<close>

definition runs :: "(reg \<times> u32) list \<Rightarrow> u32 list" where
  "runs log = concat (map (\<lambda>(r, v). case r of RW_MGR_RUN_SINGLE_GROUP g \<Rightarrow> [v] | _ \<Rightarrow> []) log)"

lemma runs_append [simp]: "runs (xs @ ys) = runs xs @ runs ys"
  by (simp add: runs_def)

lemma runs_write [simp]:
  "runs (wlog (bus_wr (scc_file M) r v h)) =
   runs (wlog h) @ (case r of RW_MGR_RUN_SINGLE_GROUP g \<Rightarrow> [v] | _ \<Rightarrow> [])"
  by (simp add: scc_file_def) (simp add: runs_def split: reg.splits)

text \<open>What an operation runs, whatever the hardware answers; it leaves the parameters alone.\<close>

definition issues :: "('h scc, 'a) cal \<Rightarrow> uinst list \<Rightarrow> bool" where
  "issues m is \<longleftrightarrow> (\<forall>s. runs (wlog (io (snd (run_state m s)))) = runs (wlog (io s)) @ map inst is \<and>
                       param (snd (run_state m s)) = param s)"

lemma issues_write: "(\<And>g. r \<noteq> RW_MGR_RUN_SINGLE_GROUP g) \<Longrightarrow> issues (iowr (scc_file M) r v) []"
  by (auto simp: issues_def split: reg.splits)

lemma issues_run: "issues (iowr (scc_file M) (RW_MGR_RUN_SINGLE_GROUP g) (inst i)) [i]"
  by (simp add: issues_def)

lemma issues_value: "issues (SKIP_DELAY_LOOP_VALUE_OR_ZERO v) []"
  by (simp add: issues_def SKIP_DELAY_LOOP_VALUE_OR_ZERO_def)

lemma issues_delay_short: "n \<le> 0x100 \<Longrightarrow> issues (delay_for_n_mem_clocks (scc_file M) n) [I_IDLE_LOOP1]"
  by (auto simp: issues_def delay_for_n_mem_clocks_def config_simps SKIP_DELAY_LOOP_VALUE_OR_ZERO_def Let_def
      split: prod.splits)

lemma issues_delay_512: "issues (delay_for_n_mem_clocks (scc_file M) 512) [I_IDLE_LOOP2]"
  by (auto simp: issues_def delay_for_n_mem_clocks_def config_simps SKIP_DELAY_LOOP_VALUE_OR_ZERO_def Let_def
      split: prod.splits)

lemma issues_mrs: "issues (run_mrs (scc_file M) i) [i]"
  by (simp add: issues_def run_mrs_def set_jump_as_return_def)

lemma issues_reset_phase: "issues (run_reset_phase (scc_file M) a b c i) [i]"
  by (simp add: issues_def run_reset_phase_def SKIP_DELAY_LOOP_VALUE_OR_ZERO_def)

lemma issues_set_rank: "issues (set_rank_and_odt_mask (scc_file M) r m) []"
  by (auto simp: issues_def set_rank_and_odt_mask_def split: prod.splits)

lemmas issues_rules = issues_write issues_run issues_value issues_delay_short issues_delay_512 issues_mrs
  issues_reset_phase issues_set_rank

lemma issuesD: "issues m is \<Longrightarrow> runs (wlog (io (snd (run_state m s)))) = runs (wlog (io s)) @ map inst is"
  "issues m is \<Longrightarrow> param (snd (run_state m s)) = param s"
  by (simp_all add: issues_def)

text \<open>
  C35: the power-up sequence.  Initialisation resets the memory, releases the reset, waits, and
  loads the mode registers in the order 2, 3, 1, 0 before the impedance calibration; there is no
  wait between the commands for mode registers 1 and 0.  The hand-off at the end closes all banks and
  loads the registers again in the same order, with a wait between any two.
\<close>

theorem power_up_sequence:
  assumes "skip_ranks (param s) 0 = 0"
  shows "runs (wlog (io (snd (run_state (rw_mgr_mem_initialize (scc_file M)) s)))) = runs (wlog (io s)) @ map inst
      [I_INIT_RESET_0_CKE_0, I_INIT_RESET_1_CKE_0, I_IDLE_LOOP1, I_MRS2, I_IDLE_LOOP1, I_MRS3, I_IDLE_LOOP1,
       I_MRS1, I_MRS0_DLL_RESET, I_ZQCL, I_IDLE_LOOP2] \<and>
    runs (wlog (io (snd (run_state (rw_mgr_mem_handoff (scc_file M)) s)))) = runs (wlog (io s)) @ map inst
      [I_PRECHARGE_ALL, I_MRS2, I_IDLE_LOOP1, I_MRS3, I_IDLE_LOOP1, I_MRS1, I_IDLE_LOOP1, I_MRS0_USER]"
  using assms
  by (simp add: rw_mgr_mem_initialize_def rw_mgr_mem_handoff_def config_simps mirrored_def
      issues_rules [THEN issuesD(1)] issues_rules [THEN issuesD(2)] split_beta)

theorem power_up_sequence_witness:
  "length (runs (wlog (io (snd (run_state (rw_mgr_mem_initialize (scc_file memory_bus))
     (start_seq \<lparr>behind = (\<lambda>_. 0), delays = (\<lambda>_. 0), wlog = []\<rparr>)))))) = 11"
  using power_up_sequence [of "start_seq \<lparr>behind = (\<lambda>_. 0), delays = (\<lambda>_. 0), wlog = []\<rparr>" memory_bus]
  by (simp add: start_seq_def runs_def)

end
