(* ===== verification/SeqDqsEn.thy ===== *)
theory SeqDqsEn
  imports SeqRw
begin

text \<open>
  The search for a good DQS enable (\<open>rw_mgr_mem_calibrate_vfifo_find_dqs_en_phase\<close> of
  \<open>sequencer.c\<close>, lines 4043 to 4616, and the sweep around it, lines 5044 to 5088).  The local
  variables of the C function are the record \<open>dqsen\<close>; each step of the function is a definition,
  and the function composes them with its early returns.  The counter \<open>max_working_cnt\<close> and the
  flag \<open>found_begin\<close> of step 3, which only feed the reports, are left out.

  The lemmas show that positions never wrap around and that the centre of the window is always
  a phase from 1 to 7 and a delay of at most 13 taps.
\<close>

record dqsen =
  e_v :: u32
  e_p :: u32
  e_d :: u32
  e_i :: u32
  e_tmp :: u32
  e_bgn :: u32
  e_end :: u32

text \<open>The number of delay taps that fit one phase tap, computed by counting.\<close>

definition dtaps_per_ptap :: "u32 \<Rightarrow> u32" where
  "dtaps_per_ptap tap =
     fst (while (\<lambda>(n, tmp_delay). tmp_delay < IO_DELAY_PER_OPA_TAP) (\<lambda>(n, tmp_delay). (n + 1, tmp_delay + tap)) (0, 0)) - 1"

text \<open>The test all steps use: one bit of the group reads correctly, in as many tries as asked.\<close>

definition read_ok :: "'h hwbus \<Rightarrow> u32 \<Rightarrow> u32 \<Rightarrow> ('h, bool) cal" where
  "read_ok M grp num_tries = do {
     (test_status, bit_chk) \<leftarrow> rw_mgr_mem_calibrate_read_test_all_ranks M grp num_tries False False;
     ret test_status
   }"

subsection \<open>Step 1: push the FIFO until reads fail\<close>

definition find_failing_vfifo :: "'h hwbus \<Rightarrow> u32 \<Rightarrow> ('h, u32) cal" where
  "find_failing_vfifo M grp = do {
     (found, v, fail_cnt) \<leftarrow> loop (\<lambda>_ (v, fail_cnt). do {
       test_status \<leftarrow> read_ok M grp 5;
       let fail_cnt = (if test_status then fail_cnt else fail_cnt + 1);
       if \<not> test_status \<and> fail_cnt = 2 then ret (True, (v, fail_cnt))
       else do {
         v \<leftarrow> rw_mgr_incr_vfifo M grp v;
         ret (False, (v, fail_cnt))
       }
     }) (range32 0 VFIFO_SIZE) (0, 0 :: u32);
     ret v
   }"

subsection \<open>Step 2: the first working phase\<close>

definition find_begin_phase :: "'h hwbus \<Rightarrow> u32 \<Rightarrow> dqsen \<Rightarrow> ('h, bool \<times> dqsen) cal" where
  "find_begin_phase M grp = loop (\<lambda>p l.
     if p = 0 then ret (False, l\<lparr>e_bgn := e_bgn l + IO_DELAY_PER_OPA_TAP\<rparr>)
     else do {
       scc_mgr_set_dqs_en_phase_all_ranks M grp p;
       test_status \<leftarrow> read_ok M grp 5;
       ret (if test_status then (True, l\<lparr>e_p := p\<rparr>)
            else (False, l\<lparr>e_bgn := e_bgn l + IO_DELAY_PER_OPA_TAP\<rparr>))
     }) (range32 0 (IO_DQS_EN_PHASE_MAX + 1))"

definition find_begin_vfifo :: "'h hwbus \<Rightarrow> u32 \<Rightarrow> dqsen \<Rightarrow> ('h, bool \<times> dqsen) cal" where
  "find_begin_vfifo M grp = loop (\<lambda>i l. do {
     (found, l) \<leftarrow> find_begin_phase M grp l;
     if found then ret (True, l\<lparr>e_i := i\<rparr>)
     else do {
       v \<leftarrow> rw_mgr_incr_vfifo M grp (e_v l);
       ret (False, l\<lparr>e_v := v\<rparr>)
     }
   }) (range32 0 VFIFO_SIZE)"

definition find_begin :: "'h hwbus \<Rightarrow> u32 \<Rightarrow> u32 \<Rightarrow> dqsen \<Rightarrow> ('h, bool \<times> dqsen) cal" where
  "find_begin M grp dtaps = loop (\<lambda>d l. do {
     scc_mgr_set_dqs_en_delay_all_ranks M grp d;
     (found, l) \<leftarrow> find_begin_vfifo M grp (l\<lparr>e_bgn := e_tmp l\<rparr>);
     ret (if found then (True, l\<lparr>e_d := d\<rparr>)
          else (False, l\<lparr>e_tmp := e_tmp l + IO_DELAY_PER_DQS_EN_DCHAIN_TAP\<rparr>))
   }) (range32 0 (dtaps + 1))"

subsection \<open>Steps 3 to 5: the window around it\<close>

text \<open>Going back one phase may mean going back one FIFO position.\<close>

definition back_phase :: "'h hwbus \<Rightarrow> u32 \<Rightarrow> bool \<Rightarrow> dqsen \<Rightarrow> ('h, dqsen) cal" where
  "back_phase M grp wrap l =
     (if wrap then do {
        v \<leftarrow> rw_mgr_decr_vfifo M grp (e_v l);
        ret (l\<lparr>e_p := IO_DQS_EN_PHASE_MAX, e_v := v\<rparr>)
      } else ret (l\<lparr>e_p := e_p l - 1\<rparr>))"

text \<open>Going forward one phase.\<close>

definition next_phase :: "'h hwbus \<Rightarrow> u32 \<Rightarrow> dqsen \<Rightarrow> ('h, dqsen) cal" where
  "next_phase M grp l =
     (if e_p l + 1 > IO_DQS_EN_PHASE_MAX then do {
        v \<leftarrow> rw_mgr_incr_vfifo M grp (e_v l);
        ret (l\<lparr>e_p := 0, e_v := v\<rparr>)
      } else ret (l\<lparr>e_p := e_p l + 1\<rparr>))"

text \<open>Step 3a: back off by one phase and increment in delay taps until a read passes.\<close>

definition begin_dtaps :: "'h hwbus \<Rightarrow> u32 \<Rightarrow> dqsen \<Rightarrow> ('h, bool \<times> dqsen) cal" where
  "begin_dtaps M grp = loop (\<lambda>d l.
     if e_tmp l < e_bgn l then do {
       scc_mgr_set_dqs_en_delay_all_ranks M grp d;
       test_status \<leftarrow> read_ok M grp 5;
       ret (if test_status then (True, l\<lparr>e_bgn := e_tmp l\<rparr>)
            else (False, l\<lparr>e_tmp := e_tmp l + IO_DELAY_PER_DQS_EN_DCHAIN_TAP\<rparr>))
     } else ret (True, l)) (range32 0 (IO_DQS_EN_DELAY_MAX + 1))"

definition refine_begin :: "'h hwbus \<Rightarrow> u32 \<Rightarrow> dqsen \<Rightarrow> ('h, dqsen) cal" where
  "refine_begin M grp l = do {
     l \<leftarrow> back_phase M grp (e_p l = 0) l;
     let l = (if e_p l = 0 then l\<lparr>e_p := 1, e_tmp := e_bgn l\<rparr> else l\<lparr>e_tmp := e_bgn l - IO_DELAY_PER_OPA_TAP\<rparr>);
     scc_mgr_set_dqs_en_phase_all_ranks M grp (e_p l);
     (_, l) \<leftarrow> begin_dtaps M grp l;
     l \<leftarrow> next_phase M grp l;
     scc_mgr_set_dqs_en_delay_all_ranks M grp 0;
     ret l
   }"

text \<open>
  Step 4a: go forward in phases until reads fail.  A failure at the very first position tried
  means that the begin found was not reliable, and moves it.  \<open>j\<close> counts the positions.
\<close>

definition find_end_phase :: "'h hwbus \<Rightarrow> u32 \<Rightarrow> u32 \<times> dqsen \<Rightarrow> ('h, bool \<times> u32 \<times> dqsen) cal" where
  "find_end_phase M grp = (\<lambda>(j, l). loop (\<lambda>p (j, l).
     if p = 0 then ret (False, (j + 1, l\<lparr>e_end := e_end l + IO_DELAY_PER_OPA_TAP\<rparr>))
     else do {
       scc_mgr_set_dqs_en_phase_all_ranks M grp p;
       test_status \<leftarrow> read_ok M grp 5;
       ret (if \<not> test_status \<and> j + 1 = 1
            then (False, (j + 1, l\<lparr>e_bgn := e_end l, e_end := e_end l + IO_DELAY_PER_OPA_TAP\<rparr>))
            else if \<not> test_status then (True, (j + 1, l\<lparr>e_p := p\<rparr>))
            else (False, (j + 1, l\<lparr>e_end := e_end l + IO_DELAY_PER_OPA_TAP\<rparr>)))
     }) (range32 (e_p l) (IO_DQS_EN_PHASE_MAX + 1)) (j, l))"

definition find_end_vfifo :: "'h hwbus \<Rightarrow> u32 \<Rightarrow> u32 \<Rightarrow> u32 \<times> dqsen \<Rightarrow> ('h, bool \<times> u32 \<times> dqsen) cal" where
  "find_end_vfifo M grp i = loop (\<lambda>i (j, l). do {
     (found_end, j, l) \<leftarrow> find_end_phase M grp (j, l);
     if found_end then ret (True, (j, l))
     else do {
       v \<leftarrow> rw_mgr_incr_vfifo M grp (e_v l);
       ret (False, (j, l\<lparr>e_v := v, e_p := 0\<rparr>))
     }
   }) (range32 i (VFIFO_SIZE + 1))"

definition find_end :: "'h hwbus \<Rightarrow> u32 \<Rightarrow> dqsen \<Rightarrow> ('h, bool \<times> dqsen) cal" where
  "find_end M grp l = do {
     l \<leftarrow> next_phase M grp l;
     (found_end, j, l) \<leftarrow> find_end_vfifo M grp (e_i l) (0, l\<lparr>e_end := e_end l + IO_DELAY_PER_OPA_TAP\<rparr>);
     ret (found_end, l)
   }"

text \<open>Step 5a: back off one phase from the failing one.\<close>

definition back_off_end :: "'h hwbus \<Rightarrow> u32 \<Rightarrow> dqsen \<Rightarrow> ('h, dqsen) cal" where
  "back_off_end M grp l = do {
     let l = (if e_p l = 1 then l\<lparr>e_p := 0, e_end := e_end l - IO_DELAY_PER_OPA_TAP\<rparr> else l);
     l \<leftarrow> back_phase M grp (e_p l = 0) l;
     let l = l\<lparr>e_end := e_end l - IO_DELAY_PER_OPA_TAP\<rparr>;
     scc_mgr_set_dqs_en_phase_all_ranks M grp (e_p l);
     ret (l\<lparr>e_d := 0\<rparr>)
   }"

text \<open>The delay taps up to the failing edge.\<close>

definition end_dtaps :: "'h hwbus \<Rightarrow> u32 \<Rightarrow> u32 \<Rightarrow> dqsen \<Rightarrow> ('h, bool \<times> dqsen) cal" where
  "end_dtaps M grp d = loop (\<lambda>d l. do {
     scc_mgr_set_dqs_en_delay_all_ranks M grp d;
     test_status \<leftarrow> read_ok M grp 5;
     ret (if test_status then (False, l\<lparr>e_d := d + 1, e_end := e_end l + IO_DELAY_PER_DQS_EN_DCHAIN_TAP\<rparr>)
          else (True, l\<lparr>e_d := d\<rparr>))
   }) (range32 d (IO_DQS_EN_DELAY_MAX + 1))"

definition extend_end :: "'h hwbus \<Rightarrow> u32 \<Rightarrow> dqsen \<Rightarrow> ('h, dqsen) cal" where
  "extend_end M grp l = do {
     (_, l) \<leftarrow> end_dtaps M grp (e_d l) l;
     ret (if e_d l \<noteq> 0 then l\<lparr>e_end := e_end l - IO_DELAY_PER_DQS_EN_DCHAIN_TAP\<rparr> else l)
   }"

subsection \<open>Measuring a phase tap in delay taps\<close>

text \<open>The first delay from the current one at which a read passes, or fails.\<close>

definition seek_read :: "'h hwbus \<Rightarrow> u32 \<Rightarrow> bool \<Rightarrow> u32 \<Rightarrow> ('h, bool \<times> u32) cal" where
  "seek_read M grp want d = loop (\<lambda>d _. do {
     scc_mgr_set_dqs_en_delay_all_ranks M grp d;
     test_status \<leftarrow> read_ok M grp 1;
     ret (if test_status = want then (True, d) else (False, d + 1))
   }) (range32 d (IO_DQS_EN_DELAY_MAX + 1)) d"

definition measure_dtaps :: "'h hwbus \<Rightarrow> u32 \<Rightarrow> u32 \<Rightarrow> dqsen \<Rightarrow> ('h, dqsen) cal" where
  "measure_dtaps M grp dtaps l = do {
     l \<leftarrow> back_phase M grp (e_p l = 0 \<or> e_p l = 1) l;
     scc_mgr_set_dqs_en_phase_all_ranks M grp (e_p l);
     (found_passing_read, d) \<leftarrow> seek_read M grp True (e_d l);
     (found_failing_read, d) \<leftarrow> (if found_passing_read then seek_read M grp False (d + 1) else ret (False, d));
     iowr M REG_FILE_DTAPS_PER_PTAP (if found_passing_read \<and> found_failing_read then d - e_d l else dtaps);
     ret l
   }"

subsection \<open>Step 6: the centre of the window\<close>

text \<open>Taps are counted, up to a limit, until their delay reaches the target.\<close>

fun count_taps :: "nat \<Rightarrow> u32 \<Rightarrow> u32 \<Rightarrow> u32 \<times> u32 \<Rightarrow> u32 \<times> u32" where
  "count_taps 0 tap work_mid (n, tmp_delay) = (n, tmp_delay)"
| "count_taps (Suc k) tap work_mid (n, tmp_delay) =
     (if tmp_delay < work_mid then count_taps k tap work_mid (n + 1, tmp_delay + tap) else (n, tmp_delay))"

text \<open>The delay of one FIFO position, by adding up its phases.\<close>

definition vfifo_delay :: u32 where
  "vfifo_delay = fold (\<lambda>p tmp_delay. tmp_delay + IO_DELAY_PER_OPA_TAP) (range32 0 (IO_DQS_EN_PHASE_MAX + 1)) 0"

lemma vfifo_delay_eq: "vfifo_delay = 2496"
  by (simp add: vfifo_delay_def config_simps)

text \<open>Subtracting the delay of a position as long as it is exceeded.\<close>

function within_vfifo :: "u32 \<Rightarrow> u32" where
  "within_vfifo work_mid = (if work_mid > vfifo_delay then within_vfifo (work_mid - vfifo_delay) else work_mid)"
  by auto
termination
  by (relation "measure unat") (auto simp: vfifo_delay_eq word_less_nat_alt unat_sub word_le_nat_alt)

declare within_vfifo.simps [simp del]

text \<open>The phase and the delay to set; the result is one phase ahead, as the variable of the code.\<close>

definition window_centre :: "u32 \<Rightarrow> u32 \<Rightarrow> u32 \<times> u32" where
  "window_centre work_bgn work_end =
     (let work_mid = within_vfifo ((work_bgn + work_end) div 2);
          (p, tmp_delay) = count_taps (unat (IO_DQS_EN_PHASE_MAX + 1)) IO_DELAY_PER_OPA_TAP work_mid (0, 0);
          (d, tmp_delay) = count_taps (unat (IO_DQS_EN_DELAY_MAX + 1)) IO_DELAY_PER_DQS_EN_DCHAIN_TAP work_mid
                             (0, tmp_delay - IO_DELAY_PER_OPA_TAP)
      in if p = 1 then (2, 0) else (p, d))"

definition set_centre :: "'h hwbus \<Rightarrow> u32 \<Rightarrow> dqsen \<Rightarrow> ('h, bool) cal" where
  "set_centre M grp l = do {
     let (p, d) = window_centre (e_bgn l) (e_end l);
     scc_mgr_set_dqs_en_phase_all_ranks M grp (p - 1);
     scc_mgr_set_dqs_en_delay_all_ranks M grp d;
     (found, v) \<leftarrow> loop (\<lambda>i v. do {
       test_status \<leftarrow> read_ok M grp 1;
       if test_status then ret (True, v)
       else do {
         v \<leftarrow> rw_mgr_incr_vfifo M grp v;
         ret (False, v)
       }
     }) (range32 0 VFIFO_SIZE) (e_v l);
     ret found
   }"

subsection \<open>The whole search\<close>

definition rw_mgr_mem_calibrate_vfifo_find_dqs_en_phase :: "'h hwbus \<Rightarrow> u32 \<Rightarrow> ('h, bool) cal" where
  "rw_mgr_mem_calibrate_vfifo_find_dqs_en_phase M grp = do {
     reg_file_set_sub_stage M CAL_SUBSTAGE_VFIFO_CENTER;
     scc_mgr_set_dqs_en_delay_all_ranks M grp 0;
     scc_mgr_set_dqs_en_phase_all_ranks M grp 1;
     let dtaps = dtaps_per_ptap IO_DELAY_PER_DQS_EN_DCHAIN_TAP;
     v \<leftarrow> find_failing_vfifo M grp;
     if v \<ge> VFIFO_SIZE then ret False
     else do {
       (found_begin, l) \<leftarrow> find_begin M grp dtaps
         \<lparr>e_v = v, e_p = 0, e_d = 0, e_i = 0, e_tmp = 0, e_bgn = 0, e_end = 0\<rparr>;
       if \<not> found_begin then ret False
       else do {
         let l = l\<lparr>e_end := e_bgn l\<rparr>;
         (found_end, l) \<leftarrow>
           (if e_d l = 0 then do {
              l \<leftarrow> refine_begin M grp l;
              (found_end, l) \<leftarrow> find_end M grp l;
              if \<not> found_end then ret (False, l)
              else do {
                l \<leftarrow> back_off_end M grp l;
                ret (True, l)
              }
            } else ret (True, l\<lparr>e_end := e_bgn l\<rparr>));
         if \<not> found_end then ret False
         else do {
           l \<leftarrow> extend_end M grp l;
           if \<not> e_end l \<ge> e_bgn l then ret False
           else do {
             l \<leftarrow> measure_dtaps M grp dtaps l;
             set_centre M grp l
           }
         }
       }
     }
   }"

text \<open>The search with the data delays spread over their range, and reset afterwards.\<close>

definition rw_mgr_mem_calibrate_vfifo_find_dqs_en_phase_sweep_dq_in_delay ::
    "'h hwbus \<Rightarrow> u32 \<Rightarrow> u32 \<Rightarrow> u32 \<Rightarrow> ('h, bool) cal" where
  "rw_mgr_mem_calibrate_vfifo_find_dqs_en_phase_sweep_dq_in_delay M write_group read_group test_bgn = do {
     let delay_step = IO_IO_IN_DELAY_MAX div (RW_MGR_MEM_DQ_PER_READ_DQS - 1);
     for_each (\<lambda>r. do {
       for_each (\<lambda>i. do {
         scc_mgr_set_dq_in_delay M write_group (test_bgn + i) (i * delay_step);
         scc_mgr_load_dq M (test_bgn + i)
       }) (range32 0 RW_MGR_MEM_DQ_PER_READ_DQS);
       iowr M SCC_MGR_UPD 0
     }) shadow_ranks;
     found \<leftarrow> rw_mgr_mem_calibrate_vfifo_find_dqs_en_phase M read_group;
     for_each (\<lambda>r. do {
       for_each (\<lambda>i. do {
         scc_mgr_set_dq_in_delay M write_group (test_bgn + i) 0;
         scc_mgr_load_dq M (test_bgn + i)
       }) (range32 0 RW_MGR_MEM_DQ_PER_READ_DQS);
       iowr M SCC_MGR_UPD 0
     }) shadow_ranks;
     ret found
   }"

subsection \<open>The centre\<close>

lemma dtaps_25: "dtaps_per_ptap 25 = 12"
  unfolding dtaps_per_ptap_def config_simps by (simp add: while_unfold)

lemma u32_add:
  assumes "unat (x :: u32) = a" and "a + c < 2 ^ 32"
  shows "unat (x + of_nat c) = a + c"
  using assms by (simp add: unat_word_ariths unat_of_nat take_bit_nat_eq_self)

lemma within_vfifo_mod:
  assumes "0 < unat w"
  shows "unat (within_vfifo w) = Suc ((unat w - 1) mod 2496)"
  using assms
proof (induction w rule: within_vfifo.induct)
  case (1 w)
  show ?case
  proof (cases "vfifo_delay < w")
    case True
    then have lt: "2496 < unat w" by (simp add: vfifo_delay_eq word_less_nat_alt)
    then have sub: "unat (w - vfifo_delay) = unat w - 2496"
      by (simp add: vfifo_delay_eq unat_sub word_le_nat_alt)
    have "(unat w - 1) mod 2496 = (unat w - 1 - 2496) mod 2496"
      using lt by (intro le_mod_geq) simp
    then have "(unat w - 2496 - 1) mod 2496 = (unat w - 1) mod 2496"
      by (simp add: diff_commute)
    with 1 True lt sub show ?thesis by (simp add: within_vfifo.simps [of w])
  next
    case False
    then show ?thesis
      using "1.prems" by (simp add: within_vfifo.simps [of w] vfifo_delay_eq word_less_nat_alt)
  qed
qed

text \<open>Counting stops at the first multiple of the tap that reaches the target, or at the limit.\<close>

lemma count_taps_result:
  assumes "0 < unat tap" and "unat work_mid + unat tap < 2 ^ 32" and "unat n + k < 2 ^ 32"
    and "unat tmp < unat work_mid + unat tap"
  shows "\<exists>m \<le> k. count_taps k tap work_mid (n, tmp) = (n + of_nat m, tmp + of_nat m * tap) \<and>
     unat (tmp + of_nat m * tap) = unat tmp + m * unat tap \<and>
     (m = k \<or> unat work_mid \<le> unat tmp + m * unat tap) \<and>
     (m = 0 \<or> unat tmp + (m - 1) * unat tap < unat work_mid)"
  using assms
proof (induction k arbitrary: n tmp)
  case 0
  then show ?case by simp
next
  case (Suc k)
  show ?case
  proof (cases "tmp < work_mid")
    case False
    then show ?thesis by (intro exI [of _ 0]) (simp add: word_less_nat_alt)
  next
    case True
    then have lt: "unat tmp < unat work_mid" by (simp add: word_less_nat_alt)
    have t: "unat (tmp + tap) = unat tmp + unat tap"
      using lt Suc.prems(2) by (simp add: unat_word_ariths)
    have n: "unat (n + 1) = unat n + 1" using Suc.prems(3) by (simp add: unat_word_ariths)
    obtain m where m: "m \<le> k" "count_taps k tap work_mid (n + 1, tmp + tap) =
        (n + 1 + of_nat m, tmp + tap + of_nat m * tap)"
      "unat (tmp + tap + of_nat m * tap) = unat (tmp + tap) + m * unat tap"
      "m = k \<or> unat work_mid \<le> unat (tmp + tap) + m * unat tap"
      "m = 0 \<or> unat (tmp + tap) + (m - 1) * unat tap < unat work_mid"
      using Suc.IH [of "n + 1" "tmp + tap"] Suc.prems n t lt by auto
    then show ?thesis
      using True t lt by (intro exI [of _ "Suc m"]) (cases m; auto simp: algebra_simps)
  qed
qed

lemma centre_taps:
  assumes "0 < unat mid" and "unat mid \<le> 2496"
    and p: "count_taps 8 312 mid (0, 0) = (p, t)" and d: "count_taps 32 25 mid (0, t - 312) = (d, t')"
  shows "1 \<le> unat p" "unat p \<le> 8" "unat d \<le> 13" "(unat p - 1) * 312 < unat mid" "unat mid \<le> unat p * 312"
    "unat mid \<le> (unat p - 1) * 312 + unat d * 25" "(unat p - 1) * 312 + unat d * 25 < unat mid + 25"
proof -
  obtain m where m: "m \<le> 8" "p = of_nat m" "t = of_nat m * 312" "unat t = m * 312"
    "m = 8 \<or> unat mid \<le> m * 312" "m = 0 \<or> (m - 1) * 312 < unat mid"
    using count_taps_result [of 312 mid 0 8 0] assms by auto
  have up: "unat p = m" using m(1,2) by (simp add: unat_of_nat take_bit_nat_eq_self)
  have "m \<noteq> 0" using m(5) assms(1) by auto
  moreover have "unat mid \<le> m * 312" using m(5) assms(2) by auto
  ultimately show "1 \<le> unat p" "unat p \<le> 8" "(unat p - 1) * 312 < unat mid" "unat mid \<le> unat p * 312"
    using m(1,6) up by auto
  have ut: "unat (t - 312) = (m - 1) * 312"
    using m(4) \<open>m \<noteq> 0\<close> by (simp add: unat_sub word_le_nat_alt diff_mult_distrib)
  obtain j where j: "j \<le> 32" "d = of_nat j" "j = 32 \<or> unat mid \<le> (m - 1) * 312 + j * 25"
    "j = 0 \<or> (m - 1) * 312 + (j - 1) * 25 < unat mid"
    using count_taps_result [of 25 mid 0 32 "t - 312"] assms(2) d ut m(6) \<open>m \<noteq> 0\<close> by auto
  have ud: "unat d = j" using j(1,2) by (simp add: unat_of_nat take_bit_nat_eq_self)
  have near: "unat mid \<le> (m - 1) * 312 + 312"
    using \<open>unat mid \<le> m * 312\<close> \<open>m \<noteq> 0\<close> by (cases m) auto
  moreover have "j \<noteq> 0" using j(3) m(6) \<open>m \<noteq> 0\<close> by auto
  moreover from j(4) near \<open>j \<noteq> 0\<close> have "j \<le> 13" by linarith
  ultimately show "unat d \<le> 13" "unat mid \<le> (unat p - 1) * 312 + unat d * 25"
    "(unat p - 1) * 312 + unat d * 25 < unat mid + 25"
    using j up ud by auto
qed

lemma window_centre_cases:
  assumes "unat b + unat e < 2 ^ 32" and "2 \<le> unat b + unat e" and w: "window_centre b e = (p, d)"
    and m: "m = Suc (((unat b + unat e) div 2 - 1) mod 2496)"
  shows "2 \<le> unat p \<and> unat p \<le> 8 \<and> unat d \<le> 13 \<and>
    (if m \<le> 312 then p = 2 \<and> d = 0
     else m \<le> (unat p - 1) * 312 + unat d * 25 \<and> (unat p - 1) * 312 + unat d * 25 < m + 25)"
proof -
  define mid where "mid = within_vfifo ((b + e) div 2)"
  have s: "unat ((b + e) div 2) = (unat b + unat e) div 2"
    using assms(1) by (simp add: unat_div unat_word_ariths)
  then have um: "unat mid = m"
    using assms(2) m unfolding mid_def by (subst within_vfifo_mod) (simp_all add: s)
  obtain p0 t where p0: "count_taps 8 312 mid (0, 0) = (p0, t)" by (metis surj_pair)
  obtain d0 t' where d0: "count_taps 32 25 mid (0, t - 312) = (d0, t')" by (metis surj_pair)
  have bnd: "0 < unat mid" "unat mid \<le> 2496"
    using um m mod_less_divisor [of 2496 "((unat b + unat e) div 2 - 1)"] by (auto simp: Suc_le_eq)
  note c = centre_taps [OF bnd p0 d0]
  have pd: "(p, d) = (if p0 = 1 then (2, 0) else (p0, d0))"
    using w p0 d0 by (simp add: window_centre_def Let_def config_simps mid_def [symmetric])
  show ?thesis
  proof (cases "m \<le> 312")
    case True
    then have "unat p0 = 1" using c(1,4) um by (cases "unat p0") auto
    then have "p0 = 1" by (simp add: word_unat_eq_iff)
    with pd True show ?thesis by simp
  next
    case False
    then have "2 \<le> unat p0" using c(1,5) um by (cases "unat p0 = 1") auto
    then have "p0 \<noteq> 1" by (auto simp: word_unat_eq_iff)
    with pd False c um \<open>2 \<le> unat p0\<close> show ?thesis by simp
  qed
qed

text \<open>
  C32: the centre of the window.  The phase and the delay chosen for a window are the first setting
  at or after its middle, counted within one FIFO position, at most one delay tap late; when
  the middle lies in phase 0, which must not be used, they are phase 1 without delay.  The phase
  is from 1 to 7 and the delay at most 13 taps.
\<close>

theorem window_centre_result:
  assumes "unat b + unat e < 2 ^ 32" and "2 \<le> unat b + unat e" and "(p, d) = window_centre b e"
    and "m = Suc (((unat b + unat e) div 2 - 1) mod 2496)" and "phase = unat (p - 1)"
  shows "1 \<le> phase \<and> phase \<le> 7 \<and> unat d \<le> 13 \<and>
    (if m \<le> 312 then phase = 1 \<and> d = 0 else m \<le> phase * 312 + unat d * 25 \<and> phase * 312 + unat d * 25 < m + 25)"
proof -
  note c = window_centre_cases [OF assms(1,2) assms(3) [symmetric] assms(4)]
  then have "unat (p - 1) = unat p - 1" by (auto simp: unat_sub word_le_nat_alt)
  with c assms(5) show ?thesis by (auto split: if_splits)
qed

theorem window_centre_result_witness:
  "window_centre 650 3000 = (6, 11) \<and> 1825 \<le> 5 * 312 + (11 :: nat) * 25"
proof -
  have w: "window_centre 650 3000 = (6, 11)" by code_simp
  then show ?thesis
    using window_centre_result [of 650 3000 6 11 1825 5] by simp
qed

subsection \<open>Every step keeps the settings in range\<close>

lemmas valid_intros = valid_if valid_split valid_safe_bind valid_ret

definition begin_ok :: "dqsen \<Rightarrow> bool" where
  "begin_ok l \<longleftrightarrow> 1 \<le> unat (e_p l) \<and> unat (e_p l) \<le> 7 \<and> unat (e_i l) \<le> 15 \<and> unat (e_d l) \<le> 12 \<and>
     unat (e_bgn l) = 25 * unat (e_d l) + 2496 * unat (e_i l) + 312 * unat (e_p l)"

context scc_bus
begin

lemma safe_read_ok [safe_intros]: "safe ok (read_ok M g n)"
  by (auto simp: read_ok_def intro!: safe_intros)

lemma safe_find_failing_vfifo [safe_intros]: "safe ok (find_failing_vfifo M g)"
  by (auto simp: find_failing_vfifo_def Let_def intro!: safe_intros)

lemma valid_find_begin_phase:
  assumes "g < 4" and b: "unat (e_bgn l) + 2496 < 2 ^ 32"
  shows "valid ok (find_begin_phase M g l) (\<lambda>(found, l'). e_tmp l' = e_tmp l \<and>
     (if found then 1 \<le> unat (e_p l') \<and> unat (e_p l') \<le> 7 \<and> unat (e_bgn l') = unat (e_bgn l) + 312 * unat (e_p l')
      else unat (e_bgn l') = unat (e_bgn l) + 2496))"
  unfolding find_begin_phase_def config_simps
proof (rule valid_weaken [OF valid_loop_range [where
      J = "\<lambda>n l'. e_tmp l' = e_tmp l \<and> unat (e_bgn l') = unat (e_bgn l) + 312 * n" and
      Q = "\<lambda>l'. e_tmp l' = e_tmp l \<and> 1 \<le> unat (e_p l') \<and> unat (e_p l') \<le> 7 \<and>
              unat (e_bgn l') = unat (e_bgn l) + 312 * unat (e_p l')"]], goal_cases)
  case (1 x l')
  then have "unat (e_bgn l' + 312) = unat (e_bgn l') + 312" "x \<le> 7" "x \<noteq> 0 \<Longrightarrow> 1 \<le> unat x"
    using b by (auto simp: unat_word_ariths word_less_nat_alt word_le_nat_alt unat_gt_0 Suc_le_eq)
  with 1 assms show ?case
    by (auto intro!: valid_intros safe_intros simp: word_le_nat_alt split: if_splits)
qed (auto split: if_splits)

lemma valid_find_begin_vfifo:
  assumes "g < 4" and b: "unat (e_bgn l) + 2496 * 16 < 2 ^ 32"
  shows "valid ok (find_begin_vfifo M g l) (\<lambda>(found, l'). e_tmp l' = e_tmp l \<and>
     (if found then 1 \<le> unat (e_p l') \<and> unat (e_p l') \<le> 7 \<and> unat (e_i l') \<le> 15 \<and>
        unat (e_bgn l') = unat (e_bgn l) + 2496 * unat (e_i l') + 312 * unat (e_p l') else True))"
  unfolding find_begin_vfifo_def config_simps
proof (rule valid_weaken [OF valid_loop_range [where
      J = "\<lambda>n l'. e_tmp l' = e_tmp l \<and> unat (e_bgn l') = unat (e_bgn l) + 2496 * n" and
      Q = "\<lambda>l'. e_tmp l' = e_tmp l \<and> 1 \<le> unat (e_p l') \<and> unat (e_p l') \<le> 7 \<and> unat (e_i l') \<le> 15 \<and>
        unat (e_bgn l') = unat (e_bgn l) + 2496 * unat (e_i l') + 312 * unat (e_p l')"]], goal_cases)
  case (1 x l')
  then have "unat (e_bgn l') + 2496 < 2 ^ 32" "unat x \<le> 15"
    using b by (auto simp: word_less_nat_alt)
  with 1 assms show ?case
    by (intro valid_bind [OF valid_find_begin_phase]) (auto intro!: valid_intros safe_intros split: if_splits)
qed (auto split: if_splits)

lemma valid_find_begin:
  assumes "g < 4" and "e_tmp l = 0"
  shows "valid ok (find_begin M g 12 l) (\<lambda>(found, l'). found \<longrightarrow> begin_ok l')"
  unfolding find_begin_def config_simps
proof (rule valid_weaken [OF valid_loop_range [where
      J = "\<lambda>n l'. unat (e_tmp l') = 25 * n" and Q = begin_ok]], goal_cases)
  case (1 x l')
  then have *: "unat (e_tmp l' + 25) = unat (e_tmp l') + 25" "unat x \<le> 12" "x \<le> 31" 
       "unat (e_tmp l') + 2496 * 16 < 2 ^ 32"
    by (auto simp: unat_word_ariths word_less_nat_alt word_le_nat_alt)
  with 1 assms show ?case
    by (intro valid_bind [OF valid_find_begin_vfifo] valid_safe_bind [OF safe_all_ranks(3)])
      (auto intro!: valid_intros safe_intros simp: begin_ok_def split: if_splits)
qed (use assms in \<open>auto split: if_splits\<close>)


text \<open>Moving by one phase keeps the phase in range and changes nothing but phase and FIFO position.\<close>

lemma valid_back_phase:
  "e_p l \<le> 7 \<Longrightarrow> wrap \<or> e_p l \<noteq> 0 \<Longrightarrow>
   valid ok (back_phase M g wrap l) (\<lambda>l'. e_p l' = (if wrap then 7 else e_p l - 1) \<and> e_d l' = e_d l \<and> e_i l' = e_i l \<and>
     e_bgn l' = e_bgn l \<and> e_end l' = e_end l)"
  unfolding back_phase_def config_simps by (auto intro!: valid_intros safe_intros)

lemma valid_next_phase:
  "e_p l \<le> 7 \<Longrightarrow>
   valid ok (next_phase M g l) (\<lambda>l'. unat (e_p l') \<le> 7 \<and> e_d l' = e_d l \<and> e_i l' = e_i l \<and>
     e_bgn l' = e_bgn l \<and> e_end l' = e_end l)"
  unfolding next_phase_def config_simps
  by (auto intro!: valid_intros safe_intros simp: word_less_nat_alt word_le_nat_alt)

lemma valid_begin_dtaps:
  assumes "g < 4" and "312 \<le> unat (e_tmp l)" and "312 \<le> unat (e_bgn l)" and "unat (e_bgn l) < 50000"
  shows "valid ok (begin_dtaps M g l) (\<lambda>(_, l'). e_p l' = e_p l \<and> e_i l' = e_i l \<and> e_end l' = e_end l \<and>
     312 \<le> unat (e_bgn l') \<and> unat (e_bgn l') \<le> unat (e_bgn l))"
  unfolding begin_dtaps_def config_simps
proof (rule valid_weaken [OF valid_loop [where
      J = "\<lambda>l'. e_p l' = e_p l \<and> e_i l' = e_i l \<and> e_end l' = e_end l \<and> 312 \<le> unat (e_tmp l') \<and>
     312 \<le> unat (e_bgn l') \<and> unat (e_bgn l') \<le> unat (e_bgn l)"]], goal_cases)
  case (1 x l')
  have "e_tmp l' < e_bgn l' \<Longrightarrow> unat (e_tmp l' + 25) = unat (e_tmp l') + 25"
    using 1 assms by (simp add: unat_word_ariths word_less_nat_alt)
  moreover have "x \<le> 31" using 1 by (auto simp: range32_mem word_less_nat_alt word_le_nat_alt)
  ultimately show ?case
    using 1 assms by (auto intro!: valid_intros safe_intros simp: word_less_nat_alt split: if_splits)
qed (use assms in auto)

lemma begin_ok_facts:
  assumes "begin_ok l" and "e_d l = 0"
  shows "e_p l \<le> 7" "e_p l \<noteq> 0" "unat (e_bgn l) < 50000" "312 \<le> unat (e_bgn l)"
    "e_p l - 1 \<noteq> 0 \<Longrightarrow> 312 \<le> unat (e_bgn l - 312)" "e_p l - 1 \<le> 7"
proof -
  have p: "1 \<le> unat (e_p l)" "unat (e_p l) \<le> 7" using assms by (auto simp: begin_ok_def)
  then show "e_p l \<noteq> 0" "e_p l \<le> 7" by (auto simp: word_le_nat_alt)
  have s: "unat (e_p l - 1) = unat (e_p l) - 1" using p by (simp add: unat_sub word_le_nat_alt)
  with p show "e_p l - 1 \<le> 7" by (simp add: word_le_nat_alt)
  show b: "unat (e_bgn l) < 50000" "312 \<le> unat (e_bgn l)" using assms by (auto simp: begin_ok_def)
  have "e_p l - 1 \<noteq> 0 \<Longrightarrow> 2 \<le> unat (e_p l)"
    using s by (metis One_nat_def diff_is_0_eq not_less_eq_eq numeral_2_eq_2 unat_eq_zero)
  then show "e_p l - 1 \<noteq> 0 \<Longrightarrow> 312 \<le> unat (e_bgn l - 312)"
    using assms b by (auto simp: begin_ok_def unat_sub word_le_nat_alt)
qed

lemma valid_refine_begin:
  assumes "g < 4" and b: "begin_ok l" and "e_d l = 0"
  shows "valid ok (refine_begin M g l) (\<lambda>l'. unat (e_p l') \<le> 7 \<and> e_i l' = e_i l \<and> e_end l' = e_end l \<and>
     312 \<le> unat (e_bgn l') \<and> unat (e_bgn l') \<le> unat (e_bgn l))"
  unfolding refine_begin_def config_simps Let_def
  by (intro valid_bind [OF valid_back_phase] valid_bind [OF valid_next_phase] valid_bind [OF valid_begin_dtaps]
      valid_safe_bind [OF safe_all_ranks(1)] valid_split)
     (use assms begin_ok_facts [OF assms(2,3)] in \<open>auto intro!: valid_intros safe_intros split: if_splits\<close>)


lemma valid_find_end_phase:
  assumes "g < 4" and "e_p l \<le> 7" and "i \<le> 16" and "624 \<le> unat (e_end l)"
    and "unat (e_end l) \<le> 312 * (8 * i + unat (e_p l)) + 5000" and "312 \<le> unat (e_bgn l)" and "unat (e_bgn l) \<le> 50000"
  shows "valid ok (find_end_phase M g (j, l)) (\<lambda>(found, j', l'). 624 \<le> unat (e_end l') \<and>
     312 \<le> unat (e_bgn l') \<and> unat (e_bgn l') \<le> 50000 \<and> unat (e_end l') \<le> 312 * (8 * Suc i) + 5000 \<and>
     (found \<longrightarrow> 1 \<le> unat (e_p l') \<and> e_p l' \<le> 7))"
  unfolding find_end_phase_def config_simps prod.case
proof (rule valid_weaken [OF valid_loop_range [where
      J = "\<lambda>n (j', l'). 624 \<le> unat (e_end l') \<and> unat (e_end l') \<le> 312 * (8 * i + n) + 5000 \<and>
        312 \<le> unat (e_bgn l') \<and> unat (e_bgn l') \<le> 50000" and
      Q = "\<lambda>(j', l'). 624 \<le> unat (e_end l') \<and> unat (e_end l') \<le> 312 * (8 * Suc i) + 5000 \<and>
        312 \<le> unat (e_bgn l') \<and> unat (e_bgn l') \<le> 50000 \<and> 1 \<le> unat (e_p l') \<and> e_p l' \<le> 7"]], goal_cases)
  case (1 x jl)
  then have x: "x \<le> 7" "unat x < 8" "x \<noteq> 0 \<Longrightarrow> 1 \<le> unat x"
    by (auto simp: word_less_nat_alt word_le_nat_alt unat_gt_0 Suc_le_eq)
  moreover have "unat (e_end (snd jl) + 312) = unat (e_end (snd jl)) + 312" "unat (e_end (snd jl)) \<le> 50000"
    using 1 assms(3) x by (auto simp: unat_word_ariths)
  ultimately show ?case
    using 1 assms by (auto intro!: valid_intros safe_intros split: if_splits)
qed (use assms in \<open>auto split: if_splits simp: word_le_nat_alt\<close>)

lemma valid_find_end_vfifo:
  assumes "g < 4" and "e_p l \<le> 7" and "unat i \<le> 15" and "624 \<le> unat (e_end l)"
    and "unat (e_end l) \<le> 312 * (8 * unat i + unat (e_p l)) + 5000" and "312 \<le> unat (e_bgn l)" and "unat (e_bgn l) \<le> 50000"
  shows "valid ok (find_end_vfifo M g i (j, l)) (\<lambda>(found, j', l'). found \<longrightarrow> 624 \<le> unat (e_end l') \<and>
     unat (e_end l') \<le> 50000 \<and> 312 \<le> unat (e_bgn l') \<and> unat (e_bgn l') \<le> 50000 \<and> 1 \<le> unat (e_p l') \<and> e_p l' \<le> 7)"
  unfolding find_end_vfifo_def config_simps
proof (rule valid_weaken [OF valid_loop_range [where
      J = "\<lambda>n (j', l'). 624 \<le> unat (e_end l') \<and> 312 \<le> unat (e_bgn l') \<and> unat (e_bgn l') \<le> 50000 \<and>
        unat (e_end l') \<le> 312 * (8 * n + unat (e_p l')) + 5000 \<and> e_p l' \<le> 7" and
      Q = "\<lambda>(j', l'). 624 \<le> unat (e_end l') \<and> unat (e_end l') \<le> 50000 \<and> 312 \<le> unat (e_bgn l') \<and>
        unat (e_bgn l') \<le> 50000 \<and> 1 \<le> unat (e_p l') \<and> e_p l' \<le> 7"]], goal_cases)
  case (1 x jl)
  then have "unat x \<le> 16" by (simp add: word_less_nat_alt)
  with 1 assms(1) show ?case
    by (cases jl) (auto intro!: valid_bind [OF valid_find_end_phase [where i = "unat x"]] valid_if valid_split
        valid_ret valid_safe_bind [OF safe_vfifo_moves(1)])
qed (use assms in \<open>auto simp: word_le_nat_alt split: if_splits\<close>)

lemma valid_find_end:
  assumes "g < 4" and "e_p l \<le> 7" and "unat (e_i l) \<le> 15" and "312 \<le> unat (e_end l)"
    and "unat (e_end l) \<le> 2496 * unat (e_i l) + 2184" and "312 \<le> unat (e_bgn l)" and "unat (e_bgn l) \<le> 50000"
  shows "valid ok (find_end M g l) (\<lambda>(found, l'). found \<longrightarrow> 624 \<le> unat (e_end l') \<and> unat (e_end l') \<le> 50000 \<and>
     312 \<le> unat (e_bgn l') \<and> unat (e_bgn l') \<le> 50000 \<and> 1 \<le> unat (e_p l') \<and> e_p l' \<le> 7)"
proof -
  have "unat (e_end l + 312) = unat (e_end l) + 312" using assms by (simp add: unat_word_ariths)
  with assms show ?thesis
    unfolding find_end_def config_simps
    by (intro valid_bind [OF valid_next_phase] valid_bind [OF valid_find_end_vfifo] valid_split)
       (auto intro!: valid_ret simp: word_le_nat_alt)
qed

lemma valid_back_off_end:
  assumes "g < 4" and "1 \<le> unat (e_p l)" and "e_p l \<le> 7" and "624 \<le> unat (e_end l)" and "unat (e_end l) \<le> 50000"
  shows "valid ok (back_off_end M g l) (\<lambda>l'. e_p l' \<le> 7 \<and> e_d l' = 0 \<and> e_bgn l' = e_bgn l \<and> unat (e_end l') \<le> 50000)"
proof -
  have "unat (e_end l - 312) = unat (e_end l) - 312" "unat (e_end l - 312 - 312) = unat (e_end l) - 624"
    using assms(4) by (auto simp: unat_sub word_le_nat_alt)
  moreover have "e_p l - 1 \<le> 7" "e_p l \<noteq> 0" using assms(2,3) by (auto simp: unat_sub word_le_nat_alt)
  ultimately show ?thesis
    using assms unfolding back_off_end_def config_simps Let_def
    by (intro valid_bind [OF valid_back_phase] valid_safe_bind [OF safe_all_ranks(1)])
       (auto intro!: valid_ret split: if_splits)
qed

lemma valid_end_dtaps:
  assumes "g < 4" and "unat d \<le> 12" and "unat (e_end l) \<le> 50000" and "e_d l = d"
  shows "valid ok (end_dtaps M g d l) (\<lambda>(_, l'). e_p l' = e_p l \<and> e_bgn l' = e_bgn l \<and> unat d \<le> unat (e_d l') \<and>
     unat (e_d l') \<le> 32 \<and> unat (e_end l') = unat (e_end l) + 25 * (unat (e_d l') - unat d))"
  unfolding end_dtaps_def config_simps
proof (rule valid_weaken [OF valid_loop_range [where
      J = "\<lambda>n l'. e_p l' = e_p l \<and> e_bgn l' = e_bgn l \<and> unat (e_d l') = n \<and> unat d \<le> n \<and>
        unat (e_end l') = unat (e_end l) + 25 * (n - unat d)" and
      Q = "\<lambda>l'. e_p l' = e_p l \<and> e_bgn l' = e_bgn l \<and> unat d \<le> unat (e_d l') \<and> unat (e_d l') \<le> 32 \<and>
        unat (e_end l') = unat (e_end l) + 25 * (unat (e_d l') - unat d)"]], goal_cases)
  case (1 x l')
  then have "x \<le> 31" "unat x \<le> 31" "unat (x + 1) = unat x + 1"
    by (auto simp: word_less_nat_alt word_le_nat_alt unat_word_ariths)
  moreover from this have "unat (e_end l' + 25) = unat (e_end l') + 25"
    using 1 assms by (auto simp: unat_word_ariths)
  ultimately show ?case
    using 1 assms(1) by (auto intro!: valid_intros safe_intros split: if_splits)
qed (use assms in \<open>auto simp: word_le_nat_alt split: if_splits\<close>)

lemma valid_extend_end:
  assumes "g < 4" and "unat (e_d l) \<le> 12" and "unat (e_end l) \<le> 50000" and "e_d l = 0 \<or> 25 \<le> unat (e_end l)"
  shows "valid ok (extend_end M g l) (\<lambda>l'. e_p l' = e_p l \<and> e_bgn l' = e_bgn l \<and> unat (e_end l') \<le> 51000 \<and> unat (e_d l') \<le> 32)"
  unfolding extend_end_def config_simps
proof (rule valid_bind [OF valid_end_dtaps [OF assms(1-3) refl]], goal_cases)
  case (1 r)
  obtain b l' where r: "r = (b, l')" by (cases r)
  have "25 \<le> unat (e_end l')" if "e_d l' \<noteq> 0"
  proof -
    have "0 < unat (e_d l')" using that by (simp add: unat_gt_0)
    with 1 r assms(4) show ?thesis by auto
  qed
  then have "unat (e_end l' - 25) = unat (e_end l') - 25" if "e_d l' \<noteq> 0"
    using that by (simp add: unat_sub word_le_nat_alt)
  with 1 r assms(3) show ?case by (auto intro!: valid_ret)
qed

lemma safe_seek_read [safe_intros]: "g < 4 \<Longrightarrow> safe ok (seek_read M g want d)"
  unfolding seek_read_def config_simps
  by (auto intro!: safe_intros simp: range32_mem word_less_nat_alt word_le_nat_alt)

lemma valid_measure_dtaps:
  assumes "g < 4" and "e_p l \<le> 7"
  shows "valid ok (measure_dtaps M g dt l) (\<lambda>l'. e_bgn l' = e_bgn l \<and> e_end l' = e_end l)"
proof -
  have "e_p l \<noteq> 0 \<Longrightarrow> e_p l - 1 \<le> 7"
    using assms(2) by (simp add: word_le_nat_alt u32_pred)
  with assms show ?thesis
    unfolding measure_dtaps_def
    by (intro valid_bind [OF valid_back_phase] valid_safe_bind [OF safe_all_ranks(1)])
       (auto intro!: valid_intros safe_intros split: if_splits)
qed

lemma safe_set_centre:
  assumes "g < 4" and "312 \<le> unat (e_bgn l)" and "unat (e_bgn l) \<le> 50000" and "unat (e_end l) \<le> 51000"
  shows "safe ok (set_centre M g l)"
proof -
  obtain p d where pd: "window_centre (e_bgn l) (e_end l) = (p, d)" by (metis surj_pair)
  have "2 \<le> unat p" "unat p \<le> 8" "unat d \<le> 13"
    using window_centre_cases [OF _ _ pd refl] assms by auto
  then have "p - 1 \<le> 7" "d \<le> 31" by (auto simp: unat_sub word_le_nat_alt)
  with assms(1) pd show ?thesis
    unfolding set_centre_def by (auto intro!: safe_intros)
qed

text \<open>Steps 3 to 5 leave a window whose ends are bounded and whose begin is past phase 0.\<close>

lemma valid_window_of_begin:
  assumes "g < 4" and "begin_ok l" and "e_end l = e_bgn l"
  shows "valid ok
     (if e_d l = 0 then do {
        l \<leftarrow> refine_begin M g l;
        (found_end, l) \<leftarrow> find_end M g l;
        if \<not> found_end then ret (False, l)
        else do { l \<leftarrow> back_off_end M g l; ret (True, l) }
      } else ret (True, l\<lparr>e_end := e_bgn l\<rparr>))
     (\<lambda>(found, l'). found \<longrightarrow> e_p l' \<le> 7 \<and> unat (e_d l') \<le> 12 \<and> 312 \<le> unat (e_bgn l') \<and> unat (e_bgn l') \<le> 50000 \<and>
        unat (e_end l') \<le> 50000 \<and> (e_d l' = 0 \<or> 25 \<le> unat (e_end l')))"
proof (rule valid_if, goal_cases)
  case 1
  have b: "unat (e_bgn l) = 2496 * unat (e_i l) + 312 * unat (e_p l)" "unat (e_p l) \<le> 7" "1 \<le> unat (e_p l)" "unat (e_i l) \<le> 15"
    using assms(2) 1 by (auto simp: begin_ok_def)
  show ?case
    by (intro valid_bind [OF valid_refine_begin] valid_bind [OF valid_find_end] valid_bind [OF valid_back_off_end]
        valid_split valid_if valid_ret)
       (use assms 1 b in \<open>auto simp: word_le_nat_alt\<close>)
next
  case 2
  then show ?case
    using assms(2) by (intro valid_ret) (auto simp: begin_ok_def word_le_nat_alt)
qed

lemma safe_find_dqs_en_phase [safe_intros]:
  assumes "g < 4"
  shows "safe ok (rw_mgr_mem_calibrate_vfifo_find_dqs_en_phase M g)"
proof -
  have begin_end: "begin_ok (l\<lparr>e_end := x\<rparr>) = begin_ok l" for l x by (simp add: begin_ok_def)
  show ?thesis
    unfolding rw_mgr_mem_calibrate_vfifo_find_dqs_en_phase_def Let_def config_simps dtaps_25
    by (intro safe_bind_valid [OF valid_find_begin] safe_bind_valid [OF valid_window_of_begin]
        safe_bind_valid [OF valid_extend_end] safe_bind_valid [OF valid_measure_dtaps] safe_set_centre safe_intros)
       (use assms in \<open>auto simp: begin_end\<close>)
qed

lemma safe_sweep [safe_intros]:
  assumes "g < 4" and "t = 0"
  shows "safe ok (rw_mgr_mem_calibrate_vfifo_find_dqs_en_phase_sweep_dq_in_delay M wg g t)"
proof -
  have "i * 4 \<le> 31" if "i < 8" for i :: u32
    using that by (simp add: word_less_nat_alt word_le_nat_alt unat_word_ariths)
  with assms show ?thesis
    unfolding rw_mgr_mem_calibrate_vfifo_find_dqs_en_phase_sweep_dq_in_delay_def Let_def config_simps
    by (intro safe_intros) (auto simp: range32_mem)
qed

end

subsection \<open>A window that begins at phase 1\<close>

text \<open>
  There is no phase before phase 1 to back off to, and step 3a stays at phase 1; but it still
  moves forward by one afterwards, so that step 4a starts at phase 3 with the position of phase 2.
\<close>

lemma refine_begin_phase_1:
  assumes "e_p l = 1"
  shows "e_p (fst (run_state (refine_begin M g l) s)) = 2 \<and> e_end (fst (run_state (refine_begin M g l) s)) = e_end l"
proof -
  have "fst (run_state (begin_dtaps M g (l\<lparr>e_p := 1, e_tmp := e_bgn l\<rparr>)) s') = (True, l\<lparr>e_p := 1, e_tmp := e_bgn l\<rparr>)" for s'
    by (simp add: begin_dtaps_def config_simps range32_Cons(1) [of 0 32])
  then show ?thesis
    using assms
    by (simp add: refine_begin_def back_phase_def next_phase_def config_simps Let_def split_beta)
qed

end
