(* ===== verification/SeqRead.thy ===== *)
theory SeqRead
  imports SeqDqsEn
begin

text \<open>
  Read calibration (\<open>sequencer.c\<close>, lines 5094 to 6219): centring the data and the strobe of a group
  bit by bit, the calibration of the read valid FIFO around it, the second centring after the
  writes have been calibrated, and the search for the smallest read latency.

  The edges of the windows are signed numbers of delay taps; \<open>no_edge\<close>, one more than the largest
  delay, marks an edge that has not been seen.  Bit \<open>i\<close> of a test result is what the C code shifts
  into the lowest place at step \<open>i\<close> of its inner loops.
\<close>

definition no_edge :: int where [config_simps]: "no_edge = 32"

subsection \<open>Edges of the read windows\<close>

text \<open>One test while the data delays move: a passing bit has its left edge here; a bit that has not
  passed yet would have its right edge before this delay.\<close>

definition mark_left :: "int \<Rightarrow> u32 \<Rightarrow> int list \<times> int list \<Rightarrow> int list \<times> int list" where
  "mark_left d bit_chk = fold (\<lambda>i (left_edge, right_edge).
     if bit bit_chk i then (left_edge[i := d], right_edge)
     else if left_edge ! i = no_edge then (left_edge, right_edge[i := - (d + 1)])
     else (left_edge, right_edge)) [0..<8]"

text \<open>One test while the strobe moves; the first position is special, because the bit passed there
  before.\<close>

definition mark_right :: "int \<Rightarrow> u32 \<Rightarrow> int list \<times> int list \<Rightarrow> int list \<times> int list" where
  "mark_right d bit_chk = fold (\<lambda>i (left_edge, right_edge).
     if bit bit_chk i then (left_edge, right_edge[i := d])
     else if d \<noteq> 0 then
       (if right_edge ! i = no_edge then (left_edge[i := - (d + 1)], right_edge) else (left_edge, right_edge))
     else if right_edge ! i = no_edge \<and> left_edge ! i \<noteq> no_edge then (left_edge, right_edge[i := - 1])
     else if right_edge ! i = no_edge then (left_edge[i := - (d + 1)], right_edge)
     else (left_edge, right_edge)) [0..<8]"

text \<open>A right edge without a left one is dropped, and the bits with both edges are remembered.\<close>

definition drop_right :: "int list \<times> int list \<Rightarrow> int list \<times> int list" where
  "drop_right = fold (\<lambda>i (left_edge, right_edge).
     if left_edge ! i = no_edge \<and> right_edge ! i \<noteq> no_edge then (left_edge, right_edge[i := no_edge])
     else (left_edge, right_edge)) (rev [0..<8])"

definition seen_edges :: "int list \<times> int list \<Rightarrow> u32" where
  "seen_edges = (\<lambda>(left_edge, right_edge). fold (\<lambda>i sticky_bit_chk.
     if left_edge ! i \<noteq> no_edge \<and> right_edge ! i \<noteq> no_edge then push_bit 1 sticky_bit_chk OR 1
     else push_bit 1 sticky_bit_chk) (rev [0..<8]) 0)"

text \<open>The smallest middle of a window and the first bit that has it.\<close>

definition min_mid :: "int list \<times> int list \<Rightarrow> int \<times> nat" where
  "min_mid = (\<lambda>(left_edge, right_edge). fold (\<lambda>i (mid_min, min_index).
     let mid = left_edge ! i - right_edge ! i in if mid < mid_min then (mid, i) else (mid_min, min_index))
     [1..<8] (left_edge ! 0 - right_edge ! 0, 0))"

text \<open>Half of it, rounded up when positive.\<close>

definition half_mid :: "int \<Rightarrow> int" where
  "half_mid mid_min = c_div (if mid_min > 0 then mid_min + 1 else mid_min) 2"

subsection \<open>Centring data and strobe\<close>

text \<open>One test of the group in either direction: whether no bit passed, and the bits that passed.\<close>

definition centre_test :: "'h hwbus \<Rightarrow> u32 \<Rightarrow> u32 \<Rightarrow> u32 \<Rightarrow> bool \<Rightarrow> ('h, bool \<times> u32) cal" where
  "centre_test M rank_bgn write_group read_group use_read_test =
     (if use_read_test then do {
        (pass, bit_chk) \<leftarrow> rw_mgr_mem_calibrate_read_test M rank_bgn read_group 7 False False False;
        ret (\<not> pass, bit_chk)
      } else do {
        (pass, bit_chk) \<leftarrow> rw_mgr_mem_calibrate_write_test M rank_bgn write_group False False False;
        let bit_chk = drop_bit (unat (RW_MGR_MEM_DQ_PER_READ_DQS * (read_group -
                        write_group * RW_MGR_MEM_IF_READ_DQS_WIDTH div RW_MGR_MEM_IF_WRITE_DQS_WIDTH))) bit_chk;
        ret (bit_chk = 0, bit_chk)
      })"

definition search_left :: "'h hwbus \<Rightarrow> u32 \<Rightarrow> u32 \<Rightarrow> u32 \<Rightarrow> u32 \<Rightarrow> bool \<Rightarrow> ('h, int list \<times> int list) cal" where
  "search_left M rank_bgn write_group read_group test_bgn use_read_test = do {
     correct \<leftarrow> gets (\<lambda>s. read_correct_mask (param s));
     (_, _, edges) \<leftarrow> loop (\<lambda>d (sticky_bit_chk, edges). do {
       scc_mgr_apply_group_dq_in_delay M write_group test_bgn d;
       iowr M SCC_MGR_UPD 0;
       (stop, bit_chk) \<leftarrow> centre_test M rank_bgn write_group read_group use_read_test;
       let sticky_bit_chk = sticky_bit_chk OR bit_chk;
       ret (if stop \<and> sticky_bit_chk = correct then (True, (sticky_bit_chk, edges))
            else (False, (sticky_bit_chk, mark_left (uint d) bit_chk edges)))
     }) (range32 0 (IO_IO_IN_DELAY_MAX + 1)) (0 :: u32, (replicate 8 no_edge, replicate 8 no_edge));
     ret edges
   }"

text \<open>
  The loop compares its unsigned counter with the signed difference to the start value, which
  the comparison converts: for a start value above 31, which the five bits of the register cannot
  hold, the bound is huge (for 32 it is the largest number, and the loop could not end by it).
\<close>

definition search_right ::
    "'h hwbus \<Rightarrow> u32 \<Rightarrow> u32 \<Rightarrow> u32 \<Rightarrow> bool \<Rightarrow> int \<Rightarrow> int list \<times> int list \<Rightarrow> ('h, int list \<times> int list) cal" where
  "search_right M rank_bgn write_group read_group use_read_test start_dqs edges = do {
     correct \<leftarrow> gets (\<lambda>s. read_correct_mask (param s));
     (_, _, edges) \<leftarrow> loop (\<lambda>d (sticky_bit_chk, edges). do {
       scc_mgr_set_dqs_bus_in_delay M read_group (d + of_int start_dqs);
       scc_mgr_load_dqs M read_group;
       iowr M SCC_MGR_UPD 0;
       (stop, bit_chk) \<leftarrow> centre_test M rank_bgn write_group read_group use_read_test;
       let sticky_bit_chk = sticky_bit_chk OR bit_chk;
       ret (if stop \<and> sticky_bit_chk = correct then (True, (sticky_bit_chk, edges))
            else (False, (sticky_bit_chk, mark_right (uint d) bit_chk edges)))
     }) (range32 0 (of_int (31 - start_dqs) + 1)) (seen_edges edges, edges);
     ret edges
   }"

text \<open>A shift, kept within the delay chain of register \<open>r\<close>; the register is read anew at each use, and
  for the upper bound \<open>r'\<close> is read.\<close>

definition clamp_shift :: "'h hwbus \<Rightarrow> u32 \<Rightarrow> reg \<Rightarrow> reg \<Rightarrow> int \<Rightarrow> ('h, int) cal" where
  "clamp_shift M delay_chain r r' shift_dq = do {
     v \<leftarrow> iord M r;
     if shift_dq + sint v > sint delay_chain then do {
       v \<leftarrow> iord M r';
       ret (sint (delay_chain - v))
     } else do {
       v \<leftarrow> iord M r;
       if shift_dq + sint v < 0 then do {
         v \<leftarrow> iord M r;
         ret (- sint v)
       } else ret shift_dq
     }
   }"

definition shift_dq_in :: "'h hwbus \<Rightarrow> u32 \<Rightarrow> u32 \<Rightarrow> u32 \<Rightarrow> int \<Rightarrow> ('h, int) cal" where
  "shift_dq_in M write_group i p shift_dq = do {
     shift_dq \<leftarrow> clamp_shift M IO_IO_IN_DELAY_MAX (SCC_MGR_IO_IN_DELAY p) (SCC_MGR_IO_IN_DELAY i) shift_dq;
     v \<leftarrow> iord M (SCC_MGR_IO_IN_DELAY p);
     scc_mgr_set_dq_in_delay M write_group p (v + of_int shift_dq);
     scc_mgr_load_dq M p;
     ret shift_dq
   }"

text \<open>Shifting every data pin to the level of the smallest window, with the margins that remain.\<close>

definition level_dq_in ::
    "'h hwbus \<Rightarrow> u32 \<Rightarrow> u32 \<Rightarrow> int list \<times> int list \<Rightarrow> nat \<Rightarrow> int \<Rightarrow> int \<Rightarrow> ('h, int \<times> int) cal" where
  "level_dq_in M write_group test_bgn edges min_index orig_mid_min mid_min =
     (let (left_edge, right_edge) = edges in fold_each (\<lambda>i (dq_margin, dqs_margin). do {
        let shift_dq = c_div (left_edge ! unat i - right_edge ! unat i -
                              (left_edge ! min_index - right_edge ! min_index)) 2 + (orig_mid_min - mid_min);
        shift_dq \<leftarrow> shift_dq_in M write_group i (test_bgn + i) shift_dq;
        ret (min (left_edge ! unat i - shift_dq + (- mid_min)) dq_margin,
             min (right_edge ! unat i + shift_dq - (- mid_min)) dqs_margin)
      }) (range32 0 RW_MGR_MEM_DQ_PER_READ_DQS) (no_edge, no_edge))"

text \<open>The first bit without a window.\<close>

definition missing_window :: "int list \<times> int list \<Rightarrow> nat option" where
  "missing_window = (\<lambda>(left_edge, right_edge).
     List.find (\<lambda>i. left_edge ! i = no_edge \<or> right_edge ! i = no_edge) [0..<8])"

text \<open>The strobe moves by the smallest middle, as far as its chain reaches.\<close>

definition centre_dqs :: "int \<Rightarrow> int \<Rightarrow> int" where
  "centre_dqs start_dqs mid_min =
     (let new_dqs = start_dqs - mid_min in if new_dqs > 31 then 31 else if new_dqs < 0 then 0 else new_dqs)"

definition rw_mgr_mem_calibrate_vfifo_center ::
    "'h hwbus \<Rightarrow> u32 \<Rightarrow> u32 \<Rightarrow> u32 \<Rightarrow> u32 \<Rightarrow> bool \<Rightarrow> bool \<Rightarrow> ('h, bool) cal" where
  "rw_mgr_mem_calibrate_vfifo_center M rank_bgn write_group read_group test_bgn use_read_test update_fom = do {
     start \<leftarrow> iord M (SCC_MGR_DQS_IN_DELAY read_group);
     let start_dqs = sint start;
     edges \<leftarrow> search_left M rank_bgn write_group read_group test_bgn use_read_test;
     scc_mgr_apply_group_dq_in_delay M write_group test_bgn 0;
     edges \<leftarrow> search_right M rank_bgn write_group read_group use_read_test start_dqs (drop_right edges);
     case missing_window edges of
       Some i \<Rightarrow> do {
         scc_mgr_set_dqs_bus_in_delay M read_group (of_int start_dqs);
         scc_mgr_load_dqs M read_group;
         iowr M SCC_MGR_UPD 0;
         set_failing_group_stage (read_group * RW_MGR_MEM_DQ_PER_READ_DQS + of_nat i)
           (if use_read_test then CAL_STAGE_VFIFO else CAL_STAGE_VFIFO_AFTER_WRITES) CAL_SUBSTAGE_VFIFO_CENTER;
         ret False
       }
     | None \<Rightarrow> do {
         let (mid_min, min_index) = min_mid edges;
         let orig_mid_min = half_mid mid_min;
         let mid_min = start_dqs - centre_dqs start_dqs orig_mid_min;
         let new_dqs = start_dqs - mid_min;
         (dq_margin, dqs_margin) \<leftarrow> level_dq_in M write_group test_bgn edges min_index orig_mid_min mid_min;
         scc_mgr_set_dqs_bus_in_delay M read_group (of_int new_dqs);
         scc_mgr_load_dqs M read_group;
         whenM update_fom (upd_gbl (\<lambda>g. g\<lparr>fom_in := fom_in g + of_int (c_div (dq_margin + dqs_margin)
           (uint (RW_MGR_MEM_IF_READ_DQS_WIDTH div RW_MGR_MEM_IF_WRITE_DQS_WIDTH)))\<rparr>));
         iowr M SCC_MGR_UPD 0;
         ret (dq_margin \<ge> 0 \<and> dqs_margin \<ge> 0)
       }
   }"

subsection \<open>Calibrating the read valid FIFO\<close>

text \<open>One attempt with a given strobe delay: the DQS enable, then the centring with the original delay.
  It returns whether the group is calibrated and the substage that failed last.\<close>

definition vfifo_attempt :: "'h hwbus \<Rightarrow> u32 \<Rightarrow> u32 \<Rightarrow> u32 \<Rightarrow> u32 \<Rightarrow> u32 \<Rightarrow> u32 \<Rightarrow> ('h, bool \<times> u32) cal" where
  "vfifo_attempt M write_group read_group test_bgn orig_start_dqs dqs_in_dtaps failed_substage = do {
     for_each (\<lambda>sr. do {
       skip \<leftarrow> gets (\<lambda>s. skip_shadow_regs (param s) sr);
       whenM (skip = 0) (do {
         iowr M (SCC_MGR_DQS_IN_DELAY read_group) dqs_in_dtaps;
         scc_mgr_load_dqs M read_group;
         iowr M SCC_MGR_UPD 0
       })
     }) shadow_ranks;
     found \<leftarrow> rw_mgr_mem_calibrate_vfifo_find_dqs_en_phase_sweep_dq_in_delay M write_group read_group test_bgn;
     if found then fold_each (\<lambda>sr (grp_calibrated, failed_substage). do {
       skip \<leftarrow> gets (\<lambda>s. skip_shadow_regs (param s) sr);
       if skip \<noteq> 0 then ret (grp_calibrated, failed_substage)
       else do {
         iowr M (SCC_MGR_DQS_IN_DELAY read_group) orig_start_dqs;
         scc_mgr_load_dqs M read_group;
         iowr M SCC_MGR_UPD 0;
         centred \<leftarrow> rw_mgr_mem_calibrate_vfifo_center M sr write_group read_group test_bgn True False;
         ret (if centred then (grp_calibrated, failed_substage) else (False, CAL_SUBSTAGE_VFIFO_CENTER))
       }
     }) shadow_ranks (True, failed_substage)
     else ret (False, CAL_SUBSTAGE_DQS_EN_PHASE)
   }"

text \<open>One output phase: the guaranteed read, then attempts with growing strobe delays.\<close>

definition vfifo_phase :: "'h hwbus \<Rightarrow> u32 \<Rightarrow> u32 \<Rightarrow> u32 \<Rightarrow> u32 \<Rightarrow> u32 \<Rightarrow> ('h, bool \<times> bool \<times> u32) cal" where
  "vfifo_phase M write_group read_group test_bgn p failed_substage = do {
     scc_mgr_set_dqdqs_output_phase_all_ranks M read_group p;
     rw_mgr_mem_calibrate_read_load_patterns_all_ranks M;
     flags \<leftarrow> gets (\<lambda>s. phy_debug_mode_flags (gbl s));
     (pass, _) \<leftarrow> (if flags AND PHY_DEBUG_DISABLE_GUARANTEED_READ = 0
                   then rw_mgr_mem_calibrate_read_test_patterns_all_ranks M read_group 1 else ret (True, 0));
     if \<not> pass then ret (True, (False, failed_substage))
     else do {
       orig_start_dqs \<leftarrow> iord M (SCC_MGR_DQS_IN_DELAY read_group);
       (calibrated, failed_substage) \<leftarrow> loop (\<lambda>dqs_in_dtaps failed_substage.
         vfifo_attempt M write_group read_group test_bgn orig_start_dqs dqs_in_dtaps failed_substage)
         (range32 orig_start_dqs (IO_DQS_IN_DELAY_MAX + 1)) failed_substage;
       ret (calibrated, (calibrated, failed_substage))
     }
   }"

definition rw_mgr_mem_calibrate_vfifo :: "'h hwbus \<Rightarrow> u32 \<Rightarrow> u32 \<Rightarrow> ('h, bool) cal" where
  "rw_mgr_mem_calibrate_vfifo M read_group test_bgn = do {
     reg_file_set_stage M CAL_STAGE_VFIFO;
     let write_group = read_group;
     let write_test_bgn = test_bgn;
     let dtaps = dtaps_per_ptap IO_DELAY_PER_DQS_EN_DCHAIN_TAP;
     reg_file_set_group M read_group;
     reg_file_set_sub_stage M CAL_SUBSTAGE_GUARANTEED_READ;
     (_, grp_calibrated, failed_substage, d) \<leftarrow> loop (\<lambda>k (_, failed_substage, _). do {
       let d = 2 * k;
       whenM (d > 0) (scc_mgr_apply_group_all_out_delay_add_all_ranks M write_group write_test_bgn d);
       (_, grp_calibrated, failed_substage) \<leftarrow> loop (\<lambda>p (_, failed_substage).
         vfifo_phase M write_group read_group test_bgn p failed_substage)
         (range32 0 (IO_DQDQS_OUT_PHASE_MAX + 1)) (False, failed_substage);
       ret (grp_calibrated, (grp_calibrated, failed_substage, d + 2))
     }) (range32 0 (dtaps div 2 + 1)) (False, CAL_SUBSTAGE_GUARANTEED_READ, 0);
     if \<not> grp_calibrated then do {
       set_failing_group_stage write_group CAL_STAGE_VFIFO failed_substage;
       ret False
     } else do {
       whenM (d > 2) (scc_mgr_zero_group M write_group write_test_bgn True);
       ret True
     }
   }"

definition rw_mgr_mem_calibrate_vfifo_end :: "'h hwbus \<Rightarrow> u32 \<Rightarrow> u32 \<Rightarrow> ('h, bool) cal" where
  "rw_mgr_mem_calibrate_vfifo_end M read_group test_bgn = do {
     reg_file_set_stage M CAL_STAGE_VFIFO_AFTER_WRITES;
     reg_file_set_sub_stage M CAL_SUBSTAGE_VFIFO_CENTER;
     let write_group = read_group;
     reg_file_set_group M read_group;
     grp_calibrated \<leftarrow> fold_each (\<lambda>sr grp_calibrated. do {
       skip \<leftarrow> gets (\<lambda>s. skip_shadow_regs (param s) sr);
       if skip \<noteq> 0 then ret grp_calibrated
       else do {
         centred \<leftarrow> rw_mgr_mem_calibrate_vfifo_center M sr write_group read_group test_bgn False True;
         ret (if centred then grp_calibrated else False)
       }
     }) shadow_ranks True;
     if \<not> grp_calibrated then do {
       set_failing_group_stage write_group CAL_STAGE_VFIFO_AFTER_WRITES CAL_SUBSTAGE_VFIFO_CENTER;
       ret False
     } else ret True
   }"

subsection \<open>The read latency\<close>

text \<open>The latencies the loop tries, one less each time, until the counter reaches 0 (from 0 it would
  go all the way round).\<close>

primrec count_down :: "nat \<Rightarrow> u32 list" where
  "count_down 0 = []"
| "count_down (Suc n) = of_nat (Suc n) # count_down n"

definition latencies :: "u32 \<Rightarrow> u32 list" where
  "latencies lat = count_down (if lat = 0 then 2 ^ 32 else unat lat)"

text \<open>One latency: a test that passes makes the next one smaller, one that fails ends the search.\<close>

definition latency_step :: "'h hwbus \<Rightarrow> u32 \<Rightarrow> bool \<Rightarrow> ('h, bool \<times> bool) cal" where
  "latency_step M lat found_one = do {
     iowr M PHY_MGR_PHY_RLAT lat;
     (pass, _) \<leftarrow> rw_mgr_mem_calibrate_read_test_all_ranks M 0 7 True True;
     if \<not> pass then ret (True, found_one)
     else do {
       upd_gbl (\<lambda>g. g\<lparr>curr_read_lat := lat - 1\<rparr>);
       ret (False, True)
     }
   }"

definition rw_mgr_mem_calibrate_lfifo :: "'h hwbus \<Rightarrow> ('h, bool) cal" where
  "rw_mgr_mem_calibrate_lfifo M = do {
     reg_file_set_stage M CAL_STAGE_LFIFO;
     reg_file_set_sub_stage M CAL_SUBSTAGE_READ_LATENCY;
     rw_mgr_mem_calibrate_read_load_patterns_all_ranks M;
     start \<leftarrow> gets (\<lambda>s. curr_read_lat (gbl s));
     (_, found_one) \<leftarrow> loop (latency_step M) (latencies start) False;
     iowr M PHY_MGR_CMD_FIFO_RESET 0;
     if found_one then do {
       upd_gbl (\<lambda>g. g\<lparr>curr_read_lat := curr_read_lat g + 2\<rparr>);
       lat \<leftarrow> gets (\<lambda>s. curr_read_lat (gbl s));
       iowr M PHY_MGR_PHY_RLAT lat;
       ret True
     } else do {
       set_failing_group_stage 0xff CAL_STAGE_LFIFO CAL_SUBSTAGE_READ_LATENCY;
       ret False
     }
   }"

subsection \<open>The settings stay in range\<close>

lemma hoare_if: "(b \<Longrightarrow> hoare P m Q) \<Longrightarrow> (\<not> b \<Longrightarrow> hoare P n Q) \<Longrightarrow> hoare P (if b then m else n) Q"
  by simp

lemma sint_small: "v \<le> 31 \<Longrightarrow> sint (v :: u32) = int (unat v)"
  by (simp add: sint_uint word_le_def) (intro signed_take_bit_int_eq_self order_trans [OF _ unsigned_greater_eq]; simp)

lemma uint_of_int_31: "0 \<le> x \<Longrightarrow> x \<le> 31 \<Longrightarrow> uint (of_int x :: u32) = x"
  by (simp add: unsigned_of_int take_bit_int_eq_self)

lemma of_int_le_31: "0 \<le> x \<Longrightarrow> x \<le> 31 \<Longrightarrow> (of_int x :: u32) \<le> 31"
  by (simp add: word_le_def unsigned_of_int take_bit_int_eq_self)

lemma centre_dqs_range: "0 \<le> centre_dqs a b" "centre_dqs a b \<le> 31"
  by (auto simp: centre_dqs_def Let_def)

context scc_bus
begin

lemma safe_centre_test [safe_intros]: "safe ok (centre_test M r wg rg u)"
  by (auto simp: centre_test_def Let_def intro!: safe_intros)

lemma safe_search_left [safe_intros]: "t = 0 \<Longrightarrow> safe ok (search_left M r wg rg t u)"
  unfolding search_left_def config_simps Let_def
  by (intro safe_intros) (auto simp: range32_mem word_less_nat_alt word_le_nat_alt)

lemma safe_search_right:
  assumes "g < 4" and "v \<le> (31 :: u32)"
  shows "safe ok (search_right M r wg g u (sint v) e)"
proof -
  have v: "unat v \<le> 31" using assms by (simp add: word_le_nat_alt)
  then have "of_int (31 - sint v) + 1 = 32 - v"
    by simp
  moreover have "d + v \<le> 31" if "d < 32 - v" for d
    using that v by (auto simp: word_less_nat_alt word_le_nat_alt unat_word_ariths unat_sub)
  ultimately show ?thesis
    using assms unfolding search_right_def config_simps Let_def
    by (intro safe_intros) (auto simp: range32_mem)
qed


text \<open>A read of a delay register, when the values are known to be \<open>c\<close>.\<close>

lemma hoare_read_delay:
  assumes "scc_delay r" and "hoare (\<lambda>s. ok s \<and> cur (io s) = c) (f (c r)) Q"
  shows "hoare (\<lambda>s. ok s \<and> cur (io s) = c) (iord M r \<bind> f) Q"
  by (rule hoare_bind [OF hoare_iord_cur [OF assms(1)]], rule hoare_pure_pre) (simp add: assms(2))

lemma hoare_safe: "safe ok m \<Longrightarrow> hoare (\<lambda>s. ok s \<and> A s) m (\<lambda>_. ok)"
  by (auto simp: hoare_def safe_def)

lemma safe_by_values:
  assumes "\<And>c. (\<And>r b. delay_max r = Some b \<Longrightarrow> c r \<le> b) \<Longrightarrow> hoare (\<lambda>s. ok s \<and> cur (io s) = c) m (\<lambda>_. ok)"
  shows "safe ok m"
proof (unfold safe_def, intro allI impI)
  fix s assume "ok s"
  then have "hoare (\<lambda>s'. ok s' \<and> cur (io s') = cur (io s)) m (\<lambda>_. ok)"
    by (intro assms) (auto simp: ok_def cur_legal)
  with \<open>ok s\<close> show "ok (snd (run_state m s))" by (simp add: hoare_def)
qed

text \<open>A shift that has been kept within the chain can be added to the register.\<close>

lemma hoare_clamp_shift:
  assumes "scc_delay r" and le: "c r \<le> 31"
  shows "hoare (\<lambda>s. ok s \<and> cur (io s) = c) (clamp_shift M 31 r r sh)
     (\<lambda>sh s. (ok s \<and> cur (io s) = c) \<and> c r + of_int sh \<le> 31)"
proof -
  have v: "sint (c r) = int (unat (c r))" "unat (c r) \<le> 31" "sint (31 - c r) = 31 - int (unat (c r))" "sint (31 :: u32) = 31"
    using le sint_small [of "31 - c r"] by (auto simp: sint_small word_le_nat_alt unat_sub)
  have "c r + of_int sh \<le> 31" if "0 \<le> sh + sint (c r)" "sh + sint (c r) \<le> 31" for sh
    using of_int_le_31 [OF that] by (simp add: add.commute)
  with assms(1) v show ?thesis
    unfolding clamp_shift_def by (intro hoare_if hoare_read_delay hoare_ret) auto
qed

lemma safe_clamped:
  assumes r: "scc_delay r" "delay_max r = Some 31"
    and step: "\<And>v sh. v + of_int sh \<le> 31 \<Longrightarrow> safe ok (f sh v)"
  shows "safe ok (do { sh \<leftarrow> clamp_shift M 31 r r sh; v \<leftarrow> iord M r; f sh v })"
proof (rule safe_by_values)
  fix c assume "\<And>r b. delay_max r = Some b \<Longrightarrow> c r \<le> b"
  then have "c r \<le> 31" using r(2) by blast
  from hoare_clamp_shift [OF r(1), of c, OF this]
  show "hoare (\<lambda>s. ok s \<and> cur (io s) = c) (do { sh \<leftarrow> clamp_shift M 31 r r sh; v \<leftarrow> iord M r; f sh v }) (\<lambda>_. ok)"
    by (rule hoare_bind) (intro hoare_pure_pre hoare_read_delay [OF r(1)] hoare_safe step)
qed

lemma safe_shift_dq_in [safe_intros]:
  assumes "p < 8" and "i = p"
  shows "safe ok (shift_dq_in M wg i p sh)"
  unfolding shift_dq_in_def config_simps assms(2)
  by (rule safe_clamped) (use assms(1) pin_bound [of p] in \<open>auto simp: config_simps intro!: safe_intros\<close>)

lemma safe_level_dq_in [safe_intros]: "t = 0 \<Longrightarrow> safe ok (level_dq_in M wg t e k a b)"
  unfolding level_dq_in_def config_simps Let_def
  by (intro safe_intros) (auto simp: range32_mem simp del: range32_small)

lemma safe_vfifo_center [safe_intros]:
  assumes "g < 4" and "t = 0"
  shows "safe ok (rw_mgr_mem_calibrate_vfifo_center M r wg g t u f)"
proof -
  have read: "valid ok (iord M (SCC_MGR_DQS_IN_DELAY g)) (\<lambda>v. v \<le> 31)"
    using assms(1) by (intro valid_iord_delay) (auto simp: config_simps)
  have "(of_int (start - (start - centre_dqs start m)) :: u32) \<le> 31" for start m
    using centre_dqs_range by (intro of_int_le_31) simp_all
  with assms show ?thesis
    unfolding rw_mgr_mem_calibrate_vfifo_center_def Let_def
    by (intro safe_bind_valid [OF read] safe_bind [OF safe_search_right] safe_bind [OF safe_search_left]
        safe_bind [OF safe_apply_group(1)])
       (auto intro!: safe_intros split: option.split)
qed

lemma safe_vfifo_attempt [safe_intros]:
  assumes "g < 4" and "t = 0" and "orig \<le> 31" and "d \<le> 31"
  shows "safe ok (vfifo_attempt M wg g t orig d f)"
  unfolding vfifo_attempt_def
  by (intro safe_intros safe_dqs_in) (use assms in auto)

lemma safe_vfifo_phase [safe_intros]:
  assumes "g < 4" and "t = 0" and "p = 0"
  shows "safe ok (vfifo_phase M wg g t p f)"
proof -
  have read: "valid ok (iord M (SCC_MGR_DQS_IN_DELAY g)) (\<lambda>v. v \<le> 31)"
    using assms(1) by (intro valid_iord_delay) (auto simp: config_simps)
  show ?thesis
    unfolding vfifo_phase_def config_simps
    by (intro safe_bind_valid [OF read] safe_intros)
       (use assms in \<open>auto simp: range32_mem word_less_nat_alt word_le_nat_alt\<close>)
qed

lemma safe_vfifo [safe_intros]:
  assumes "g < 4" and "t = 0"
  shows "safe ok (rw_mgr_mem_calibrate_vfifo M g t)"
proof -
  have "2 * k \<le> 31" if "k < 7" for k :: u32
    using that by (simp add: word_less_nat_alt word_le_nat_alt unat_word_ariths)
  with assms show ?thesis
    unfolding rw_mgr_mem_calibrate_vfifo_def Let_def config_simps dtaps_25
    by (intro safe_intros) (auto simp: range32_mem)
qed

lemma safe_vfifo_end [safe_intros]: "g < 4 \<Longrightarrow> t = 0 \<Longrightarrow> safe ok (rw_mgr_mem_calibrate_vfifo_end M g t)"
  by (auto simp: rw_mgr_mem_calibrate_vfifo_end_def Let_def intro!: safe_intros)

lemma safe_lfifo [safe_intros]: "safe ok (rw_mgr_mem_calibrate_lfifo M)"
  unfolding rw_mgr_mem_calibrate_lfifo_def latency_step_def by (intro safe_intros) auto

end

subsection \<open>The read latency is the smallest that works\<close>

text \<open>
  What the search relies on: the latency register holds what is written to it, nothing else
  changes it, and a test reports no error when the latency is at least \<open>T\<close>, and an error on
  every bit when it is below.
\<close>

definition latency_law :: "'h hwbus \<Rightarrow> ('h \<Rightarrow> u32) \<Rightarrow> nat \<Rightarrow> bool" where
  "latency_law M lat T \<longleftrightarrow>
     (\<forall>r v h. lat (bus_wr M r v h) = (if r = PHY_MGR_PHY_RLAT then v else lat h)) \<and>
     (\<forall>r h. lat (snd (bus_rd M r h)) = lat h) \<and>
     (\<forall>h. fst (bus_rd M (RW_MGR_RUN_SINGLE_GROUP 0) h) = (if T \<le> unat (lat h) then 0 else 0xff))"

definition same_latency :: "('h \<Rightarrow> u32) \<Rightarrow> u32 \<Rightarrow> gbl_t \<Rightarrow> param_t \<Rightarrow> 'h seq \<Rightarrow> bool" where
  "same_latency lat l g p s \<longleftrightarrow> lat (io s) = l \<and> gbl s = g \<and> param s = p"

lemma same_latency_io:
  assumes "latency_law M lat T"
  shows "r \<noteq> PHY_MGR_PHY_RLAT \<Longrightarrow> safe (same_latency lat l g p) (iowr M r v)"
    and "safe (same_latency lat l g p) (iord M r)"
  using assms by (auto simp: latency_law_def same_latency_def safe_def)

lemma same_latency_steps:
  assumes "latency_law M lat T"
  shows "safe (same_latency lat l g p) (reg_file_set_stage M x)"
    and "safe (same_latency lat l g p) (reg_file_set_sub_stage M y)"
    and "safe (same_latency lat l g p) (rw_mgr_mem_calibrate_read_load_patterns_all_ranks M)"
  by (auto simp: reg_file_set_stage_def reg_file_set_sub_stage_def set_rank_and_odt_mask_def
      rw_mgr_mem_calibrate_read_load_patterns_all_ranks_def rw_mgr_mem_calibrate_read_load_patterns_def
      split: prod.splits intro!: safe_intros same_latency_io [OF assms])

lemma latency_read_test:
  assumes "latency_law M lat T" and "read_correct_mask p = 0xff" "read_correct_mask_vg p = 0xff" "skip_ranks p 0 = 0"
  shows "valid (same_latency lat l g p) (rw_mgr_mem_calibrate_read_test M 0 0 1 True True True)
    (\<lambda>(pass, _). pass \<longleftrightarrow> T \<le> unat l)"
proof -
  note rd = assms(1) [unfolded latency_law_def, THEN conjunct2, THEN conjunct2, rule_format]
  note wr = assms(1) [unfolded latency_law_def, THEN conjunct1, rule_format]
  note rdl = assms(1) [unfolded latency_law_def, THEN conjunct2, THEN conjunct1, rule_format]
  show ?thesis
    using assms(2-4)
    by (auto simp: valid_def hoare_def same_latency_def rw_mgr_mem_calibrate_read_test_def test_ranks_def config_simps
      set_rank_and_odt_mask_def rd wr rdl split: prod.splits)
qed

text \<open>A loop whose body always gives the same answer gives that answer.\<close>

lemma valid_loop_same:
  assumes body: "\<And>x l. valid I (f x l) (\<lambda>(br, _). br \<longleftrightarrow> B)" and "xs \<noteq> []"
  shows "valid I (loop f xs l) (\<lambda>(br, _). br \<longleftrightarrow> B)"
  using assms(2)
proof (induction xs arbitrary: l)
  case (Cons x xs)
  have rest: "valid I (loop f xs l) (\<lambda>(br, _). br \<longleftrightarrow> B)" if "\<not> B" for l
    using Cons that by (cases "xs = []") (auto intro!: valid_ret)
  show ?case
    unfolding loop.simps by (rule valid_bind [OF body]) (auto intro!: valid_intros rest)
qed simp

lemma latency_read_test_all:
  assumes "latency_law M lat T" and "read_correct_mask p = 0xff" "read_correct_mask_vg p = 0xff" "skip_ranks p 0 = 0"
  shows "valid (same_latency lat l g p) (rw_mgr_mem_calibrate_read_test_all_ranks M 0 7 True True)
    (\<lambda>(pass, _). pass \<longleftrightarrow> T \<le> unat l)"
proof -
  have "valid (same_latency lat l g p) (do {
       (pass, bit_chk) \<leftarrow> rw_mgr_mem_calibrate_read_test M 0 0 1 True True True;
       ret (\<not> pass, bit_chk)
     }) (\<lambda>(br, _). br \<longleftrightarrow> \<not> T \<le> unat l)"
    by (rule valid_bind [OF latency_read_test [OF assms]]) (auto intro!: valid_intros)
  moreover have "range32 0 (if (7 :: u32) = 0 then 1 else 7) \<noteq> []" by (simp add: range32_def)
  ultimately show ?thesis
    unfolding rw_mgr_mem_calibrate_read_test_all_ranks_def
    by (intro valid_bind [OF valid_loop_same]) (auto intro!: valid_intros)
qed

lemma latency_loop:
  assumes law: "latency_law M lat T" and p: "read_correct_mask p = 0xff" "read_correct_mask_vg p = 0xff" "skip_ranks p 0 = 0"
    and "m < 2 ^ 32"
  shows "hoare (\<lambda>s. gbl s = g \<and> param s = p)
     (loop (latency_step M) (count_down m) found)
     (\<lambda>(_, found') s. (found' \<longleftrightarrow> found \<or> T \<le> m \<and> 0 < m) \<and> param s = p \<and>
        gbl s = (if T \<le> m \<and> 0 < m then g\<lparr>curr_read_lat := of_nat (max T 1 - 1)\<rparr> else g))"
  using \<open>m < 2 ^ 32\<close>
proof (induction m arbitrary: g found)
  case 0
  then show ?case by (auto intro!: hoare_ret)
next
  case (Suc m)
  have m: "unat (of_nat (Suc m) :: u32) = Suc m" using Suc.prems by (intro unat_of_nat_small) simp
  have pass: "hoare (same_latency lat (of_nat (Suc m)) g p) (rw_mgr_mem_calibrate_read_test_all_ranks M 0 7 True True)
     (\<lambda>(pass, _) s. (pass \<longleftrightarrow> T \<le> Suc m) \<and> gbl s = g \<and> param s = p)" for g
    using latency_read_test_all [OF law p, of "of_nat (Suc m)" g] m
    by (auto simp: valid_def same_latency_def elim!: hoare_weaken)
  have step: "hoare (\<lambda>s. gbl s = g \<and> param s = p) (latency_step M (of_nat (Suc m)) found)
     (\<lambda>(br, found') s. (gbl s = (if br then g else g\<lparr>curr_read_lat := of_nat m\<rparr>) \<and> param s = p) \<and>
          (br \<longleftrightarrow> \<not> T \<le> Suc m) \<and> (found' \<longleftrightarrow> found \<or> \<not> br))" for g found
  unfolding latency_step_def
  proof (rule hoare_bind [where R = "\<lambda>_. same_latency lat (of_nat (Suc m)) g p"])
    show "hoare (\<lambda>s. gbl s = g \<and> param s = p) (iowr M PHY_MGR_PHY_RLAT (of_nat (Suc m)))
       (\<lambda>_. same_latency lat (of_nat (Suc m)) g p)"
      using law by (auto simp: hoare_def same_latency_def latency_law_def)
  qed (rule hoare_bind [OF pass], auto simp: hoare_def split: if_splits)
  have rest: "hoare (case l of (br, found') \<Rightarrow> \<lambda>s. (gbl s = (if br then g else g\<lparr>curr_read_lat := of_nat m\<rparr>) \<and> param s = p) \<and>
          (br \<longleftrightarrow> \<not> T \<le> Suc m) \<and> (found' \<longleftrightarrow> found \<or> \<not> br))
     (case l of (br, found') \<Rightarrow> if br then ret (True, found') else loop (latency_step M) (count_down m) found')
     (\<lambda>(_, found') s. (found' \<longleftrightarrow> found \<or> T \<le> Suc m \<and> 0 < Suc m) \<and> param s = p \<and>
        gbl s = (if T \<le> Suc m \<and> 0 < Suc m then g\<lparr>curr_read_lat := of_nat (max T 1 - 1)\<rparr> else g))" for l
  proof (cases l)
    case (Pair br found')
    show ?thesis
    proof (cases br)
      case True
      then show ?thesis by (auto simp: Pair intro!: hoare_ret)
    next
      case False
      let ?g = "g\<lparr>curr_read_lat := of_nat (max T 1 - 1)\<rparr>"
      have "hoare (\<lambda>s. gbl s = g\<lparr>curr_read_lat := of_nat m\<rparr> \<and> param s = p) (loop (latency_step M) (count_down m) True)
         (\<lambda>(_, found') s. found' \<and> param s = p \<and> gbl s = (if T \<le> m \<and> 0 < m then ?g else g\<lparr>curr_read_lat := of_nat m\<rparr>))"
        by (rule hoare_weaken [OF Suc.IH [of "g\<lparr>curr_read_lat := of_nat m\<rparr>" True]]) (use Suc.prems in auto)
      moreover have "max T 1 - 1 = m" if "T \<le> Suc m" "\<not> (T \<le> m \<and> 0 < m)"
        using that by auto
      then have "(if T \<le> m \<and> 0 < m then ?g else g\<lparr>curr_read_lat := of_nat m\<rparr>) = ?g" if "T \<le> Suc m"
        using that by metis
      ultimately show ?thesis
        using False by (auto simp: Pair hoare_def simp del: of_nat_diff)
    qed
  qed
  show ?case
    unfolding count_down.simps loop.simps
    by (rule hoare_bind [OF step], use rest in \<open>simp add: case_prod_unfold\<close>)
qed

text \<open>
  C9: On hardware whose reads work exactly from latency \<open>T\<close> on, the search succeeds exactly when the
  latency it starts from is large enough; it then leaves the smallest latency that works (at least 1)
  plus one in the register and in its variable; otherwise it records the failing stage, unless an earlier
  failure is recorded already.
\<close>

theorem lfifo_finds_latency:
  assumes law: "latency_law M lat T"
    and p: "read_correct_mask (param s) = 0xff" "read_correct_mask_vg (param s) = 0xff" "skip_ranks (param s) 0 = 0"
    and start: "curr_read_lat (gbl s) \<noteq> 0"
    and run: "run_state (rw_mgr_mem_calibrate_lfifo M) s = (found, s')"
  shows "(found \<longleftrightarrow> T \<le> unat (curr_read_lat (gbl s))) \<and>
     (if found then lat (io s') = of_nat (max T 1 + 1) \<and> curr_read_lat (gbl s') = of_nat (max T 1 + 1)
      else error_stage (gbl s') = (if error_stage (gbl s) = CAL_STAGE_NIL then CAL_STAGE_LFIFO else error_stage (gbl s)))"
proof -
  let ?g = "gbl s" and ?p = "param s" and ?n = "unat (curr_read_lat (gbl s))"
  have n: "latencies (curr_read_lat ?g) = count_down ?n" "0 < ?n" "?n < 2 ^ 32"
    using start unsigned_less [where ?'a = nat, of "curr_read_lat ?g"] by (auto simp: latencies_def unat_gt_0)
  note keep = same_latency_steps [OF law, of "lat (io s)" ?g ?p, unfolded safe_def, rule_format]
  define s1 where "s1 = snd (run_state (do { reg_file_set_stage M CAL_STAGE_LFIFO;
     reg_file_set_sub_stage M CAL_SUBSTAGE_READ_LATENCY; rw_mgr_mem_calibrate_read_load_patterns_all_ranks M }) s)"
  have "same_latency lat (lat (io s)) ?g ?p s1"
    unfolding s1_def by (auto simp: split_beta intro!: keep) (simp add: same_latency_def)
  then have s1: "gbl s1 = ?g" "param s1 = ?p" by (auto simp: same_latency_def)
  obtain br f s2 where l: "run_state (loop (latency_step M) (count_down ?n) False) s1 = ((br, f), s2)"
    by (metis surj_pair)
  have "(f \<longleftrightarrow> T \<le> ?n) \<and> gbl s2 = (if T \<le> ?n then ?g\<lparr>curr_read_lat := of_nat (max T 1 - 1)\<rparr> else ?g)"
    using latency_loop [OF law p n(3), of ?g False] s1 n(2) l by (force simp: hoare_def)
  moreover have "(of_nat (max T 1 - 1) :: u32) + 2 = of_nat (max T 1 + 1)"
    by (simp add: of_nat_diff)
  moreover have "run_state (rw_mgr_mem_calibrate_lfifo M) s = run_state (do {
       iowr M PHY_MGR_CMD_FIFO_RESET 0;
       if f then do {
         upd_gbl (\<lambda>g. g\<lparr>curr_read_lat := curr_read_lat g + 2\<rparr>);
         lat \<leftarrow> gets (\<lambda>s. curr_read_lat (gbl s));
         iowr M PHY_MGR_PHY_RLAT lat;
         ret True
       } else do {
         set_failing_group_stage 0xff CAL_STAGE_LFIFO CAL_SUBSTAGE_READ_LATENCY;
         ret False
       }
     }) s2"
    using l s1(1) n(1) by (simp add: rw_mgr_mem_calibrate_lfifo_def s1_def split_beta)
  ultimately show ?thesis
    using run law by (auto simp: latency_law_def set_failing_group_stage_def simp del: of_nat_diff split: if_splits)
qed

definition latency_bus :: "nat \<Rightarrow> u32 hwbus" where
  "latency_bus T = \<lparr>bus_rd = (\<lambda>r h. (if T \<le> unat h then 0 else 0xff, h)),
                   bus_wr = (\<lambda>r v h. if r = PHY_MGR_PHY_RLAT then v else h)\<rparr>"

theorem lfifo_finds_latency_witness:
  "let s = (start_seq 0)\<lparr>gbl := start_gbl\<lparr>curr_read_lat := 20\<rparr>,
             param := (param (start_seq (0 :: u32)))\<lparr>read_correct_mask := 0xff, read_correct_mask_vg := 0xff\<rparr>\<rparr>;
       (found, s') = run_state (rw_mgr_mem_calibrate_lfifo (latency_bus 5)) s
   in found \<and> io s' = 6 \<and> curr_read_lat (gbl s') = 6"
proof -
  let ?s = "(start_seq 0)\<lparr>gbl := start_gbl\<lparr>curr_read_lat := 20\<rparr>,
             param := (param (start_seq (0 :: u32)))\<lparr>read_correct_mask := 0xff, read_correct_mask_vg := 0xff\<rparr>\<rparr>"
  obtain found s' where run: "run_state (rw_mgr_mem_calibrate_lfifo (latency_bus 5)) ?s = (found, s')"
    by (metis surj_pair)
  have "latency_law (latency_bus 5) id 5" by (simp add: latency_law_def latency_bus_def)
  from lfifo_finds_latency [OF this _ _ _ _ run] show ?thesis
    unfolding Let_def run by (auto simp: start_seq_def split: if_splits)
qed

end
