(* ===== verification/SeqWrite.thy ===== *)
theory SeqWrite
  imports SeqRead
begin

text \<open>
  Write calibration (\<open>sequencer.c\<close>, lines 7228 to 7944 and 8133 to 8155): the windows of the data pins
  of a group against the write strobe, and the window of the data mask, searched first by delaying
  the mask and then by delaying the strobe.  The edges are kept as in the read calibration.
\<close>

subsection \<open>Data against strobe\<close>

definition seen_left :: "int list \<times> int list \<Rightarrow> u32" where
  "seen_left = (\<lambda>(left_edge, right_edge). fold (\<lambda>i sticky_bit_chk.
     if left_edge ! i \<noteq> no_edge then push_bit 1 sticky_bit_chk OR 1
     else push_bit 1 sticky_bit_chk) (rev [0..<8]) 0)"

text \<open>The search ends at once: the bits that passed before are marginal.\<close>

definition mark_marginal :: "int list \<times> int list \<Rightarrow> int list \<times> int list" where
  "mark_marginal = fold (\<lambda>i (left_edge, right_edge).
     if right_edge ! i = no_edge \<and> left_edge ! i \<noteq> no_edge then (left_edge, right_edge[i := - 1])
     else (left_edge, right_edge)) [0..<8]"

definition search_left_out :: "'h hwbus \<Rightarrow> u32 \<Rightarrow> u32 \<Rightarrow> u32 \<Rightarrow> ('h, int list \<times> int list) cal" where
  "search_left_out M rank_bgn write_group test_bgn = do {
     correct \<leftarrow> gets (\<lambda>s. write_correct_mask (param s));
     (_, _, edges) \<leftarrow> loop (\<lambda>d (sticky_bit_chk, edges). do {
       scc_mgr_apply_group_dq_out1_delay M write_group test_bgn (of_int d);
       iowr M SCC_MGR_UPD 0;
       (pass, bit_chk) \<leftarrow> rw_mgr_mem_calibrate_write_test M rank_bgn write_group False False False;
       let sticky_bit_chk = sticky_bit_chk OR bit_chk;
       ret (if \<not> pass \<and> sticky_bit_chk = correct then (True, (sticky_bit_chk, edges))
            else (False, (sticky_bit_chk, mark_left d bit_chk edges)))
     }) [0..31] (0 :: u32, (replicate 8 no_edge, replicate 8 no_edge));
     ret edges
   }"

definition search_right_out ::
    "'h hwbus \<Rightarrow> u32 \<Rightarrow> u32 \<Rightarrow> int \<Rightarrow> int list \<times> int list \<Rightarrow> ('h, int list \<times> int list) cal" where
  "search_right_out M rank_bgn write_group start_dqs edges = do {
     correct \<leftarrow> gets (\<lambda>s. write_correct_mask (param s));
     (_, _, edges) \<leftarrow> loop (\<lambda>d (sticky_bit_chk, edges). do {
       scc_mgr_apply_group_dqs_io_and_oct_out1 M write_group (of_int (d + start_dqs));
       iowr M SCC_MGR_UPD 0;
       (pass, bit_chk) \<leftarrow> rw_mgr_mem_calibrate_write_test M rank_bgn write_group False False False;
       let sticky_bit_chk = sticky_bit_chk OR bit_chk;
       ret (if \<not> pass \<and> sticky_bit_chk = correct
            then (True, (sticky_bit_chk, if d = 0 then mark_marginal edges else edges))
            else (False, (sticky_bit_chk, mark_right d bit_chk edges)))
     }) [0..31 - start_dqs] (seen_left edges, edges);
     ret edges
   }"

definition shift_dq_out :: "'h hwbus \<Rightarrow> u32 \<Rightarrow> u32 \<Rightarrow> int \<Rightarrow> ('h, int) cal" where
  "shift_dq_out M write_group i shift_dq = do {
     shift_dq \<leftarrow> clamp_shift M IO_IO_OUT1_DELAY_MAX (SCC_MGR_IO_OUT1_DELAY i) (SCC_MGR_IO_OUT1_DELAY i) shift_dq;
     v \<leftarrow> iord M (SCC_MGR_IO_OUT1_DELAY i);
     scc_mgr_set_dq_out1_delay M write_group i (v + of_int shift_dq);
     scc_mgr_load_dq M i;
     ret shift_dq
   }"

text \<open>Only the data pins move, the strobe stays, so that \<open>mid_min\<close> is 0 here.\<close>

definition level_dq_out ::
    "'h hwbus \<Rightarrow> u32 \<Rightarrow> int list \<times> int list \<Rightarrow> nat \<Rightarrow> int \<Rightarrow> int \<Rightarrow> ('h, int \<times> int) cal" where
  "level_dq_out M write_group edges min_index orig_mid_min mid_min =
     (let (left_edge, right_edge) = edges in fold_each (\<lambda>i (dq_margin, dqs_margin). do {
        let shift_dq = c_div (left_edge ! unat i - right_edge ! unat i -
                              (left_edge ! min_index - right_edge ! min_index)) 2 + (orig_mid_min - mid_min);
        shift_dq \<leftarrow> shift_dq_out M write_group i shift_dq;
        ret (min (left_edge ! unat i - shift_dq + (- mid_min)) dq_margin,
             min (right_edge ! unat i + shift_dq - (- mid_min)) dqs_margin)
      }) (range32 0 RW_MGR_MEM_DQ_PER_WRITE_DQS) (no_edge, no_edge))"

subsection \<open>The data mask\<close>

text \<open>
  The window being seen, the best one so far and its size.  Positions are negative while the mask
  is delayed and positive while the strobe is; \<open>no_edge\<close> stands for no window.
\<close>

record dm_window =
  bgn_curr :: int
  end_curr :: int
  bgn_best :: int
  end_best :: int
  win_best :: int

definition no_dm_window :: dm_window where
  "no_dm_window = \<lparr>bgn_curr = no_edge, end_curr = no_edge, bgn_best = no_edge, end_best = no_edge, win_best = 0\<rparr>"

definition dm_pass :: "int \<Rightarrow> dm_window \<Rightarrow> dm_window" where
  "dm_pass x w =
     (let w = w\<lparr>end_curr := x\<rparr>;
          w = (if bgn_curr w = no_edge then w\<lparr>bgn_curr := x\<rparr> else w)
      in if end_curr w - bgn_curr w + 1 > win_best w
         then w\<lparr>win_best := end_curr w - bgn_curr w + 1, bgn_best := bgn_curr w, end_best := end_curr w\<rparr> else w)"

definition dm_reset :: "dm_window \<Rightarrow> dm_window" where
  "dm_reset w = w\<lparr>bgn_curr := no_edge, end_curr := no_edge\<rparr>"

text \<open>The mask delays from the largest to 0.\<close>

definition search_dm :: "'h hwbus \<Rightarrow> u32 \<Rightarrow> u32 \<Rightarrow> ('h, dm_window) cal" where
  "search_dm M rank_bgn write_group = fold_each (\<lambda>d w. do {
     scc_mgr_apply_group_dm_out1_delay M write_group (of_int d);
     iowr M SCC_MGR_UPD 0;
     (pass, _) \<leftarrow> rw_mgr_mem_calibrate_write_test M rank_bgn write_group True True False;
     ret (if pass then dm_pass (- d) w else dm_reset w)
   }) (rev [0..31]) no_dm_window"

text \<open>The strobe delays from its setting up, until what is left cannot beat the best window.\<close>

definition search_dm_dqs :: "'h hwbus \<Rightarrow> u32 \<Rightarrow> u32 \<Rightarrow> int \<Rightarrow> dm_window \<Rightarrow> ('h, bool \<times> dm_window) cal" where
  "search_dm_dqs M rank_bgn write_group new_dqs = loop (\<lambda>d w. do {
     scc_mgr_apply_group_dqs_io_and_oct_out1 M write_group (of_int (d + new_dqs));
     iowr M SCC_MGR_UPD 0;
     (pass, _) \<leftarrow> rw_mgr_mem_calibrate_write_test M rank_bgn write_group True True False;
     ret (if pass then (False, dm_pass d w) else (win_best w - 1 > 31 - new_dqs - d, dm_reset w))
   }) [0..31 - new_dqs]"

text \<open>The mask delay in the middle of the best window, never negative, and the margin; it fails
  when there is no window.\<close>

definition dm_centre :: "dm_window \<Rightarrow> int \<times> int" where
  "dm_centre w =
     (let left_edge = - 1 * bgn_best w; right_edge = end_best w;
          mid = c_div (left_edge - right_edge) 2;
          mid = (if mid < 0 then 0 else mid)
      in (mid, if win_best w = 0 then - 1 else left_edge - mid))"

definition centre_dm :: "'h hwbus \<Rightarrow> u32 \<Rightarrow> u32 \<Rightarrow> int \<Rightarrow> ('h, int) cal" where
  "centre_dm M rank_bgn write_group new_dqs = do {
     w \<leftarrow> search_dm M rank_bgn write_group;
     scc_mgr_apply_group_dm_out1_delay M write_group 0;
     (_, w) \<leftarrow> search_dm_dqs M rank_bgn write_group new_dqs (if end_curr w \<noteq> 0 then dm_reset w else w);
     scc_mgr_apply_group_dqs_io_and_oct_out1 M write_group (of_int new_dqs);
     let (mid, dm_margin) = dm_centre w;
     scc_mgr_apply_group_dm_out1_delay M write_group (of_int mid);
     iowr M SCC_MGR_UPD 0;
     ret dm_margin
   }"

subsection \<open>The calibration of a group\<close>

definition rw_mgr_mem_calibrate_writes_center :: "'h hwbus \<Rightarrow> u32 \<Rightarrow> u32 \<Rightarrow> u32 \<Rightarrow> ('h, bool) cal" where
  "rw_mgr_mem_calibrate_writes_center M rank_bgn write_group test_bgn = do {
     start \<leftarrow> iord M (SCC_MGR_IO_OUT1_DELAY RW_MGR_MEM_DQ_PER_WRITE_DQS);
     let start_dqs = sint start;
     edges \<leftarrow> search_left_out M rank_bgn write_group test_bgn;
     scc_mgr_apply_group_dq_out1_delay M write_group test_bgn 0;
     edges \<leftarrow> search_right_out M rank_bgn write_group start_dqs (drop_right edges);
     case missing_window edges of
       Some i \<Rightarrow> do {
         set_failing_group_stage (test_bgn + of_nat i) CAL_STAGE_WRITES CAL_SUBSTAGE_WRITES_CENTER;
         ret False
       }
     | None \<Rightarrow> do {
         let (mid_min, min_index) = min_mid edges;
         let orig_mid_min = half_mid mid_min;
         let new_dqs = start_dqs;
         let mid_min = 0;
         (dq_margin, dqs_margin) \<leftarrow> level_dq_out M write_group edges min_index orig_mid_min mid_min;
         scc_mgr_apply_group_dqs_io_and_oct_out1 M write_group (of_int new_dqs);
         iowr M SCC_MGR_UPD 0;
         dm_margin \<leftarrow> centre_dm M rank_bgn write_group new_dqs;
         upd_gbl (\<lambda>g. g\<lparr>fom_out := fom_out g + of_int (dq_margin + dqs_margin)\<rparr>);
         iowr M SCC_MGR_UPD 0;
         ret (dq_margin \<ge> 0 \<and> dqs_margin \<ge> 0 \<and> dm_margin \<ge> 0)
       }
   }"

definition rw_mgr_mem_calibrate_writes :: "'h hwbus \<Rightarrow> u32 \<Rightarrow> u32 \<Rightarrow> u32 \<Rightarrow> ('h, bool) cal" where
  "rw_mgr_mem_calibrate_writes M rank_bgn g test_bgn = do {
     reg_file_set_stage M CAL_STAGE_WRITES;
     reg_file_set_sub_stage M CAL_SUBSTAGE_WRITES_CENTER;
     reg_file_set_group M g;
     centred \<leftarrow> rw_mgr_mem_calibrate_writes_center M rank_bgn g test_bgn;
     if \<not> centred then do {
       set_failing_group_stage g CAL_STAGE_WRITES CAL_SUBSTAGE_WRITES_CENTER;
       ret False
     } else ret True
   }"

subsection \<open>The settings stay in range\<close>

text \<open>The best window is empty or within the delays tried.\<close>

definition dm_ok :: "dm_window \<Rightarrow> bool" where
  "dm_ok w \<longleftrightarrow> (bgn_curr w = no_edge \<or> - 31 \<le> bgn_curr w) \<and>
     (bgn_best w = no_edge \<and> end_best w = no_edge \<or> - 31 \<le> bgn_best w \<and> - 31 \<le> end_best w)"

lemma dm_ok_steps: "dm_ok no_dm_window" "dm_ok w \<Longrightarrow> dm_ok (dm_reset w)" "dm_ok w \<Longrightarrow> - 31 \<le> x \<Longrightarrow> dm_ok (dm_pass x w)"
  by (auto simp: dm_ok_def no_dm_window_def dm_reset_def dm_pass_def Let_def)

lemma dm_centre_range:
  assumes "dm_ok w" and "dm_centre w = (mid, margin)"
  shows "0 \<le> mid" "mid \<le> 31"
proof -
  have "- 1 * bgn_best w - end_best w \<le> 62" using assms by (auto simp: dm_ok_def no_edge_def)
  then have "c_div (- 1 * bgn_best w - end_best w) 2 \<le> 31"
    by (auto simp: c_div_def sgn_if)
  with assms(2) show "0 \<le> mid" "mid \<le> 31"
    by (auto simp: dm_centre_def Let_def split: if_splits)
qed

context scc_bus
begin

lemma safe_search_left_out [safe_intros]: "safe ok (search_left_out M r g t)"
  unfolding search_left_out_def Let_def
  by (intro safe_intros of_int_le_31) auto

lemma safe_search_right_out:
  assumes "g < 4" and "0 \<le> v"
  shows "safe ok (search_right_out M r g v e)"
  unfolding search_right_out_def Let_def
  by (intro safe_intros of_int_le_31) (use assms in auto)

lemma safe_level_dq_out [safe_intros]: "safe ok (level_dq_out M g e k a b)"
proof -
  have "safe ok (shift_dq_out M g i sh)" if "i < 8" for i sh
    unfolding shift_dq_out_def config_simps
    by (rule safe_clamped) (use that pin_bound [of i] in \<open>auto simp: config_simps intro!: safe_intros\<close>)
  then show ?thesis
    unfolding level_dq_out_def config_simps Let_def
    by (intro safe_intros) (auto simp: range32_mem simp del: range32_small)
qed

lemma valid_search_dm: "valid ok (search_dm M r g) dm_ok"
  unfolding search_dm_def
  by (rule valid_fold_each)
     (auto intro!: valid_intros safe_intros of_int_le_31 dm_ok_steps split: if_splits)

lemma valid_search_dm_dqs:
  assumes "g < 4" and "0 \<le> v" and "dm_ok w"
  shows "valid ok (search_dm_dqs M r g v w) (\<lambda>(_, w'). dm_ok w')"
  unfolding search_dm_dqs_def
  by (rule valid_loop)
     (use assms in \<open>auto intro!: valid_intros safe_intros of_int_le_31 dm_ok_steps split: if_splits simp del: of_int_add\<close>)

lemma safe_centre_dm [safe_intros]:
  assumes "g < 4" and "0 \<le> v" and "v \<le> 31"
  shows "safe ok (centre_dm M r g v)"
  unfolding centre_dm_def Let_def
  by (intro safe_bind_valid [OF valid_search_dm] safe_bind_valid [OF valid_search_dm_dqs] safe_intros)
     (use assms in \<open>auto intro!: safe_intros of_int_le_31 dm_ok_steps dest: dm_centre_range\<close>)

lemma safe_writes_center [safe_intros]:
  assumes "g < 4"
  shows "safe ok (rw_mgr_mem_calibrate_writes_center M r g t)"
proof -
  have read: "valid ok (iord M (SCC_MGR_IO_OUT1_DELAY 8)) (\<lambda>v. v \<le> 31)"
    by (intro valid_iord_delay) (auto simp: config_simps)
  have small: "0 \<le> sint v" "sint v \<le> 31" if "v \<le> (31 :: u32)" for v
    using that by (auto simp: sint_small word_le_def)
  show ?thesis
    unfolding rw_mgr_mem_calibrate_writes_center_def Let_def config_simps
    by (intro safe_bind_valid [OF read] safe_bind [OF safe_search_right_out] safe_bind [OF safe_search_left_out]
        safe_bind [OF safe_apply_group(2)])
       (use assms small in \<open>auto intro!: safe_intros split: option.split\<close>)
qed

lemma safe_writes [safe_intros]: "g < 4 \<Longrightarrow> safe ok (rw_mgr_mem_calibrate_writes M r g t)"
  by (auto simp: rw_mgr_mem_calibrate_writes_def intro!: safe_intros)

end

subsection \<open>The mask ends up in a longest window\<close>

text \<open>A run of passing positions between \<open>a\<close> and \<open>x\<close>, and a longest one.\<close>

definition passing :: "(int \<Rightarrow> bool) \<Rightarrow> int \<Rightarrow> int \<Rightarrow> int \<Rightarrow> int \<Rightarrow> bool" where
  "passing q a x b e \<longleftrightarrow> a \<le> b \<and> b \<le> e \<and> e \<le> x \<and> (\<forall>k \<in> {b..e}. q k)"

definition longest_run :: "(int \<Rightarrow> bool) \<Rightarrow> int \<Rightarrow> int \<Rightarrow> int \<Rightarrow> int \<Rightarrow> bool" where
  "longest_run q a x b e \<longleftrightarrow> passing q a x b e \<and> (\<forall>i j. passing q a x i j \<longrightarrow> j - i \<le> e - b)"

text \<open>The window after the positions from \<open>a\<close> to \<open>x\<close>: the current run reaches \<open>x\<close> and begins as early
  as any that does, and the best run is as long as any.\<close>

definition scanned :: "(int \<Rightarrow> bool) \<Rightarrow> int \<Rightarrow> int \<Rightarrow> dm_window \<Rightarrow> bool" where
  "scanned q a x w \<longleftrightarrow>
     (if a \<le> x \<and> q x then passing q a x (bgn_curr w) x \<and> (\<forall>i. passing q a x i x \<longrightarrow> bgn_curr w \<le> i) \<and> end_curr w = x
      else bgn_curr w = no_edge \<and> end_curr w = no_edge) \<and>
     (if win_best w = 0 then bgn_best w = no_edge \<and> end_best w = no_edge \<and> (\<forall>i j. \<not> passing q a x i j)
      else longest_run q a x (bgn_best w) (end_best w) \<and> win_best w = end_best w - bgn_best w + 1)"

lemma scanned_none: "scanned q a (a - 1) no_dm_window"
  by (simp add: scanned_def no_dm_window_def passing_def)

lemma passing_end: "passing q a (x + 1) i (x + 1) \<longleftrightarrow> q (x + 1) \<and> (a \<le> i \<and> i = x + 1 \<or> passing q a x i x)"
proof -
  have "{i..x + 1} = insert (x + 1) {i..x}" if "i \<le> x + 1" using that by auto
  then show ?thesis by (auto simp: passing_def)
qed

lemma passing_step:
  "passing q a (x + 1) i j \<Longrightarrow> passing q a x i j \<or> j = x + 1 \<and> passing q a (x + 1) i (x + 1)"
  by (auto simp: passing_def)

lemma passing_more: "passing q a x i j \<Longrightarrow> x \<le> y \<Longrightarrow> passing q a y i j"
  by (auto simp: passing_def)

lemma passing_fail: "\<not> q (x + 1) \<Longrightarrow> passing q a (x + 1) i j \<longleftrightarrow> passing q a x i j"
  using passing_step [of q a x i j] passing_more [of q a x i j "x + 1"] by (auto simp: passing_end)

lemma scanned_fail: "scanned q a x w \<Longrightarrow> \<not> q (x + 1) \<Longrightarrow> scanned q a (x + 1) (dm_reset w)"
  by (auto simp: scanned_def dm_reset_def longest_run_def passing_fail split: if_splits)

lemma scanned_pass:
  assumes w: "scanned q a x w" and "q (x + 1)" and "x < 31" and "a - 1 \<le> x"
  shows "scanned q a (x + 1) (dm_pass (x + 1) w)"
proof -
  define b where "b = (if bgn_curr w = no_edge then x + 1 else bgn_curr w)"
  have run: "if a \<le> x \<and> q x then passing q a x (bgn_curr w) x \<and> (\<forall>i. passing q a x i x \<longrightarrow> bgn_curr w \<le> i)
      else bgn_curr w = no_edge"
    using w by (simp add: scanned_def split: if_splits)
  then have "b = x + 1 \<and> \<not> (a \<le> x \<and> q x) \<or> passing q a x b x \<and> (\<forall>i. passing q a x i x \<longrightarrow> b \<le> i)"
    using assms(3) by (auto simp: b_def no_edge_def passing_def split: if_splits)
  then have b: "passing q a (x + 1) b (x + 1)" "passing q a (x + 1) i (x + 1) \<Longrightarrow> b \<le> i" for i
    using assms(2,4) by (auto simp: passing_end) (auto simp: passing_def)
  have best: "j - i + 1 \<le> win_best w" if "passing q a x i j" for i j
    using w that by (force simp: scanned_def longest_run_def split: if_splits)
  have bound: "j - i + 1 \<le> win_best w \<or> j - i \<le> x + 1 - b" if "passing q a (x + 1) i j" for i j
    using passing_step [OF that] best b(2) by auto
  have pass: "dm_pass (x + 1) w = (if x + 1 - b + 1 > win_best w
     then w\<lparr>end_curr := x + 1, bgn_curr := b, win_best := x + 1 - b + 1, bgn_best := b, end_best := x + 1\<rparr>
     else w\<lparr>end_curr := x + 1, bgn_curr := b\<rparr>)"
    by (simp add: dm_pass_def b_def)
  show ?thesis
  proof (cases "x + 1 - b + 1 > win_best w")
    case True
    then have "longest_run q a (x + 1) b (x + 1)"
      using b(1) bound by (fastforce simp: longest_run_def)
    moreover have "b \<le> x + 1" using b(1) by (simp add: passing_def)
    ultimately show ?thesis
      using True b assms(2,4) by (simp add: pass scanned_def)
  next
    case False
    have "b \<le> x + 1" using b(1) by (simp add: passing_def)
    with False have "win_best w \<noteq> 0" by simp
    then have r: "longest_run q a x (bgn_best w) (end_best w)" "win_best w = end_best w - bgn_best w + 1"
      using w by (auto simp: scanned_def)
    then have "longest_run q a (x + 1) (bgn_best w) (end_best w)"
      using bound False passing_more [of q a x _ _ "x + 1"] by (fastforce simp: longest_run_def)
    then show ?thesis
      using False b r \<open>win_best w \<noteq> 0\<close> assms(2,4) by (simp add: pass scanned_def)
  qed
qed

text \<open>Looking at the last position again changes nothing.\<close>

lemma scanned_again:
  assumes "scanned q a x w" and "a \<le> x" and "x \<le> 31"
  shows "(if q x then dm_pass x w else dm_reset w) = w"
proof (cases "q x")
  case True
  then have p: "passing q a x (bgn_curr w) x" "end_curr w = x" using assms by (auto simp: scanned_def)
  then have "bgn_curr w \<noteq> no_edge" using assms(3) by (auto simp: passing_def no_edge_def)
  moreover have "x - bgn_curr w + 1 \<le> win_best w"
    using assms(1) p by (force simp: scanned_def longest_run_def split: if_splits)
  ultimately show ?thesis using p True by (simp add: dm_pass_def)
next
  case False
  with assms show ?thesis by (simp add: scanned_def dm_reset_def)
qed

text \<open>Leaving the search early cannot miss a longer run.\<close>

lemma scanned_exit:
  assumes "scanned q a d w" and "\<not> q d" and "x - d < win_best w" and "a \<le> d" and "d \<le> x"
  shows "\<exists>b e. longest_run q a x b e \<and> bgn_best w = b \<and> end_best w = e"
proof -
  have r: "longest_run q a d (bgn_best w) (end_best w)" "win_best w = end_best w - bgn_best w + 1"
    using assms by (auto simp: scanned_def split: if_splits)
  have "j - i \<le> end_best w - bgn_best w" if "passing q a x i j" for i j
  proof (cases "j < d")
    case True
    with that have "passing q a d i j" by (auto simp: passing_def)
    with r show ?thesis by (auto simp: longest_run_def)
  next
    case False
    with that assms(2) have "d < i" by (auto simp: passing_def) 
    with that r(2) assms(3) show ?thesis by (auto simp: passing_def)
  qed
  with r(1) assms(5) show ?thesis by (auto simp: longest_run_def passing_def)
qed

text \<open>
  What the search relies on: the delay registers and the second jump address, which says what kind of test is
  run, hold what is written to them, reads do not change them, and a test of the mask reports no error
  exactly when the distance from the mask delay to the strobe delay is in the eye \<open>p\<close>.
\<close>

definition write_held :: "reg \<Rightarrow> bool" where
  "write_held r \<longleftrightarrow> scc_delay r \<or> r = RW_MGR_LOAD_JUMP_ADD_1"

definition eye_law :: "'h hwbus \<Rightarrow> ('h \<Rightarrow> reg \<Rightarrow> u32) \<Rightarrow> (int \<Rightarrow> bool) \<Rightarrow> bool" where
  "eye_law M cur p \<longleftrightarrow>
     (\<forall>r v h. cur (bus_wr M r v h) = (if write_held r then (cur h)(r := v) else cur h)) \<and>
     (\<forall>r h. cur (snd (bus_rd M r h)) = cur h) \<and>
     (\<forall>h. cur h RW_MGR_LOAD_JUMP_ADD_1 = inst I_LFSR_WR_RD_DM_BANK_0_WAIT \<longrightarrow> fst (bus_rd M (RW_MGR_RUN_SINGLE_GROUP 0) h) =
        (if p (uint (cur h (SCC_MGR_IO_OUT1_DELAY 8)) - uint (cur h (SCC_MGR_IO_OUT1_DELAY 9))) then 0 else 0xff))"

definition eye :: "('h \<Rightarrow> reg \<Rightarrow> u32) \<Rightarrow> int \<Rightarrow> int \<Rightarrow> 'h seq \<Rightarrow> bool" where
  "eye cur m d s \<longleftrightarrow> uint (cur (io s) (SCC_MGR_IO_OUT1_DELAY 9)) = m \<and> uint (cur (io s) (SCC_MGR_IO_OUT1_DELAY 8)) = d \<and>
     write_correct_mask (param s) = 0xff \<and> write_correct_mask_vg (param s) = 0xff \<and> skip_ranks (param s) 0 = 0"

lemma eye_io:
  assumes "eye_law M cur p"
  shows "\<not> scc_delay r \<Longrightarrow> safe (eye cur m d) (iowr M r v)" and "safe (eye cur m d) (iord M r)"
  using assms by (auto simp: eye_law_def eye_def safe_def write_held_def)

lemma eye_mask:
  assumes "eye_law M cur p" and "0 \<le> x" and "x \<le> 31"
  shows "hoare (eye cur m d) (scc_mgr_apply_group_dm_out1_delay M g (of_int x)) (\<lambda>_. eye cur x d)"
  using assms
  by (auto simp: eye_law_def eye_def hoare_def scc_mgr_apply_group_dm_out1_delay_def scc_mgr_set_dm_out1_delay_def
     scc_mgr_load_dm_def config_simps uint_of_int_31 write_held_def)

lemma eye_strobe:
  assumes "eye_law M cur p" and "0 \<le> x" and "x \<le> 31" and "g < 4"
  shows "hoare (eye cur m d) (scc_mgr_apply_group_dqs_io_and_oct_out1 M g (of_int x)) (\<lambda>_. eye cur m x)"
  using assms
  by (auto simp: eye_law_def eye_def hoare_def scc_mgr_apply_group_dqs_io_and_oct_out1_def scc_mgr_set_dqs_out1_delay_def
     scc_mgr_set_oct_out1_delay_def scc_mgr_load_dqs_io_def scc_mgr_load_dqs_for_write_group_def config_simps uint_of_int_31 write_held_def)

lemma eye_test:
  assumes "eye_law M cur p"
  shows "valid (eye cur m d) (rw_mgr_mem_calibrate_write_test M 0 g True True False) (\<lambda>(pass, _). pass \<longleftrightarrow> p (d - m))"
proof -
  note law = assms [unfolded eye_law_def]
  note rd = law [THEN conjunct2, THEN conjunct2, rule_format] and wr = law [THEN conjunct1, rule_format]
    and rdc = law [THEN conjunct2, THEN conjunct1, rule_format]
  show ?thesis
    by (auto simp: valid_def hoare_def eye_def rw_mgr_mem_calibrate_write_test_def rw_mgr_mem_calibrate_write_test_issue_def
      write_test_jumps_def test_ranks_def config_simps set_rank_and_odt_mask_def rd wr rdc write_held_def split: prod.splits if_splits)
qed

subsubsection \<open>The two searches\<close>

definition dm_look :: "(int \<Rightarrow> bool) \<Rightarrow> int \<Rightarrow> dm_window \<Rightarrow> dm_window" where
  "dm_look q x w = (if q x then dm_pass x w else dm_reset w)"

lemma scanned_look: "scanned q a x w \<Longrightarrow> x < 31 \<Longrightarrow> a - 1 \<le> x \<Longrightarrow> scanned q a (x + 1) (dm_look q (x + 1) w)"
  by (simp add: dm_look_def scanned_pass scanned_fail)

lemma scanned_fold: "x < 31 \<Longrightarrow> a - 1 \<le> x \<Longrightarrow> scanned q a x (fold (dm_look q) [a..x] no_dm_window)"
proof (induction "nat (x - (a - 1))" arbitrary: x)
  case 0
  then have "x = a - 1" by simp
  then show ?case using scanned_none [of q a] by simp
next
  case (Suc k)
  then have "scanned q a (x - 1) (fold (dm_look q) [a..x - 1] no_dm_window)"
    by (intro Suc.hyps) auto
  from scanned_look [OF this] Suc.prems Suc.hyps(2) show ?case
    by (simp add: upto_rec2 [of a x])
qed

lemma valid_fold_each_pure:
  assumes "\<And>x l. x \<in> set xs \<Longrightarrow> valid I (f x l) (\<lambda>l'. l' = g x l)"
  shows "valid I (fold_each f xs l) (\<lambda>l'. l' = fold g xs l)"
  using assms
proof (induction xs arbitrary: l)
  case Nil
  then show ?case by (simp add: valid_ret)
next
  case (Cons x xs)
  then show ?case by (auto intro!: valid_bind [where A = "\<lambda>l'. l' = g x l"])
qed

text \<open>One look through the mask or the strobe, whatever its delay was before.\<close>

lemma valid_look:
  assumes law: "eye_law M cur p"
    and move: "\<And>m d. J m d \<Longrightarrow> hoare (eye cur m d) mv (\<lambda>_. eye cur m' d')" and "J m' d'"
  shows "valid (\<lambda>s. \<exists>m d. J m d \<and> eye cur m d s)
     (do { mv; iowr M SCC_MGR_UPD 0; (pass, _) \<leftarrow> rw_mgr_mem_calibrate_write_test M 0 g True True False; ret (f pass) })
     (\<lambda>a. a = f (p (d' - m')))"
proof -
  have "valid (eye cur m' d') (do { iowr M SCC_MGR_UPD 0;
       (pass, _) \<leftarrow> rw_mgr_mem_calibrate_write_test M 0 g True True False; ret (f pass) }) (\<lambda>a. a = f (p (d' - m')))"
    by (intro valid_safe_bind [OF eye_io(1) [OF law]] valid_bind [OF eye_test [OF law]]) (auto intro!: valid_ret)
  then have "hoare (eye cur m d) (do { mv; iowr M SCC_MGR_UPD 0;
       (pass, _) \<leftarrow> rw_mgr_mem_calibrate_write_test M 0 g True True False; ret (f pass) })
     (\<lambda>a s. eye cur m' d' s \<and> a = f (p (d' - m')))" if "J m d" for m d
    by (intro hoare_bind [OF move [OF that]]) (simp add: valid_def)
  with \<open>J m' d'\<close> show ?thesis unfolding valid_def hoare_def by blast
qed

lemma valid_search_dm_eye:
  assumes "eye_law M cur p"
  shows "valid (\<lambda>s. \<exists>m d. d = n \<and> eye cur m d s) (search_dm M 0 g) (scanned (\<lambda>x. p (n + x)) (- 31) 0)"
proof -
  have look: "valid (\<lambda>s. \<exists>m d. d = n \<and> eye cur m d s) (do { scc_mgr_apply_group_dm_out1_delay M g (of_int x);
       iowr M SCC_MGR_UPD 0; (pass, _) \<leftarrow> rw_mgr_mem_calibrate_write_test M 0 g True True False;
       ret (if pass then dm_pass (- x) w else dm_reset w) })
     (\<lambda>w'. w' = dm_look (\<lambda>x. p (n + x)) (- x) w)" if "0 \<le> x" "x \<le> 31" for x w
    by (rule valid_weaken [OF valid_look [where m' = x and d' = n, OF assms]])
       (auto intro: eye_mask [OF assms that] simp: dm_look_def)
  have "valid (\<lambda>s. \<exists>m d. d = n \<and> eye cur m d s) (search_dm M 0 g)
     (\<lambda>w. w = fold (\<lambda>d. dm_look (\<lambda>x. p (n + x)) (- d)) (rev [0..31]) no_dm_window)"
    unfolding search_dm_def by (intro valid_fold_each_pure look) auto
  moreover have "fold (\<lambda>d. dm_look q (- d)) (rev [0..31]) = fold (dm_look q) (map uminus (rev [0..31]))" for q
    by (simp add: fold_map comp_def)
  moreover have "map uminus (rev [0..31]) = [- 31..0 :: int]" by code_simp
  ultimately show ?thesis
    using scanned_fold [of 0 "- 31"] by (auto elim!: valid_weaken)
qed

text \<open>The best window of all the positions.\<close>

definition best_window :: "(int \<Rightarrow> bool) \<Rightarrow> int \<Rightarrow> int \<Rightarrow> dm_window \<Rightarrow> bool" where
  "best_window q a x w \<longleftrightarrow> (if win_best w = 0 then bgn_best w = no_edge \<and> end_best w = no_edge \<and> (\<forall>i j. \<not> passing q a x i j)
      else longest_run q a x (bgn_best w) (end_best w))"

lemma dm_reset_best [simp]: "win_best (dm_reset w) = win_best w" "bgn_best (dm_reset w) = bgn_best w"
  "end_best (dm_reset w) = end_best w"
  by (simp_all add: dm_reset_def)

lemma valid_dqs_loop:
  assumes body: "\<And>y w. d \<le> y \<Longrightarrow> y \<le> x \<Longrightarrow> valid I (f y w) (\<lambda>r. r = (\<not> q y \<and> win_best w - 1 > x - y, dm_look q y w))"
    and "scanned q a (d - 1) w" and "a \<le> d" and "x \<le> 31" and "d - 1 \<le> x"
  shows "valid I (loop f [d..x] w) (\<lambda>(_, w'). best_window q a x w')"
  using assms
proof (induction "nat (x - (d - 1))" arbitrary: d w)
  case 0
  then have "x = d - 1" by simp
  with 0 show ?case by (auto intro!: valid_ret simp: scanned_def best_window_def split: if_splits)
next
  case (Suc k)
  then have "d \<le> x" by simp
  then have list: "[d..x] = d # [d + 1..x]" by (rule upto_rec1)
  have sc: "scanned q a d (dm_look q d w)"
    using scanned_look [of q a "d - 1" w] Suc.prems \<open>d \<le> x\<close> by simp
  have rest: "valid I (loop f [d + 1..x] (dm_look q d w)) (\<lambda>(_, w'). best_window q a x w')"
    by (rule Suc.hyps) (use Suc sc \<open>d \<le> x\<close> in auto)
  have "best_window q a x (dm_look q d w)" if "\<not> q d" "win_best w - 1 > x - d"
    using scanned_exit [OF sc that(1)] that Suc.prems \<open>d \<le> x\<close>
    by (auto simp: best_window_def dm_look_def)
  with rest show ?case
    unfolding list loop.simps
    by (intro valid_bind [OF Suc.prems(1)]) (use \<open>d \<le> x\<close> in \<open>auto intro!: valid_ret\<close>)
qed

lemma valid_search_dqs_eye:
  assumes "eye_law M cur p" and "g < 4" and "0 \<le> n" and "n \<le> 31" and w: "scanned (\<lambda>x. p (n + x)) (- 31) 0 w"
  shows "valid (\<lambda>s. \<exists>m d. m = 0 \<and> eye cur m d s) (search_dm_dqs M 0 g n w)
     (\<lambda>(_, w'). best_window (\<lambda>x. p (n + x)) (- 31) (31 - n) w')"
proof -
  let ?q = "\<lambda>x. p (n + x)" and ?I = "\<lambda>s. \<exists>m d. m = 0 \<and> eye cur m d s"
  let ?f = "\<lambda>d w. do {
     scc_mgr_apply_group_dqs_io_and_oct_out1 M g (of_int (d + n));
     iowr M SCC_MGR_UPD 0;
     (pass, _) \<leftarrow> rw_mgr_mem_calibrate_write_test M 0 g True True False;
     ret (if pass then (False, dm_pass d w) else (win_best w - 1 > 31 - n - d, dm_reset w)) }"
  have look: "valid ?I (?f x w) (\<lambda>r. r = (\<not> ?q x \<and> win_best w - 1 > 31 - n - x, dm_look ?q x w))"
    if "0 \<le> x" "x \<le> 31 - n" for x w
    by (rule valid_weaken [OF valid_look [where m' = 0 and d' = "x + n", OF assms(1)]])
       (use assms that in \<open>auto intro!: eye_strobe [OF assms(1)] simp: dm_look_def add.commute simp del: of_int_add\<close>)
  have again: "dm_look ?q 0 w = w" using scanned_again [OF w] by (simp add: dm_look_def)
  have "best_window ?q (- 31) (31 - n) w" if "\<not> ?q 0" "win_best w - 1 > 31 - n"
    using scanned_exit [OF w that(1), of "31 - n"] that(2) \<open>n \<le> 31\<close> by (auto simp: best_window_def)
  moreover have "valid ?I (loop ?f [0 + 1..31 - n] w) (\<lambda>(_, w'). best_window ?q (- 31) (31 - n) w')"
    by (rule valid_dqs_loop [OF look]) (use w assms(3,4) in auto)
  ultimately show ?thesis
    unfolding search_dm_dqs_def upto_rec1 [of 0 "31 - n", simplified, OF \<open>n \<le> 31\<close>] loop.simps
    by (intro valid_bind [OF look]) (use \<open>n \<le> 31\<close> again in \<open>auto intro!: valid_ret\<close>)
qed

lemma dm_centre_in_window:
  assumes "longest_run q a x (bgn_best w) (end_best w)" and "win_best w \<noteq> 0" and "dm_centre w = (mid, margin)"
  shows "mid = max 0 (c_div (- bgn_best w - end_best w) 2)" "margin = - bgn_best w - mid" "0 \<le> margin \<Longrightarrow> q (- mid)"
proof -
  show m: "mid = max 0 (c_div (- bgn_best w - end_best w) 2)" "margin = - bgn_best w - mid"
    using assms(2,3) by (auto simp: dm_centre_def Let_def split: if_splits)
  have r: "bgn_best w \<le> end_best w" "\<forall>k \<in> {bgn_best w..end_best w}. q k"
    using assms(1) by (auto simp: longest_run_def passing_def)
  show "q (- mid)" if "0 \<le> margin"
  proof (cases "- bgn_best w - end_best w \<ge> 0")
    case True
    then have "mid = (- bgn_best w - end_best w) div 2" using m(1) by (simp add: c_div_nonneg)
    with r(1) True have "bgn_best w \<le> - mid" "- mid \<le> end_best w" by linarith+
    with r(2) show ?thesis by simp
  next
    case False
    then have "mid = 0" using m(1) by (simp add: c_div_def sgn_if)
    with that m(2) r False show ?thesis by auto
  qed
qed

text \<open>What a setting and its margin have to do with the longest run.\<close>

definition in_window :: "(int \<Rightarrow> bool) \<Rightarrow> int \<Rightarrow> int \<Rightarrow> int \<Rightarrow> int \<Rightarrow> bool" where
  "in_window q a x mid margin \<longleftrightarrow> margin = - 1 \<and> (\<forall>k \<in> {a..x}. \<not> q k) \<or>
     (\<exists>b e. longest_run q a x b e \<and> mid = max 0 (c_div (- b - e) 2) \<and> margin = - b - mid \<and> (0 \<le> margin \<longrightarrow> q (- mid)))"

lemma dm_centre_result:
  assumes w: "best_window q (- 31) x w" and d: "dm_centre w = (mid, margin)"
  shows "in_window q (- 31) x mid margin" "0 \<le> mid" "mid \<le> 31"
proof -
  have "\<not> q k" if "win_best w = 0" "k \<in> {- 31..x}" for k
  proof -
    have "\<not> passing q (- 31) x k k" using w that by (simp add: best_window_def)
    with that(2) show ?thesis by (simp add: passing_def)
  qed
  moreover have "margin = - 1" if "win_best w = 0" using that d by (simp add: dm_centre_def Let_def)
  ultimately show "in_window q (- 31) x mid margin"
    using w dm_centre_in_window [OF _ _ d, of q "- 31" x]
    by (cases "win_best w = 0") (auto simp: in_window_def best_window_def)
  have "dm_ok (dm_reset w)" using w
    by (auto simp: dm_ok_def dm_reset_def best_window_def longest_run_def passing_def split: if_splits)
  moreover have "dm_centre (dm_reset w) = (mid, margin)" using d by (simp add: dm_centre_def)
  ultimately show "0 \<le> mid" "mid \<le> 31" by (auto dest: dm_centre_range)
qed

lemma hoare_centre_dm:
  assumes law: "eye_law M cur p" and n: "g < 4" "0 \<le> n" "n \<le> 31"
  shows "hoare (\<lambda>s. \<exists>m d. d = n \<and> eye cur m d s) (centre_dm M 0 g n)
     (\<lambda>margin s'. \<exists>mid. eye cur mid n s' \<and> in_window (\<lambda>x. p (n + x)) (- 31) (31 - n) mid margin)"
  unfolding centre_dm_def
proof (rule hoare_bind [OF valid_search_dm_eye [OF law, unfolded valid_def]], rule hoare_pure_pre, goal_cases)
  case (1 w)
  then have same: "(if end_curr w \<noteq> 0 then dm_reset w else w) = w"
    by (auto simp: scanned_def dm_reset_def split: if_splits)
  have mask: "hoare (\<lambda>s. \<exists>m d. d = n \<and> eye cur m d s) (scc_mgr_apply_group_dm_out1_delay M g 0)
     (\<lambda>_ s. \<exists>m d. m = 0 \<and> eye cur m d s)"
    by (intro hoare_ex hoare_weaken [OF eye_mask [OF law, of 0, simplified]]) auto
  have strobe: "hoare (\<lambda>s. \<exists>m d. m = 0 \<and> eye cur m d s) (scc_mgr_apply_group_dqs_io_and_oct_out1 M g (of_int n))
     (\<lambda>_. eye cur 0 n)"
    by (intro hoare_ex hoare_weaken [OF eye_strobe [OF law n(2,3,1)]]) auto
  have final_mask: "hoare (eye cur 0 n) (do { scc_mgr_apply_group_dm_out1_delay M g (of_int mid); iowr M SCC_MGR_UPD 0; ret margin })
     (\<lambda>margin s'. \<exists>mid. eye cur mid n s' \<and> in_window (\<lambda>x. p (n + x)) (- 31) (31 - n) mid margin)"
    if "in_window (\<lambda>x. p (n + x)) (- 31) (31 - n) mid margin" "0 \<le> mid" "mid \<le> 31" for mid margin
    using that eye_io(1) [OF law, of SCC_MGR_UPD mid n 0]
    by (intro hoare_bind [OF eye_mask [OF law]]) (auto simp: hoare_def safe_def)
  have final: "hoare (\<lambda>s. \<exists>m d. m = 0 \<and> eye cur m d s) (do {
       scc_mgr_apply_group_dqs_io_and_oct_out1 M g (of_int n);
       let (mid, dm_margin) = dm_centre w;
       scc_mgr_apply_group_dm_out1_delay M g (of_int mid);
       iowr M SCC_MGR_UPD 0;
       ret dm_margin
     }) (\<lambda>margin s'. \<exists>mid. eye cur mid n s' \<and> in_window (\<lambda>x. p (n + x)) (- 31) (31 - n) mid margin)"
    if "best_window (\<lambda>x. p (n + x)) (- 31) (31 - n) w" for w
    using dm_centre_result [OF that] by (intro hoare_bind [OF strobe]) (auto intro!: final_mask split: prod.split)
  show ?case
    unfolding same
  proof (rule hoare_bind [OF mask], rule hoare_bind [OF valid_search_dqs_eye [OF law n 1, unfolded valid_def]], rule hoare_pure_pre, goal_cases)
    case (1 _ r)
    then show ?case using final by (cases r) simp
  qed
qed

text \<open>
  C8: on hardware that masks the data correctly exactly when the strobe delay less the mask delay lies
  in the eye \<open>p\<close>, the two searches together find a longest run of passing positions, from the mask
  delayed by 31 taps to the strobe delayed as far as it goes, although the search leaves early.  The mask is
  then delayed to the middle of the run, or not at all if the middle is out of reach; the margin
  is the distance from the begin of the run and negative when there is none; a margin that is not
  negative means that the mask works at the final setting.  The strobe is where it was.
\<close>

theorem mask_in_longest_window:
  assumes law: "eye_law M cur p" and "g < 4" and "0 \<le> n" and "n \<le> 31"
    and start: "uint (cur (io s) (SCC_MGR_IO_OUT1_DELAY 8)) = n" "write_correct_mask (param s) = 0xff"
      "write_correct_mask_vg (param s) = 0xff" "skip_ranks (param s) 0 = 0"
    and run: "run_state (centre_dm M 0 g n) s = (margin, s')"
  shows "uint (cur (io s') (SCC_MGR_IO_OUT1_DELAY 8)) = n \<and>
     in_window (\<lambda>x. p (n + x)) (- 31) (31 - n) (uint (cur (io s') (SCC_MGR_IO_OUT1_DELAY 9))) margin"
proof -
  have "\<exists>m d. d = n \<and> eye cur m d s" using start by (simp add: eye_def)
  with hoare_centre_dm [OF assms(1-4)] run obtain mid where
    "eye cur mid n s'" "in_window (\<lambda>x. p (n + x)) (- 31) (31 - n) mid margin"
    by (force simp: hoare_def)
  then show ?thesis by (simp add: eye_def)
qed

text \<open>A hardware with an eye of nine positions around 10.\<close>

definition eye_bus :: "(reg \<Rightarrow> u32) hwbus" where
  "eye_bus = \<lparr>bus_rd = (\<lambda>r h. (if \<bar>uint (h (SCC_MGR_IO_OUT1_DELAY 8)) - uint (h (SCC_MGR_IO_OUT1_DELAY 9)) + 10\<bar> \<le> 4 then 0 else 0xff, h)),
              bus_wr = (\<lambda>r v h. if write_held r then h(r := v) else h)\<rparr>"

lemma eye_bus_law: "eye_law eye_bus id (\<lambda>x. \<bar>x + 10\<bar> \<le> 4)"
  by (simp add: eye_law_def eye_bus_def)

lemma eye_bus_window:
  assumes "in_window (\<lambda>x. \<bar>2 + x + 10\<bar> \<le> 4) (- 31) (31 - 2) mid margin"
  shows "mid = 12 \<and> margin = 4"
proof -
  let ?q = "\<lambda>x :: int. \<bar>2 + x + 10\<bar> \<le> 4"
  have "- 12 \<in> {- 31..31 - 2 :: int}" "?q (- 12)" by auto
  then obtain b e where r: "longest_run ?q (- 31) (31 - 2) b e" "mid = max 0 (c_div (- b - e) 2)" "margin = - b - mid"
    using assms unfolding in_window_def by blast
  have "passing ?q (- 31) (31 - 2) (- 16) (- 8)" by (auto simp: passing_def)
  then have "- 8 - (- 16) \<le> e - b" using r(1) unfolding longest_run_def by blast
  moreover have "b \<le> e" "?q b" "?q e" using r(1) by (auto simp: longest_run_def passing_def)
  ultimately have "b = - 16" "e = - 8" by linarith+
  with r(2,3) show ?thesis by (simp add: c_div_def)
qed

theorem mask_in_longest_window_witness:
  "let s = (start_seq ((\<lambda>_. 0)(SCC_MGR_IO_OUT1_DELAY 8 := 2)))\<lparr>param := (param (start_seq ()))\<lparr>write_correct_mask := 0xff,
             write_correct_mask_vg := 0xff\<rparr>\<rparr>;
       (margin, s') = run_state (centre_dm eye_bus 0 1 2) s
   in margin = 4 \<and> io s' (SCC_MGR_IO_OUT1_DELAY 9) = 12"
proof -
  let ?s = "(start_seq ((\<lambda>_. 0)(SCC_MGR_IO_OUT1_DELAY 8 := 2)))\<lparr>param := (param (start_seq ()))\<lparr>write_correct_mask := 0xff,
             write_correct_mask_vg := 0xff\<rparr>\<rparr>"
  obtain margin s' where run: "run_state (centre_dm eye_bus 0 1 2) ?s = (margin, s')" by (metis surj_pair)
  have "uint (io s' (SCC_MGR_IO_OUT1_DELAY 9)) = 12 \<and> margin = 4"
    by (rule eye_bus_window, insert mask_in_longest_window [OF eye_bus_law, of 1 2 ?s, OF _ _ _ _ _ _ _ run])
       (simp add: start_seq_def)
  moreover from this have "io s' (SCC_MGR_IO_OUT1_DELAY 9) = 12" by (simp add: word_uint_eq_iff)
  ultimately show ?thesis unfolding Let_def run by simp
qed

end
