(* ===== verification/SeqWlevel.thy ===== *)
theory SeqWlevel
  imports SeqDqsEn
begin

text \<open>
  Write levelling (\<open>sequencer.c\<close>, lines 6824 to 7090): the output phase and delay at which the writes of a group
  begin to work and stop working, and the middle of that range.  On this device the hardware needs no
  levelling and the function is never called, but it is part of the program.

  Unlike the other searches it does not keep its settings in range: the lemma at the end gives the
  case of a setting that works once and fails at the next test.
\<close>

definition CAL_STAGE_WLEVEL :: u32 where [config_simps]: "CAL_STAGE_WLEVEL = 2"
definition CAL_SUBSTAGE_WORKING_DELAY :: u32 where [config_simps]: "CAL_SUBSTAGE_WORKING_DELAY = 1"
definition CAL_SUBSTAGE_LAST_WORKING_DELAY :: u32 where [config_simps]: "CAL_SUBSTAGE_LAST_WORKING_DELAY = 2"

text \<open>The phase, the delay, and the two ends of the working range.\<close>

record wlevel =
  wl_p :: u32
  wl_d :: u32
  work_bgn :: u32
  work_end :: u32

definition write_ok :: "'h hwbus \<Rightarrow> u32 \<Rightarrow> ('h, bool) cal" where
  "write_ok M g = do {
     (pass, bit_chk) \<leftarrow> rw_mgr_mem_calibrate_write_test_all_ranks M g False False;
     ret pass
   }"

text \<open>
  Step 1: the first working phase for one delay, and for growing delays up to the register, to which the
  sequencer itself wrote a small number.  (With the register at its largest value the loop of the source
  has no end; the range here would be empty.)
\<close>

definition wl_begin_phase :: "'h hwbus \<Rightarrow> u32 \<Rightarrow> wlevel \<Rightarrow> ('h, bool \<times> wlevel) cal" where
  "wl_begin_phase M g l = loop (\<lambda>p l. do {
     scc_mgr_set_dqdqs_output_phase_all_ranks M g p;
     pass \<leftarrow> write_ok M g;
     ret (if pass then (True, l) else (False, l\<lparr>wl_p := p + 1, work_bgn := work_bgn l + IO_DELAY_PER_OPA_TAP\<rparr>))
   }) (range32 0 (IO_DQDQS_OUT_PHASE_MAX + 1)) (l\<lparr>wl_p := 0\<rparr>)"

definition wl_begin :: "'h hwbus \<Rightarrow> u32 \<Rightarrow> u32 \<Rightarrow> u32 \<Rightarrow> ('h, bool \<times> wlevel) cal" where
  "wl_begin M g test_bgn dtaps = loop (\<lambda>d l. do {
     scc_mgr_apply_group_all_out_delay_all_ranks M g test_bgn d;
     (found_begin, l) \<leftarrow> wl_begin_phase M g (l\<lparr>wl_d := d, work_bgn := d * IO_DELAY_PER_DCHAIN_TAP\<rparr>);
     ret (found_begin, if found_begin then l else l\<lparr>wl_d := d + 1\<rparr>)
   }) (range32 0 (dtaps + 1)) \<lparr>wl_p = 0, wl_d = 0, work_bgn = 0, work_end = 0\<rparr>"

text \<open>Step 2: if there is room, one phase back, and forward again in delays.\<close>

definition wl_back :: "'h hwbus \<Rightarrow> u32 \<Rightarrow> u32 \<Rightarrow> wlevel \<Rightarrow> ('h, wlevel) cal" where
  "wl_back M g test_bgn l =
     (if wl_p l > 0 then do {
        scc_mgr_set_dqdqs_output_phase_all_ranks M g (wl_p l - 1);
        (_, _, l) \<leftarrow> loop (\<lambda>d (tmp_delay, l).
          if tmp_delay < work_bgn l then do {
            scc_mgr_apply_group_all_out_delay_all_ranks M g test_bgn d;
            pass \<leftarrow> write_ok M g;
            ret (if pass then (True, (tmp_delay, l\<lparr>work_bgn := tmp_delay\<rparr>))
                 else (False, (tmp_delay + IO_DELAY_PER_DCHAIN_TAP, l)))
          } else ret (True, (tmp_delay, l)))
          (range32 0 (IO_IO_OUT1_DELAY_MAX + 1)) (work_bgn l - IO_DELAY_PER_OPA_TAP, l);
        scc_mgr_apply_group_all_out_delay_all_ranks M g test_bgn 0;
        ret l
      } else ret l)"

text \<open>Steps 3 and 4: to the last working phase.\<close>

definition wl_forward :: "'h hwbus \<Rightarrow> u32 \<Rightarrow> wlevel \<Rightarrow> ('h, wlevel) cal" where
  "wl_forward M g l = do {
     (_, l) \<leftarrow> loop (\<lambda>p l. do {
       scc_mgr_set_dqdqs_output_phase_all_ranks M g p;
       pass \<leftarrow> write_ok M g;
       ret (if \<not> pass then (True, l) else (False, l\<lparr>wl_p := p + 1, work_end := work_end l + IO_DELAY_PER_OPA_TAP\<rparr>))
     }) (range32 (wl_p l + 1) (IO_DQDQS_OUT_PHASE_MAX + 1)) (l\<lparr>wl_p := wl_p l + 1\<rparr>);
     let l = l\<lparr>wl_p := wl_p l - 1\<rparr>;
     scc_mgr_set_dqdqs_output_phase_all_ranks M g (wl_p l);
     ret (l\<lparr>work_end := work_end l - IO_DELAY_PER_OPA_TAP, wl_d := 0\<rparr>)
   }"

text \<open>The delays until the first that fails.\<close>

definition wl_end :: "'h hwbus \<Rightarrow> u32 \<Rightarrow> u32 \<Rightarrow> wlevel \<Rightarrow> ('h, bool \<times> wlevel) cal" where
  "wl_end M g test_bgn l = loop (\<lambda>d l. do {
     scc_mgr_apply_group_all_out_delay_all_ranks M g test_bgn d;
     pass \<leftarrow> write_ok M g;
     ret (if \<not> pass then (True, l) else (False, l\<lparr>wl_d := d + 1, work_end := work_end l + IO_DELAY_PER_DCHAIN_TAP\<rparr>))
   }) (range32 (wl_d l) (IO_IO_OUT1_DELAY_MAX + 1)) l"

text \<open>The phase and the delay of a position: as many steps as fit below it, one back when past it.\<close>

fun count_steps :: "u32 \<Rightarrow> u32 \<Rightarrow> u32 \<Rightarrow> nat \<Rightarrow> u32 \<times> u32" where
  "count_steps step target tmp 0 = (0, tmp)"
| "count_steps step target tmp (Suc k) =
     (if tmp < target then case count_steps step target (tmp + step) k of (n, tmp) \<Rightarrow> (n + 1, tmp) else (0, tmp))"

definition wl_centre :: "u32 \<Rightarrow> u32 \<times> u32" where
  "wl_centre work_mid =
     (let (p, tmp) = count_steps IO_DELAY_PER_OPA_TAP work_mid 0 (Suc (unat IO_DQDQS_OUT_PHASE_MAX));
          (p, tmp) = (if tmp > work_mid then (p - 1, tmp - IO_DELAY_PER_OPA_TAP) else (p, tmp));
          (p, tmp) = (if p > IO_DQDQS_OUT_PHASE_MAX
                      then (IO_DQDQS_OUT_PHASE_MAX, tmp - (p - IO_DQDQS_OUT_PHASE_MAX) * IO_DELAY_PER_OPA_TAP) else (p, tmp));
          (d, tmp) = count_steps IO_DELAY_PER_DCHAIN_TAP work_mid tmp (Suc (unat IO_IO_OUT1_DELAY_MAX));
          d = (if tmp > work_mid then d - 1 else d)
      in (p, d))"

definition wlevel_search :: "'h hwbus \<Rightarrow> u32 \<Rightarrow> u32 \<Rightarrow> u32 \<Rightarrow> ('h, bool) cal" where
  "wlevel_search M g test_bgn dtaps = do {
     (_, l) \<leftarrow> wl_begin M g test_bgn dtaps;
     if wl_p l > IO_DQDQS_OUT_PHASE_MAX then do {
       set_failing_group_stage g CAL_STAGE_WLEVEL CAL_SUBSTAGE_WORKING_DELAY;
       ret False
     } else do {
       reg_file_set_sub_stage M CAL_SUBSTAGE_LAST_WORKING_DELAY;
       l \<leftarrow> (if wl_d l = 0 then do {
               l \<leftarrow> wl_back M g test_bgn (l\<lparr>work_end := work_bgn l + IO_DELAY_PER_OPA_TAP\<rparr>);
               wl_forward M g l
             } else ret (l\<lparr>work_end := work_bgn l\<rparr>));
       (_, l) \<leftarrow> wl_end M g test_bgn l;
       scc_mgr_zero_group M g test_bgn True;
       let l = l\<lparr>work_end := work_end l - IO_DELAY_PER_DCHAIN_TAP\<rparr>;
       if work_end l \<ge> work_bgn l then do {
         let (p, d) = wl_centre ((work_bgn l + work_end l) div 2);
         scc_mgr_set_dqdqs_output_phase_all_ranks M g p;
         scc_mgr_apply_group_all_out_delay_add_all_ranks M g test_bgn d;
         ret True
       } else do {
         set_failing_group_stage g CAL_STAGE_WLEVEL CAL_SUBSTAGE_LAST_WORKING_DELAY;
         ret False
       }
     }
   }"

definition rw_mgr_mem_calibrate_wlevel :: "'h hwbus \<Rightarrow> u32 \<Rightarrow> u32 \<Rightarrow> ('h, bool) cal" where
  "rw_mgr_mem_calibrate_wlevel M g test_bgn = do {
     reg_file_set_stage M CAL_STAGE_WLEVEL;
     reg_file_set_sub_stage M CAL_SUBSTAGE_WORKING_DELAY;
     dtaps \<leftarrow> iord M REG_FILE_DTAPS_PER_PTAP;
     reg_file_set_group M g;
     wlevel_search M g test_bgn dtaps
   }"

subsection \<open>A setting that works only once\<close>

text \<open>
  When the first setting works and then fails, the range ends where it begins, at 0, and taking one
  tap off its end wraps around.  The range then counts as a working one, and its middle
  asks for delay 32, which the registers cannot hold.
\<close>

lemma wl_end_wraps:
  assumes "wl_d l = 0" and "work_bgn l = 0" and "work_end l = 0"
    and "\<not> fst (run_state (write_ok M g) (snd (run_state (scc_mgr_apply_group_all_out_delay_all_ranks M g test_bgn 0) s)))"
    and "run_state (wl_end M g test_bgn l) s = ((stop, l'), s')"
  shows "work_end l' - IO_DELAY_PER_DCHAIN_TAP \<ge> work_bgn l' \<and>
    wl_centre ((work_bgn l' + (work_end l' - IO_DELAY_PER_DCHAIN_TAP)) div 2) = (0, 32)"
proof -
  have "l' = l"
    using assms by (auto simp: wl_end_def range32_Cons(1) [of 0 32] config_simps split_beta)
  moreover have "wl_centre ((0 + (0 - 25)) div 2) = (0, 32)" by code_simp
  ultimately show ?thesis using assms(2,3) by (simp add: config_simps)
qed

end
