(* ===== verification/SeqCal.thy ===== *)
theory SeqCal
  imports SeqWrite SeqWlevel
begin

text \<open>
  The top level of the calibration (\<open>sequencer.c\<close>, lines 8636 to 9682, 9894 to 10020, 10341 to 10377
  and 10524 to 10745): the latencies, the calibration of all groups in order, the report of the result,
  the tables of the read/write manager, the register file, and the entry points.  The fields of
  the memory controller's registers come from a header of the hardware library that is not part
  of the repository; they are the record \<open>sdr\<close>.
\<close>

definition QUARTER_RATE_MODE :: bool where [config_simps]: "QUARTER_RATE_MODE = False"
definition HALF_RATE_MODE :: bool where [config_simps]: "HALF_RATE_MODE = False"
definition DDRX :: bool where [config_simps]: "DDRX = True"
definition RLDRAMII :: bool where [config_simps]: "RLDRAMII = False"
definition ARRIAV :: bool where [config_simps]: "ARRIAV = False"
definition CYCLONEV :: bool where [config_simps]: "CYCLONEV = True"
definition IO_DLL_CHAIN_LENGTH :: u32 where [config_simps]: "IO_DLL_CHAIN_LENGTH = 8"
definition NUM_SHADOW_REGS :: u32 where [config_simps]: "NUM_SHADOW_REGS = 1"
definition PHY_MGR_CAL_RESET :: u32 where [config_simps]: "PHY_MGR_CAL_RESET = 0"
definition PHY_MGR_CAL_SUCCESS :: u32 where [config_simps]: "PHY_MGR_CAL_SUCCESS = 1"
definition PHY_MGR_CAL_FAIL :: u32 where [config_simps]: "PHY_MGR_CAL_FAIL = 2"
definition REG_FILE_INIT_SEQ_SIGNATURE :: u32 where [config_simps]: "REG_FILE_INIT_SEQ_SIGNATURE = 0x555504d3"
abbreviation CTRL_CONFIG_REG :: reg where "CTRL_CONFIG_REG \<equiv> MMR 0"

subsection \<open>Latencies\<close>

text \<open>The cycles to wait between write command and data, on unsigned words (a latency below 2 wraps around
  and gives the -1 that the write test looks for), and the latencies to start from.\<close>

definition wl_nop_cycles :: "u32 \<Rightarrow> u32" where
  "wl_nop_cycles wlat =
     (if QUARTER_RATE_MODE then (wlat + 6) div 4 - 1
      else if HALF_RATE_MODE then (if wlat mod 2 \<noteq> 0 then (wlat - 1) div 2 - 1 else wlat div 2 - 1)
      else wlat - 2)"

definition max_latency :: u32 where
  "max_latency =
     (if QUARTER_RATE_MODE then push_bit MAX_LATENCY_COUNT_WIDTH 1 div 4 - 1
      else if HALF_RATE_MODE then push_bit MAX_LATENCY_COUNT_WIDTH 1 div 2 - 1
      else push_bit MAX_LATENCY_COUNT_WIDTH 1 div 1 - 1)"

definition start_latencies :: "u32 \<Rightarrow> u32 \<Rightarrow> u32 \<times> u32" where
  "start_latencies wlat rlat =
     (if QUARTER_RATE_MODE then ((wlat + 5) div 4 + 1, (rlat + 1) div 4 + 8)
      else if HALF_RATE_MODE then ((wlat - 1) div 2 + 1, (rlat + 1) div 2 + 8)
      else (wlat + 1, rlat + 16))"

definition mem_config :: "'h hwbus \<Rightarrow> ('h, unit) cal" where
  "mem_config M = do {
     wl \<leftarrow> iord M DATA_MGR_MEM_T_WL;
     add \<leftarrow> iord M DATA_MGR_MEM_T_ADD;
     let wlat = wl + add + 1;
     rlat \<leftarrow> iord M DATA_MGR_MEM_T_RL;
     upd_gbl (\<lambda>g. g\<lparr>rw_wl_nop_cycles := wl_nop_cycles wlat\<rparr>);
     let (wlat, read_lat) = start_latencies wlat rlat;
     let read_lat = (if read_lat > max_latency then max_latency else read_lat);
     upd_gbl (\<lambda>g. g\<lparr>curr_read_lat := read_lat\<rparr>);
     iowr M PHY_MGR_PHY_RLAT read_lat;
     upd_gbl (\<lambda>g. g\<lparr>curr_write_lat := wlat\<rparr>);
     iowr M PHY_MGR_AFI_WLAT (wlat - 2);
     mem_precharge_and_activate M
   }"

subsection \<open>Fixed settings\<close>

text \<open>The settings without calibration, for simulation; the phase is \<open>1.25 * IO_DLL_CHAIN_LENGTH - 2\<close>.\<close>

definition mem_skip_calibrate :: "'h hwbus \<Rightarrow> ('h, unit) cal" where
  "mem_skip_calibrate M = do {
     for_each (\<lambda>r. do {
       for_each (\<lambda>i. do {
         scc_mgr_set_dqs_en_phase M i 0;
         scc_mgr_set_dqdqs_output_phase M i (5 * IO_DLL_CHAIN_LENGTH div 4 - 2)
       }) (range32 0 RW_MGR_MEM_IF_READ_DQS_WIDTH);
       iowr M SCC_MGR_DQS_ENA 0xff;
       iowr M SCC_MGR_DQS_IO_ENA 0xff;
       for_each (\<lambda>i. do {
         iowr M SCC_MGR_GROUP_COUNTER i;
         iowr M SCC_MGR_DQ_ENA 0xff;
         iowr M SCC_MGR_DM_ENA 0xff
       }) (range32 0 RW_MGR_MEM_IF_WRITE_DQS_WIDTH);
       iowr M SCC_MGR_UPD 0
     }) shadow_ranks;
     for_each (\<lambda>i. do {
       scc_mgr_set_dqs_bus_in_delay M i 10;
       scc_mgr_load_dqs M i
     }) (range32 0 RW_MGR_MEM_IF_READ_DQS_WIDTH);
     iowr M SCC_MGR_UPD 0;
     for_each (\<lambda>j. iowr M PHY_MGR_CMD_INC_VFIFO_HARD_PHY 0xff) (range32 0 CALIB_VFIFO_OFFSET);
     iowr M PHY_MGR_CMD_FIFO_RESET 0;
     upd_gbl (\<lambda>g. g\<lparr>curr_read_lat := CALIB_LFIFO_OFFSET\<rparr>);
     iowr M PHY_MGR_PHY_RLAT CALIB_LFIFO_OFFSET
   }"

subsection \<open>The calibration of all groups\<close>

text \<open>
  A stage of a group: left out when the group has failed already or the build skips the stage.  It
  returns whether the calibration returns at once, and whether the group has failed.
\<close>

definition group_stage :: "u16 \<Rightarrow> ('h, bool) cal \<Rightarrow> bool \<Rightarrow> ('h, bool \<times> bool) cal" where
  "group_stage skip test group_failed =
     (if group_failed \<or> STATIC_CALIB_STEPS AND skip \<noteq> 0 then ret (False, group_failed)
      else do {
        pass \<leftarrow> test;
        flags \<leftarrow> gets (\<lambda>s. phy_debug_mode_flags (gbl s));
        ret (\<not> pass \<and> flags AND PHY_DEBUG_SWEEP_ALL_GROUPS = 0, \<not> pass)
      })"

text \<open>The read groups of a write group, with the number of their first pin, up to the first that fails.\<close>

definition read_stage :: "(u32 \<Rightarrow> u32 \<Rightarrow> ('h, bool) cal) \<Rightarrow> u32 \<Rightarrow> ('h, bool) cal" where
  "read_stage test write_group = do {
     (failing, _) \<leftarrow> loop (\<lambda>(k, read_group) _. do {
       pass \<leftarrow> test read_group (of_nat k * RW_MGR_MEM_DQ_PER_READ_DQS);
       ret (\<not> pass, ())
     }) (enumerate 0 (read_groups_of write_group)) ();
     ret (\<not> failing)
   }"

text \<open>Write levelling, for the devices that need it; this one does not.\<close>

definition level_stage :: "'h hwbus \<Rightarrow> u32 \<Rightarrow> u32 \<Rightarrow> bool \<Rightarrow> ('h, bool \<times> bool) cal" where
  "level_stage M write_group write_test_bgn group_failed =
     (if (DDRX \<or> RLDRAMII) \<and> \<not> (ARRIAV \<or> CYCLONEV)
      then group_stage CALIB_SKIP_WLEVEL (rw_mgr_mem_calibrate_wlevel M write_group write_test_bgn) group_failed
      else ret (False, group_failed))"

text \<open>The output side of the ranks.\<close>

definition write_stage :: "'h hwbus \<Rightarrow> u32 \<Rightarrow> u32 \<Rightarrow> bool \<Rightarrow> ('h, bool \<times> bool) cal" where
  "write_stage M write_group write_test_bgn group_failed =
     (if group_failed then ret (False, group_failed)
      else loop (\<lambda>rank_bgn group_failed. do {
        skip \<leftarrow> gets (\<lambda>s. skip_shadow_regs (param s) rank_bgn);
        if STATIC_CALIB_STEPS AND CALIB_SKIP_WRITES \<noteq> 0 \<or> STATIC_CALIB_STEPS AND CALIB_SKIP_DELAY_SWEEPS \<noteq> 0 \<or> skip \<noteq> 0
        then ret (False, group_failed)
        else do {
          pass \<leftarrow> rw_mgr_mem_calibrate_writes M rank_bgn write_group write_test_bgn;
          flags \<leftarrow> gets (\<lambda>s. phy_debug_mode_flags (gbl s));
          ret (\<not> pass \<and> flags AND PHY_DEBUG_SWEEP_ALL_GROUPS = 0, group_failed \<or> \<not> pass)
        }
      }) shadow_ranks False)"

definition calibrate_group :: "'h hwbus \<Rightarrow> u32 \<Rightarrow> u32 \<Rightarrow> ('h, bool \<times> bool) cal" where
  "calibrate_group M write_group write_test_bgn = do {
     iowr M SCC_MGR_GROUP_COUNTER write_group;
     scc_mgr_zero_group M write_group write_test_bgn False;
     (stop, group_failed) \<leftarrow> group_stage CALIB_SKIP_VFIFO (read_stage (rw_mgr_mem_calibrate_vfifo M) write_group) False;
     if stop then ret (True, True)
     else do {
       (stop, group_failed) \<leftarrow> level_stage M write_group write_test_bgn group_failed;
       if stop then ret (True, True)
       else do {
         (stop, group_failed) \<leftarrow> write_stage M write_group write_test_bgn group_failed;
         if stop then ret (True, True)
         else group_stage CALIB_SKIP_WRITES (read_stage (rw_mgr_mem_calibrate_vfifo_end M) write_group) group_failed
       }
     }
   }"

text \<open>The next group of a round; \<open>run_groups\<close> has a bit for each group that is not skipped.\<close>

definition next_group :: "'h hwbus \<Rightarrow> u32 \<Rightarrow> u32 \<times> u32 \<Rightarrow> ('h, bool \<times> u32 \<times> u32) cal" where
  "next_group M write_group l = (case l of (run_groups, failing_groups) \<Rightarrow> do {
     let current_run = run_groups AND (push_bit (unat RW_MGR_NUM_DQS_PER_WRITE_GROUP) 1 - 1);
     let run_groups = drop_bit (unat RW_MGR_NUM_DQS_PER_WRITE_GROUP) run_groups;
     if current_run = 0 then ret (False, (run_groups, failing_groups))
     else do {
       (stop, group_failed) \<leftarrow> calibrate_group M write_group (write_group * RW_MGR_MEM_DQ_PER_WRITE_DQS);
       ret (stop, (run_groups, if group_failed then failing_groups + 1 else failing_groups))
     }
   })"

text \<open>One round over the groups, then the read latency.\<close>

definition calibrate_groups :: "'h hwbus \<Rightarrow> ('h, bool) cal" where
  "calibrate_groups M = do {
     scc_mgr_zero_all M;
     skip \<leftarrow> gets (\<lambda>s. skip_groups (param s));
     (stop, _, failing_groups) \<leftarrow> loop (next_group M) (range32 0 RW_MGR_MEM_IF_WRITE_DQS_WIDTH) (NOT skip, 0);
     if stop \<or> failing_groups \<noteq> 0 then ret False
     else if STATIC_CALIB_STEPS AND CALIB_SKIP_LFIFO = 0 \<and> skip = 0 then rw_mgr_mem_calibrate_lfifo M
     else ret True
   }"

text \<open>Configuration and calibration, once the record of failures has been cleared.\<close>

definition calibrate_all :: "'h hwbus \<Rightarrow> ('h, bool) cal" where
  "calibrate_all M = do {
     mem_config M;
     for_each (\<lambda>i. do {
       iowr M SCC_MGR_GROUP_COUNTER i;
       scc_set_bypass_mode M i 0x1
     }) (range32 0 RW_MGR_MEM_IF_READ_DQS_WIDTH);
     steps \<leftarrow> gets dyn_calib_steps;
     (failing, _) \<leftarrow> (if steps AND CALIB_SKIP_ALL = CALIB_SKIP_ALL then do { mem_skip_calibrate M; ret (False, ()) }
       else loop (\<lambda>i _. do { pass \<leftarrow> calibrate_groups M; ret (\<not> pass, ()) }) (range32 0 NUM_CALIB_REPEAT) ());
     if failing then ret False
     else do {
       iowr M SCC_MGR_UPD 0;
       ret True
     }
   }"

definition mem_calibrate :: "'h hwbus \<Rightarrow> ('h, bool) cal" where
  "mem_calibrate M = do {
     upd_gbl (\<lambda>g. g\<lparr>error_substage := CAL_SUBSTAGE_NIL, error_stage := CAL_STAGE_NIL, error_group := 0xff,
                    fom_in := 0, fom_out := 0\<rparr>);
     calibrate_all M
   }"

subsection \<open>The result\<close>

definition report_result :: "'h hwbus \<Rightarrow> bool \<Rightarrow> ('h, unit) cal" where
  "report_result M pass =
     (if pass then do {
        upd_gbl (\<lambda>g. g\<lparr>fom_in := (if fom_in g div 2 > 0xff then 0xff else fom_in g div 2),
                       fom_out := (if fom_out g div 2 > 0xff then 0xff else fom_out g div 2)\<rparr>);
        debug_info \<leftarrow> gets (\<lambda>s. fom_in (gbl s) OR push_bit 8 (fom_out (gbl s)));
        iowr M REG_FILE_FOM debug_info;
        iowr M PHY_MGR_CAL_DEBUG_INFO debug_info;
        iowr M PHY_MGR_CAL_STATUS PHY_MGR_CAL_SUCCESS
      } else do {
        debug_info \<leftarrow> gets (\<lambda>s. error_stage (gbl s) OR push_bit 8 (error_substage (gbl s)) OR push_bit 16 (error_group (gbl s)));
        iowr M REG_FILE_FAILING_STAGE debug_info;
        iowr M PHY_MGR_CAL_DEBUG_INFO debug_info;
        iowr M PHY_MGR_CAL_STATUS PHY_MGR_CAL_FAIL;
        iowr M REG_FILE_FAILING_STAGE debug_info
      })"

text \<open>Closing the banks and giving the memory back to the controller, unless debugging.\<close>

definition hand_back :: "'h hwbus \<Rightarrow> u32 \<Rightarrow> ('h, unit) cal" where
  "hand_back M ctrlcfg = do {
     mem_precharge_and_activate M;
     iowr M PHY_MGR_CMD_FIFO_RESET 0;
     flags \<leftarrow> gets (\<lambda>s. phy_debug_mode_flags (gbl s));
     whenM (flags AND PHY_DEBUG_IN_DEBUG_MODE = 0) (do {
       rw_mgr_mem_handoff M;
       iowr M PHY_MGR_MUX_SEL 0x2
     });
     iowr M CTRL_CONFIG_REG ctrlcfg
   }"

definition run_mem_calibrate :: "'h hwbus \<Rightarrow> ('h, bool) cal" where
  "run_mem_calibrate M = do {
     iowr M PHY_MGR_CAL_STATUS PHY_MGR_CAL_RESET;
     ctrlcfg \<leftarrow> iord M CTRL_CONFIG_REG;
     iowr M CTRL_CONFIG_REG (ctrlcfg AND 0xFFBFFFFF);
     initialize M;
     rw_mgr_mem_initialize M;
     pass \<leftarrow> mem_calibrate M;
     hand_back M ctrlcfg;
     report_result M pass;
     ret pass
   }"

subsection \<open>Start-up\<close>

definition hc_initialize_rom_data :: "'h hwbus \<Rightarrow> ('h, unit) cal" where
  "hc_initialize_rom_data M = do {
     for_each (\<lambda>i. iowr M (RW_MGR_INST_ROM_WRITE (of_nat i)) (inst_rom_init ! i)) [0..<inst_rom_init_size];
     for_each (\<lambda>i. iowr M (RW_MGR_AC_ROM_WRITE (of_nat i)) (ac_rom_init ! i)) [0..<ac_rom_init_size]
   }"

definition initialize_reg_file :: "'h hwbus \<Rightarrow> ('h, unit) cal" where
  "initialize_reg_file M = do {
     iowr M REG_FILE_SIGNATURE REG_FILE_INIT_SEQ_SIGNATURE;
     iowr M REG_FILE_DEBUG_DATA_ADDR 0;
     iowr M REG_FILE_CUR_STAGE 0;
     iowr M REG_FILE_FOM 0;
     iowr M REG_FILE_FAILING_STAGE 0;
     iowr M REG_FILE_DEBUG1 0;
     iowr M REG_FILE_DEBUG2 0
   }"

text \<open>The macros of the controller's registers, without the prefix \<open>SDR_CTRLGRP_PHYCTRL\<close>.\<close>

record sdr =
  ACDELAYEN_SET :: "u32 \<Rightarrow> u32"
  DQDELAYEN_SET :: "u32 \<Rightarrow> u32"
  DQSDELAYEN_SET :: "u32 \<Rightarrow> u32"
  DQSLOGICDELAYEN_SET :: "u32 \<Rightarrow> u32"
  RESETDELAYEN_SET :: "u32 \<Rightarrow> u32"
  LPDDRDIS_SET :: "u32 \<Rightarrow> u32"
  ADDLATSEL_SET :: "u32 \<Rightarrow> u32"
  SAMPLECOUNT_19_0_SET :: "u32 \<Rightarrow> u32"
  SAMPLECOUNT_19_0_WIDTH :: nat
  SAMPLECOUNT_31_20_SET :: "u32 \<Rightarrow> u32"
  LONGIDLESAMPLECOUNT_19_0_SET :: "u32 \<Rightarrow> u32"
  LONGIDLESAMPLECOUNT_19_0_WIDTH :: nat
  LONGIDLESAMPLECOUNT_31_20_SET :: "u32 \<Rightarrow> u32"
  PHYCTRL_0_OFFSET :: u32
  PHYCTRL_1_OFFSET :: u32
  PHYCTRL_2_OFFSET :: u32

definition initialize_hps_phy :: "'h hwbus \<Rightarrow> sdr \<Rightarrow> ('h, unit) cal" where
  "initialize_hps_phy M X =
     (let trk_sample_count = 7500;
          trk_long_idle_sample_count = push_bit 16 10 OR 100
      in do {
        iowr M (MMR (PHYCTRL_0_OFFSET X))
          (0 OR ACDELAYEN_SET X 2 OR DQDELAYEN_SET X 1 OR DQSDELAYEN_SET X 1 OR DQSLOGICDELAYEN_SET X 1 OR
           RESETDELAYEN_SET X 0 OR LPDDRDIS_SET X 1 OR ADDLATSEL_SET X 0 OR SAMPLECOUNT_19_0_SET X trk_sample_count);
        iowr M (MMR (PHYCTRL_1_OFFSET X))
          (0 OR SAMPLECOUNT_31_20_SET X (drop_bit (SAMPLECOUNT_19_0_WIDTH X) trk_sample_count) OR
           LONGIDLESAMPLECOUNT_19_0_SET X trk_long_idle_sample_count);
        iowr M (MMR (PHYCTRL_2_OFFSET X))
          (0 OR LONGIDLESAMPLECOUNT_31_20_SET X (drop_bit (LONGIDLESAMPLECOUNT_19_0_WIDTH X) trk_long_idle_sample_count))
      })"

definition initialize_tracking :: "'h hwbus \<Rightarrow> ('h, unit) cal" where
  "initialize_tracking M =
     (let concatenated_longidle = push_bit 16 (0 XOR 10) XOR 100;
          concatenated_delays = push_bit 8 (push_bit 8 (push_bit 8 (0 XOR 243) XOR 14) XOR 10) XOR 4;
          concatenated_rw_addr = push_bit 8 (push_bit 8 (push_bit 8 (0 XOR inst I_IDLE) XOR inst I_ACTIVATE_1)
                                   XOR inst I_SGLE_READ) XOR inst I_PRECHARGE_ALL;
          concatenated_refresh = push_bit 24 (0 XOR inst I_REFRESH_ALL) XOR 1000
      in do {
        iowr M REG_FILE_DTAPS_PER_PTAP (dtaps_per_ptap IO_DELAY_PER_DCHAIN_TAP);
        iowr M REG_FILE_TRK_SAMPLE_COUNT 7500;
        iowr M REG_FILE_TRK_LONGIDLE concatenated_longidle;
        iowr M REG_FILE_DELAYS concatenated_delays;
        iowr M REG_FILE_TRK_RW_MGR_ADDR concatenated_rw_addr;
        iowr M REG_FILE_TRK_READ_DQS_WIDTH RW_MGR_MEM_IF_READ_DQS_WIDTH;
        iowr M REG_FILE_TRK_RFSH concatenated_refresh
      })"

text \<open>A request of the interface: 1 or 16 to initialise, 2 or 32 to calibrate.\<close>

definition user_init_cal_req :: "'h hwbus \<Rightarrow> ('h, unit) cal" where
  "user_init_cal_req M = do {
     scc_afi_reg \<leftarrow> iord M SCC_MGR_AFI_CAL_INIT;
     if scc_afi_reg = 1 \<or> scc_afi_reg = 16 then do {
       initialize M;
       rw_mgr_mem_initialize M;
       rw_mgr_mem_handoff M;
       iowr M PHY_MGR_MUX_SEL 0;
       iowr M PHY_MGR_CAL_STATUS PHY_MGR_CAL_SUCCESS
     } else if scc_afi_reg = 2 \<or> scc_afi_reg = 32 then do {
       run_mem_calibrate M;
       ret ()
     } else ret ()
   }"

text \<open>The entry point.  The variables it starts from hold anything.\<close>

definition sdram_calibration :: "'h hwbus \<Rightarrow> sdr \<Rightarrow> ('h, bool) cal" where
  "sdram_calibration M X = do {
     upd_gbl (\<lambda>g. g\<lparr>phy_debug_mode_flags := 0 OR PHY_DEBUG_ENABLE_CAL_RPT\<rparr>);
     initialize_reg_file M;
     initialize_hps_phy M X;
     scc_mgr_initialize M;
     initialize_tracking M;
     for_each (\<lambda>i. upd_param (\<lambda>p. p\<lparr>skip_ranks := (skip_ranks p)(i := 0)\<rparr>)) (range32 0 RW_MGR_MEM_NUMBER_OF_RANKS);
     for_each (\<lambda>i. upd_param (\<lambda>p. p\<lparr>skip_shadow_regs := (skip_shadow_regs p)(i := 0)\<rparr>)) (range32 0 NUM_SHADOW_REGS);
     upd_param (\<lambda>p. p\<lparr>skip_groups := 0\<rparr>);
     hc_initialize_rom_data M;
     reg_file_set_stage M CAL_STAGE_NIL;
     reg_file_set_group M 0;
     set_steps STATIC_CALIB_STEPS;
     steps \<leftarrow> gets dyn_calib_steps;
     set_delay_mask (if steps AND CALIB_SKIP_DELAY_LOOPS = 0 then 0xff else 0x0);
     run_mem_calibrate M
   }"

subsection \<open>The settings stay in range\<close>

lemma valid_gets_inv: "(\<And>s. I s \<Longrightarrow> A (f s)) \<Longrightarrow> valid I (gets f) A"
  by (simp add: valid_def hoare_def)

context scc_bus
begin

lemma safe_mem_config [safe_intros]: "safe ok (mem_config M)"
  unfolding mem_config_def Let_def by (intro safe_intros) auto

lemma safe_group_stage [safe_intros]: "safe ok test \<Longrightarrow> safe ok (group_stage skip test f)"
  unfolding group_stage_def by (intro safe_intros)

lemma safe_read_stage [safe_intros]:
  assumes "g < 4" and "safe ok (test g 0)"
  shows "safe ok (read_stage test g)"
  unfolding read_stage_def by (intro safe_intros) (use assms in \<open>auto intro!: safe_intros\<close>)

lemma safe_level_stage [safe_intros]: "safe ok (level_stage M g t f)"
  by (simp add: level_stage_def config_simps safe_intros)

lemma safe_write_stage [safe_intros]: "g < 4 \<Longrightarrow> safe ok (write_stage M g t f)"
  unfolding write_stage_def by (intro safe_intros) auto

lemma safe_calibrate_group [safe_intros]: "g < 4 \<Longrightarrow> safe ok (calibrate_group M g t)"
  unfolding calibrate_group_def by (intro safe_intros) auto

lemma safe_calibrate_groups [safe_intros]: "safe ok (calibrate_groups M)"
  unfolding calibrate_groups_def next_group_def Let_def config_simps
  by (intro safe_intros) (auto simp: range32_mem simp del: range32_small)

lemma safe_calibrate_all [safe_intros]: "safe ok (calibrate_all M)"
  unfolding calibrate_all_def
  by (intro safe_bind_valid [OF valid_gets_inv [where A = "\<lambda>x. x AND CALIB_SKIP_ALL \<noteq> CALIB_SKIP_ALL"]] safe_intros)
     (auto simp: ok_def)

lemma safe_mem_calibrate:
  assumes "\<not> failed"
  shows "safe ok (mem_calibrate M)"
proof -
  have "safe ok (upd_gbl f)" for f unfolding safe_def ok_def using assms by simp
  then show ?thesis unfolding mem_calibrate_def by (intro safe_bind safe_calibrate_all)
qed

end

subsection \<open>Failures are recorded\<close>

text \<open>A step that returns failure leaves a recorded stage.\<close>

definition recorded :: "'h seq \<Rightarrow> bool" where
  "recorded s \<longleftrightarrow> error_stage (gbl s) \<noteq> CAL_STAGE_NIL"

definition records :: "('h, bool) cal \<Rightarrow> bool" where
  "records m \<longleftrightarrow> hoare (\<lambda>_. True) m (\<lambda>pass s. \<not> pass \<longrightarrow> recorded s)"

lemma records_bind: "(\<And>a. records (f a)) \<Longrightarrow> records (m \<bind> f)"
  by (auto simp: records_def hoare_def split: prod.splits)

lemma records_if: "records a \<Longrightarrow> records b \<Longrightarrow> records (if c then a else b)"
  by simp

lemma records_pass: "records (ret True)"
  by (simp add: records_def hoare_def)

lemma records_fail: "stage \<noteq> CAL_STAGE_NIL \<Longrightarrow> records (do { set_failing_group_stage grp stage substage; ret False })"
  by (simp add: records_def hoare_def recorded_def set_failing_group_stage_def)

lemma records_split: "(\<And>a b. records (f a b)) \<Longrightarrow> records (case x of (a, b) \<Rightarrow> f a b)"
  by (cases x) simp

lemmas records_rules = records_fail records_pass records_if records_split records_bind

lemma records_steps:
  "records (rw_mgr_mem_calibrate_vfifo M g t)" "records (rw_mgr_mem_calibrate_vfifo_end M g t)"
  "records (rw_mgr_mem_calibrate_writes M r g t)" "records (rw_mgr_mem_calibrate_lfifo M)"
  unfolding rw_mgr_mem_calibrate_vfifo_def rw_mgr_mem_calibrate_vfifo_end_def
    rw_mgr_mem_calibrate_writes_def rw_mgr_mem_calibrate_lfifo_def Let_def
  by (rule records_rules | simp add: config_simps)+

text \<open>A stage of a group that stops the calibration or fails the group has recorded it.\<close>

definition stage_records :: "bool \<Rightarrow> ('h, bool \<times> bool) cal \<Rightarrow> bool" where
  "stage_records f m \<longleftrightarrow> hoare (\<lambda>s. f \<longrightarrow> recorded s) m (\<lambda>(stop, f') s. stop \<or> f' \<longrightarrow> recorded s)"

lemma group_stage_records: "records test \<Longrightarrow> stage_records f (group_stage skip test f)"
  by (force simp: stage_records_def group_stage_def records_def hoare_def split_beta)

lemma read_stage_records: "g < 4 \<Longrightarrow> (\<And>r t. records (test r t)) \<Longrightarrow> records (read_stage test g)"
  by (auto simp: read_stage_def records_def hoare_def split_beta)

lemma level_stage_records: "stage_records f (level_stage M g t f)"
  by (simp add: level_stage_def config_simps stage_records_def hoare_def)

lemma write_stage_records: "stage_records f (write_stage M g t f)"
  using records_steps(3) [of M 0 g t]
  by (auto simp: stage_records_def write_stage_def records_def hoare_def split_beta split: if_splits)

lemma stage_records_bind:
  "stage_records f m \<Longrightarrow> (\<And>f. stage_records f (n f)) \<Longrightarrow>
   stage_records f (do { (stop, f) \<leftarrow> m; if stop then ret (True, True) else n f })"
  unfolding stage_records_def by (erule hoare_bind) (force simp: hoare_def split_beta split: prod.splits)

lemma stage_records_after: "(\<And>a. stage_records False (n a)) \<Longrightarrow> stage_records False (m \<bind> n)"
  unfolding stage_records_def by (rule hoare_bind [where R = "\<lambda>_ _. True"]) (auto simp: hoare_def)

lemma calibrate_group_records: "g < 4 \<Longrightarrow> stage_records False (calibrate_group M g t)"
  unfolding calibrate_group_def
  by (rule stage_records_after, rule stage_records_after,
      intro stage_records_bind group_stage_records read_stage_records level_stage_records write_stage_records records_steps)

text \<open>A loop whose invariant speaks about the state; it may leave in a state of its own.\<close>

lemma hoare_loop:
  assumes "\<And>x l. x \<in> set xs \<Longrightarrow> hoare (P l) (f x l) (\<lambda>(br, l') s. if br then Q l' s else P l' s)"
  shows "hoare (P l) (loop f xs l) (\<lambda>(br, l') s. if br then Q l' s else P l' s)"
  using assms
proof (induction xs arbitrary: l)
  case Nil
  then show ?case by (simp add: hoare_ret)
next
  case (Cons x xs)
  show ?case
    unfolding loop.simps
  proof (rule hoare_bind [OF Cons.prems], simp)
    fix r :: "bool \<times> 'b"
    obtain br l' where r: "r = (br, l')" by (cases r)
    show "hoare (case r of (br, l') \<Rightarrow> \<lambda>s. if br then Q l' s else P l' s)
       (case r of (br, l') \<Rightarrow> if br then ret (True, l') else loop f xs l') (\<lambda>(br, l') s. if br then Q l' s else P l' s)"
      using Cons.IH [of l'] Cons.prems unfolding r by (cases br) (simp_all add: hoare_ret)
  qed
qed

subsection \<open>The run on a scan chain manager\<close>

abbreviation run_ok :: "u32 list \<Rightarrow> 'h scc seq \<Rightarrow> bool" where
  "run_ok k \<equiv> scc_bus.ok (scc_inv k) False"

lemma ok_recorded: "scc_bus.ok (scc_inv k) True s \<longleftrightarrow> run_ok k s \<and> recorded s"
  by (auto simp: sccf.ok_def recorded_def)

text \<open>A step that is safe in both senses keeps a recorded failure.\<close>

lemma keeps_recorded:
  assumes "\<And>failed. safe (scc_bus.ok (scc_inv k) failed) m"
  shows "hoare (\<lambda>s. run_ok k s \<and> (f \<longrightarrow> recorded s)) m (\<lambda>_ s. run_ok k s \<and> (f \<longrightarrow> recorded s))"
  using assms [of True] assms [of False] by (auto simp: safe_def hoare_def ok_recorded)

lemma hoare_gets: "hoare P (gets f) (\<lambda>_. P)"
  by (simp add: hoare_def)

definition group_inv :: "u32 list \<Rightarrow> u32 \<times> u32 \<Rightarrow> 'h scc seq \<Rightarrow> bool" where
  "group_inv k l s \<longleftrightarrow> run_ok k s \<and> (snd l \<noteq> 0 \<longrightarrow> recorded s)"

lemma next_group_records:
  assumes "g < 4"
  shows "hoare (group_inv k l) (next_group (scc_file M) g l) (\<lambda>(stop, l') s. if stop then recorded s else group_inv k l' s)"
proof -
  have grp: "hoare (group_inv k l) (calibrate_group (scc_file M) g t)
     (\<lambda>(stop, f) s. run_ok k s \<and> (snd l \<noteq> 0 \<or> stop \<or> f \<longrightarrow> recorded s))" for t
    using keeps_recorded [OF sccf.safe_calibrate_group [OF assms], where f = "snd l \<noteq> 0" and k = k]
      calibrate_group_records [OF assms, of "scc_file M" t]
    by (force simp: hoare_def stage_records_def group_inv_def)
  obtain run failing where l: "l = (run, failing)" by (cases l)
  show ?thesis
    unfolding next_group_def Let_def l prod.case
    by (intro hoare_if hoare_bind [OF grp [unfolded l]]) (auto simp: hoare_def group_inv_def split: prod.splits if_splits)
qed

lemma calibrate_groups_records:
  "hoare (run_ok k) (calibrate_groups (scc_file M)) (\<lambda>pass s. \<not> pass \<longrightarrow> recorded s)"
proof -
  have "hoare (group_inv k l) (loop (next_group (scc_file M)) (range32 0 RW_MGR_MEM_IF_WRITE_DQS_WIDTH) l)
     (\<lambda>(stop, l') s. if stop then recorded s else group_inv k l' s)" for l
    by (intro hoare_loop next_group_records) (auto simp: range32_mem config_simps simp del: range32_small)
  then have round: "hoare (run_ok k) (loop (next_group (scc_file M)) (range32 0 RW_MGR_MEM_IF_WRITE_DQS_WIDTH) (x, 0))
     (\<lambda>(stop, _, failing) s. stop \<or> failing \<noteq> 0 \<longrightarrow> recorded s)" for x
    by (rule hoare_weaken) (auto simp: group_inv_def split: if_splits)
  show ?thesis
    unfolding calibrate_groups_def
    by (rule hoare_bind [OF hoare_of_safe [OF sccf.safe_zero_all]], rule hoare_bind [OF hoare_gets], rule hoare_bind [OF round])
       (use records_steps(4) [of "scc_file M"] in \<open>auto simp: records_def hoare_def split: if_splits\<close>)
qed

lemma mem_calibrate_records: "hoare (run_ok k) (mem_calibrate (scc_file M)) (\<lambda>pass s. run_ok k s \<and> (\<not> pass \<longrightarrow> recorded s))"
proof -
  have "hoare (run_ok k) (calibrate_all (scc_file M)) (\<lambda>pass s. \<not> pass \<longrightarrow> recorded s)"
  proof -
    have choice: "hoare (run_ok k) (if steps AND CALIB_SKIP_ALL = CALIB_SKIP_ALL then do { mem_skip_calibrate (scc_file M); ret (False, ()) }
       else loop (\<lambda>i _. do { pass \<leftarrow> calibrate_groups (scc_file M); ret (\<not> pass, ()) }) (range32 0 NUM_CALIB_REPEAT) ())
       (\<lambda>(failing, _) s. failing \<longrightarrow> recorded s)" for steps
      using calibrate_groups_records [of k M] by (auto simp: hoare_def config_simps split_beta)
    show ?thesis
      unfolding calibrate_all_def
      by (rule hoare_bind [OF hoare_of_safe [OF sccf.safe_mem_config]], rule hoare_bind [OF hoare_of_safe],
          (rule safe_intros sccf.safe_bypass sccf.safe_iowr_other | simp)+, rule hoare_bind [OF hoare_gets], rule hoare_bind [OF choice])
         (auto simp: hoare_def split: if_splits)
  qed
  then have "hoare (run_ok k) (mem_calibrate (scc_file M)) (\<lambda>pass s. \<not> pass \<longrightarrow> recorded s)"
    unfolding mem_calibrate_def by (intro hoare_bind [where R = "\<lambda>_. run_ok k"]) (auto simp: hoare_def sccf.ok_def)
  with sccf.safe_mem_calibrate [of False k M] show ?thesis by (auto simp: hoare_def safe_def)
qed

subsubsection \<open>The report\<close>

text \<open>What the report leaves behind: one more result, and the last write of the run.\<close>

definition reported :: "u32 list \<Rightarrow> bool \<Rightarrow> 'h scc seq \<Rightarrow> bool" where
  "reported k pass s \<longleftrightarrow> run_ok (k @ [if pass then PHY_MGR_CAL_SUCCESS else PHY_MGR_CAL_FAIL]) s \<and>
     last (wlog (io s)) =
       (if pass then (PHY_MGR_CAL_STATUS, PHY_MGR_CAL_SUCCESS)
        else (REG_FILE_FAILING_STAGE, error_stage (gbl s) OR push_bit 8 (error_substage (gbl s)) OR push_bit 16 (error_group (gbl s)))) \<and>
     (\<not> pass \<longrightarrow> recorded s)"

lemma wlog_wr: "wlog (bus_wr (scc_file M) r v h) = wlog h @ [(r, v)]"
  by (simp add: scc_file_def)

lemma report_result_reports:
  "hoare (\<lambda>s. run_ok k s \<and> (\<not> pass \<longrightarrow> recorded s)) (report_result (scc_file M) pass) (\<lambda>_. reported k pass)"
proof -
  have wr: "scc_inv k' (bus_wr (scc_file M) r v h)" if "scc_inv k' h" "\<not> scc_delay r" "r \<noteq> PHY_MGR_CAL_STATUS" for k' r v h
    using scc_inv_wr [OF that(1), of r v M] that by (simp add: legal_def)
  have st: "scc_inv (k' @ [v]) (bus_wr (scc_file M) PHY_MGR_CAL_STATUS v h)" if "scc_inv k' h" "v \<noteq> 0" for k' v h
    using scc_inv_wr [OF that(1), of PHY_MGR_CAL_STATUS v M] that by (simp add: legal_def)
  show ?thesis
    by (auto simp: hoare_def report_result_def reported_def recorded_def sccf.ok_def wlog_wr config_simps intro!: wr st)
qed

lemma run_mem_calibrate_reports: "hoare (run_ok k) (run_mem_calibrate (scc_file M)) (reported k)"
proof -
  let ?M = "scc_file M"
  have handed: "hoare (\<lambda>s. run_ok k s \<and> (\<not> pass \<longrightarrow> recorded s)) (hand_back ?M c) (\<lambda>_ s. run_ok k s \<and> (\<not> pass \<longrightarrow> recorded s))" for pass c
    unfolding hand_back_def
    by (rule keeps_recorded) (auto intro!: safe_intros sccf.safe_precharge sccf.safe_mem_handoff sccf.safe_iowr_other)
  have safe: "safe (run_ok k) (iowr ?M PHY_MGR_CAL_STATUS PHY_MGR_CAL_RESET)" "safe (run_ok k) (iord ?M r)"
    "safe (run_ok k) (iowr ?M CTRL_CONFIG_REG x)" "safe (run_ok k) (initialize ?M)" "safe (run_ok k) (rw_mgr_mem_initialize ?M)" for r x
    by (auto simp: config_simps intro!: sccf.safe_iowr_other sccf.safe_iord sccf.safe_initialize sccf.safe_mem_initialize)
  show ?thesis
    unfolding run_mem_calibrate_def
    by (intro hoare_bind [OF hoare_of_safe [OF safe(1)]] hoare_bind [OF hoare_of_safe [OF safe(2)]]
        hoare_bind [OF hoare_of_safe [OF safe(3)]] hoare_bind [OF hoare_of_safe [OF safe(4)]]
        hoare_bind [OF hoare_of_safe [OF safe(5)]] hoare_bind [OF mem_calibrate_records] hoare_bind [OF handed]
        hoare_bind [OF report_result_reports] hoare_ret)
qed

subsubsection \<open>The whole run\<close>

lemma keep_inv:
  "\<not> scc_delay r \<Longrightarrow> (r = PHY_MGR_CAL_STATUS \<longrightarrow> v = 0) \<Longrightarrow> safe (\<lambda>s. scc_inv k (io s)) (iowr (scc_file M) r v)"
  "safe (\<lambda>s. scc_inv k (io s)) (iord (scc_file M) r)" "safe (\<lambda>s. scc_inv k (io s)) (upd_gbl g)" "safe (\<lambda>s. scc_inv k (io s)) (upd_param p)"
  by (auto simp: safe_def sccf.rd_inv routine_def legal_def intro!: sccf.wr_inv)

text \<open>The preparations do not depend on what the variables hold.\<close>

lemma keep_inv_start:
  "safe (\<lambda>s. scc_inv k (io s)) (initialize_reg_file (scc_file M))" "safe (\<lambda>s. scc_inv k (io s)) (initialize_hps_phy (scc_file M) X)"
  "safe (\<lambda>s. scc_inv k (io s)) (scc_mgr_initialize (scc_file M))" "safe (\<lambda>s. scc_inv k (io s)) (initialize_tracking (scc_file M))"
  "safe (\<lambda>s. scc_inv k (io s)) (hc_initialize_rom_data (scc_file M))"
  "safe (\<lambda>s. scc_inv k (io s)) (reg_file_set_stage (scc_file M) x)" "safe (\<lambda>s. scc_inv k (io s)) (reg_file_set_group (scc_file M) x)"
  unfolding initialize_reg_file_def initialize_hps_phy_def scc_mgr_initialize_def initialize_tracking_def
    hc_initialize_rom_data_def reg_file_set_stage_def reg_file_set_group_def Let_def
  by (intro safe_intros keep_inv; simp)+

lemma sdram_calibration_reports:
  "hoare (\<lambda>s. scc_inv k (io s)) (sdram_calibration (scc_file M) X) (reported k)"
proof -
  have steps: "hoare (\<lambda>s. scc_inv k (io s)) (set_steps STATIC_CALIB_STEPS) (\<lambda>_. run_ok k)"
    by (auto simp: hoare_def sccf.ok_def config_simps)
  have delay: "hoare (run_ok k) (set_delay_mask x) (\<lambda>_. run_ok k)" for x
    by (rule hoare_of_safe [OF sccf.safe_set_delay_mask])
  show ?thesis
    unfolding sdram_calibration_def
    by (intro hoare_bind [OF hoare_of_safe [OF keep_inv(3)]] hoare_bind [OF hoare_of_safe [OF keep_inv_start(1)]]
        hoare_bind [OF hoare_of_safe [OF keep_inv_start(2)]] hoare_bind [OF hoare_of_safe [OF keep_inv_start(3)]]
        hoare_bind [OF hoare_of_safe [OF keep_inv_start(4)]] hoare_bind [OF hoare_of_safe [OF safe_for_each [OF keep_inv(4)]]]
        hoare_bind [OF hoare_of_safe [OF keep_inv(4)]] hoare_bind [OF hoare_of_safe [OF keep_inv_start(5)]]
        hoare_bind [OF hoare_of_safe [OF keep_inv_start(6)]] hoare_bind [OF hoare_of_safe [OF keep_inv_start(7)]]
        hoare_bind [OF steps] hoare_bind [OF hoare_gets] hoare_bind [OF delay] run_mem_calibrate_reports)
qed

text \<open>
  C3: whatever the hardware behind the delay registers answers, every value that a complete calibration writes to a
  delay or phase register is one that the register can hold, for a group and a pin that exist; and so
  are the settings it leaves.
\<close>

theorem calibration_settings_legal:
  assumes "\<And>r b. delay_max r = Some b \<Longrightarrow> delays (io s) r \<le> b" and "wlog (io s) = []"
    and "run_state (sdram_calibration (scc_file M) X) s = (pass, s')"
  shows "(\<forall>(r, v) \<in> set (wlog (io s')). legal r v) \<and> (\<forall>r b. delay_max r = Some b \<longrightarrow> delays (io s') r \<le> b)"
proof -
  have "scc_inv [] (io s)" using assms(1,2) by (simp add: scc_inv_def cal_results_def)
  then have "reported [] pass s'" using sdram_calibration_reports [of "[]" M X] assms(3) by (auto simp: hoare_def)
  then show ?thesis by (auto simp: reported_def sccf.ok_def scc_inv_def)
qed

text \<open>
  C4: a complete calibration reports exactly one result, at its end: success when it passes, failure when it
  does not.  When it fails it has recorded a stage, and the last thing it writes is the failing stage, substage
  and group.
\<close>

theorem calibration_reports_result:
  assumes "\<And>r b. delay_max r = Some b \<Longrightarrow> delays (io s) r \<le> b" and "wlog (io s) = []"
    and "run_state (sdram_calibration (scc_file M) X) s = (pass, s')"
  shows "cal_results (wlog (io s')) = [if pass then PHY_MGR_CAL_SUCCESS else PHY_MGR_CAL_FAIL] \<and>
     (if pass then last (wlog (io s')) = (PHY_MGR_CAL_STATUS, PHY_MGR_CAL_SUCCESS)
      else error_stage (gbl s') \<noteq> CAL_STAGE_NIL \<and> last (wlog (io s')) = (REG_FILE_FAILING_STAGE,
        error_stage (gbl s') OR push_bit 8 (error_substage (gbl s')) OR push_bit 16 (error_group (gbl s'))))"
proof -
  have "scc_inv [] (io s)" using assms(1,2) by (simp add: scc_inv_def cal_results_def)
  then have "reported [] pass s'" using sdram_calibration_reports [of "[]" M X] assms(3) by (auto simp: hoare_def)
  then show ?thesis by (auto simp: reported_def sccf.ok_def scc_inv_def recorded_def)
qed

text \<open>
  The settings without calibration are not covered: the output phase they ask for is not one that
  the register can hold.  Calibration never takes this way, since the steps to skip are fixed.
\<close>

lemma mem_skip_phase_illegal:
  "(SCC_MGR_DQDQS_OUT_PHASE 0, 8) \<in> set (wlog (io (snd (run_state (mem_skip_calibrate (scc_file M)) s))))"
  "\<not> legal (SCC_MGR_DQDQS_OUT_PHASE 0) 8"
proof -
  have grow: "x \<in> set (wlog (io s)) \<Longrightarrow> x \<in> set (wlog (io (snd (run_state (for_each (\<lambda>j. iowr (scc_file M) r v) xs) s))))"
    for x xs r v and s :: "'a scc seq"
    by (induction xs arbitrary: s) (auto simp: wlog_wr)
  show "(SCC_MGR_DQDQS_OUT_PHASE 0, 8) \<in> set (wlog (io (snd (run_state (mem_skip_calibrate (scc_file M)) s))))"
    by (simp add: mem_skip_calibrate_def scc_mgr_set_dqdqs_output_phase_def scc_mgr_set_dqs_en_phase_def
      scc_mgr_set_dqs_bus_in_delay_def scc_mgr_load_dqs_def config_simps wlog_wr split_beta grow)
  show "\<not> legal (SCC_MGR_DQDQS_OUT_PHASE 0) 8" by (simp add: legal_def config_simps)
qed

text \<open>A header of the hardware library and a start state to try the theorems on.\<close>

definition some_sdr :: sdr where
  "some_sdr = \<lparr>ACDELAYEN_SET = (\<lambda>x. x), DQDELAYEN_SET = push_bit 2, DQSDELAYEN_SET = push_bit 4,
     DQSLOGICDELAYEN_SET = push_bit 6, RESETDELAYEN_SET = push_bit 8, LPDDRDIS_SET = push_bit 9,
     ADDLATSEL_SET = push_bit 10, SAMPLECOUNT_19_0_SET = push_bit 12, SAMPLECOUNT_19_0_WIDTH = 20,
     SAMPLECOUNT_31_20_SET = (\<lambda>x. x), LONGIDLESAMPLECOUNT_19_0_SET = push_bit 12, LONGIDLESAMPLECOUNT_19_0_WIDTH = 20,
     LONGIDLESAMPLECOUNT_31_20_SET = (\<lambda>x. x), PHYCTRL_0_OFFSET = 0x150, PHYCTRL_1_OFFSET = 0x154, PHYCTRL_2_OFFSET = 0x158\<rparr>"

definition some_start :: "(reg \<Rightarrow> u32) scc seq" where
  "some_start = start_seq \<lparr>behind = (\<lambda>_. 0), delays = (\<lambda>_. 0), wlog = []\<rparr>"

lemma some_start_simps [simp]: "delays (io some_start) = (\<lambda>_. 0)" "wlog (io some_start) = []"
  by (simp_all add: some_start_def start_seq_def)

theorem calibration_settings_legal_witness:
  "list_all (\<lambda>(r, v). legal r v) (wlog (io (snd (run_state (sdram_calibration (scc_file memory_bus) some_sdr) some_start))))"
  using calibration_settings_legal [of some_start, OF _ _ surjective_pairing] by (simp add: list_all_iff)

theorem calibration_reports_result_witness:
  "let (pass, s') = run_state (sdram_calibration (scc_file memory_bus) some_sdr) some_start
   in cal_results (wlog (io s')) = [if pass then 1 else 2]"
  using calibration_reports_result [of some_start, OF _ _ surjective_pairing, of memory_bus some_sdr]
  by (simp add: config_simps split_beta Let_def)

end
