(* ===== verification/SeqAddr.thy ===== *)
theory SeqAddr
  imports SeqBase
begin

text \<open>
  The address map of the registers (\<open>sequencer.h\<close>, \<open>sdram_io.h\<close>): no two registers with an address in the sources
  share an address, neither on the bus nor for the processor, whose address is put together from
  the base of a block and some bits of the bus address.
\<close>

text \<open>
  All registers of this configuration whose addresses are in the sources, by their address.  The three registers
  of the memory controller that \<open>initialize_hps_phy\<close> writes have their offsets in a header of the processor's hardware library.
\<close>

definition registers :: "reg list" where
  "registers =
     SCC_MGR_GROUP_COUNTER # map SCC_MGR_DQS_IN_DELAY [0, 1, 2, 3] @ map SCC_MGR_DQS_EN_PHASE [0, 1, 2, 3] @
     map SCC_MGR_DQS_EN_DELAY [0, 1, 2, 3] @ map SCC_MGR_DQDQS_OUT_PHASE [0, 1, 2, 3] @ map SCC_MGR_OCT_OUT1_DELAY [0, 1, 2, 3] @
     map SCC_MGR_IO_OUT1_DELAY [0, 1, 2, 3, 4, 5, 6, 7, 8, 9] @ map SCC_MGR_IO_IN_DELAY [0, 1, 2, 3, 4, 5, 6, 7, 8, 9] @
     [SCC_MGR_HHP_GLOBALS 0] @ map SCC_MGR_HHP_RFILE [0, 1, 2, 3, 4, 5, 6, 7, 8, 9, 10, 11, 12, 13, 14, 15] @
     [SCC_MGR_AFI_CAL_INIT, SCC_MGR_DQS_ENA, SCC_MGR_DQS_IO_ENA, SCC_MGR_DQ_ENA, SCC_MGR_DM_ENA, SCC_MGR_UPD,
      REG_FILE_SIGNATURE, REG_FILE_DEBUG_DATA_ADDR, REG_FILE_CUR_STAGE, REG_FILE_FOM, REG_FILE_FAILING_STAGE,
      REG_FILE_DEBUG1, REG_FILE_DEBUG2, REG_FILE_DTAPS_PER_PTAP, REG_FILE_TRK_SAMPLE_COUNT, REG_FILE_TRK_LONGIDLE,
      REG_FILE_DELAYS, REG_FILE_TRK_RW_MGR_ADDR, REG_FILE_TRK_READ_DQS_WIDTH, REG_FILE_TRK_RFSH,
      PHY_MGR_CMD_INC_VFIFO_FR, PHY_MGR_CMD_INC_VFIFO_HARD_PHY, PHY_MGR_CMD_FIFO_RESET, PHY_MGR_PHY_RLAT,
      PHY_MGR_RESET_MEM_STBL, PHY_MGR_MUX_SEL, PHY_MGR_CAL_STATUS, PHY_MGR_CAL_DEBUG_INFO, PHY_MGR_AFI_WLAT] @
     map RW_MGR_RUN_SINGLE_GROUP [0, 1, 2, 3] @ map RW_MGR_RUN_ALL_GROUPS [0, 1, 2, 3] @
     [RW_MGR_LOAD_CNTR_0, RW_MGR_LOAD_CNTR_1, RW_MGR_LOAD_CNTR_2, RW_MGR_LOAD_CNTR_3,
      RW_MGR_LOAD_JUMP_ADD_0, RW_MGR_LOAD_JUMP_ADD_1, RW_MGR_LOAD_JUMP_ADD_2, RW_MGR_LOAD_JUMP_ADD_3,
      RW_MGR_RESET_READ_DATAPATH, RW_MGR_SET_CS_AND_ODT_MASK] @
     map (\<lambda>i. RW_MGR_INST_ROM_WRITE (of_nat i)) [0..<inst_rom_init_size] @
     map (\<lambda>i. RW_MGR_AC_ROM_WRITE (of_nat i)) [0..<ac_rom_init_size] @
     [DATA_MGR_MEM_T_WL, DATA_MGR_MEM_T_ADD, DATA_MGR_MEM_T_RL, MMR 0]"

text \<open>The six blocks, and the part of an address within its block.\<close>

definition block_base :: "apb \<Rightarrow> nat \<Rightarrow> u32" where
  "block_base B i = [APB_BASE_SCC_MGR B, APB_BASE_REG_FILE B, APB_BASE_PHY_MGR B, APB_BASE_RW_MGR B, APB_BASE_DATA_MGR B, APB_BASE_MMR B] ! i"

definition block_mask :: "nat \<Rightarrow> u32" where
  "block_mask i = [0xfff, 0x7ff, 0x7f, 0x1fff, 0x7ff, 0xfff] ! i"

definition decode :: "u32 \<Rightarrow> nat \<times> u32" where
  "decode a =
     (if a AND MGR_SELECT_MASK = BASE_PHY_MGR then (2, (drop_bit 8 a AND 0x40) OR (a AND 0x3f))
      else if a AND MGR_SELECT_MASK = BASE_RW_MGR then (3, a AND 0x1fff)
      else if a AND MGR_SELECT_MASK = BASE_DATA_MGR then (4, a AND 0x7ff)
      else if a AND MGR_SELECT_MASK = BASE_SCC_MGR then (0, a AND 0xfff)
      else if a AND MGR_SELECT_MASK = BASE_REG_FILE then (1, a AND 0x7ff)
      else if a AND MGR_SELECT_MASK = BASE_MMR then (5, a AND 0xfff)
      else (6, 0))"

text \<open>The layout the hardware has to give: blocks on their own ranges, at bases whose lower bits are 0.\<close>

definition apb_layout :: "apb \<Rightarrow> bool" where
  "apb_layout B \<longleftrightarrow> (\<forall>i < 6. block_base B i AND block_mask i = 0 \<and> uint (block_base B i) + uint (block_mask i) < 2 ^ 32) \<and>
     (\<forall>i < 6. \<forall>j < 6. i \<noteq> j \<longrightarrow> uint (block_base B i) + uint (block_mask i) < uint (block_base B j) \<or>
        uint (block_base B j) + uint (block_mask j) < uint (block_base B i))"

text \<open>A key that grows along the list.\<close>

definition decode_key :: "reg \<Rightarrow> int" where
  "decode_key r = (case decode (reg_addr r) of (i, off) \<Rightarrow> int i * 8192 + uint off)"

lemma keys_grow: "successively (<) (map decode_key registers)"
  by code_simp

lemma keys_blocks: "list_all (\<lambda>r. fst (decode (reg_addr r)) < 6) registers"
  by code_simp

lemma keys_distinct: "distinct (map decode_key registers)"
proof -
  have "sorted_wrt (<) (map decode_key registers)"
    using keys_grow by (simp add: successively_conv_sorted_wrt transp_on_less)
  then show ?thesis using strict_sorted_iff by blast
qed

lemma AVL_TO_APB_decode:
  assumes "decode a = (i, off)" and "i < 6"
  shows "AVL_TO_APB B a = block_base B i OR off" and "off AND block_mask i = off"
proof -
  have "(drop_bit 8 a AND 64 OR (a AND 63)) AND 127 = drop_bit 8 a AND 64 OR (a AND 63)"
    by (simp add: bit.conj_disj_distrib2 and.assoc)
  with assms show "off AND block_mask i = off"
    by (auto simp: decode_def block_mask_def and.assoc split: if_splits)
  show "AVL_TO_APB B a = block_base B i OR off"
    using assms by (auto simp: decode_def AVL_TO_APB_def block_base_def or.assoc split: if_splits)
qed

lemma block_address:
  assumes "apb_layout B" and "i < 6" and "off AND block_mask i = off"
  shows "uint (block_base B i OR off) = uint (block_base B i) + uint off" and "uint off \<le> uint (block_mask i)"
proof -
  have "off AND block_mask i \<le> block_mask i" by (rule word_and_le1)
  then show le: "uint off \<le> uint (block_mask i)" using assms(3) by (simp add: word_le_def)
  have "block_base B i AND off = (block_base B i AND block_mask i) AND off"
    using assms(3) by (metis and.assoc and.commute)
  then have "block_base B i OR off = block_base B i + off"
    using assms(1,2) word_plus_and_or [of "block_base B i" off] by (simp add: apb_layout_def)
  moreover have "uint (block_base B i) + uint off < 2 ^ 32"
    using assms(1,2) le unfolding apb_layout_def by force
  ultimately show "uint (block_base B i OR off) = uint (block_base B i) + uint off"
    by (simp add: uint_word_ariths mod_pos_pos_trivial)
qed

lemma register_address_cases:
  assumes "r \<in> set registers" and "r' \<in> set registers" and "apb_layout B"
    and "AVL_TO_APB B (reg_addr r) = AVL_TO_APB B (reg_addr r')"
  shows "decode_key r = decode_key r'"
proof -
  obtain i off j off' where d: "decode (reg_addr r) = (i, off)" "decode (reg_addr r') = (j, off')" by (metis surj_pair)
  have "i < 6" "j < 6" using keys_blocks assms(1,2) d by (auto simp: list_all_iff)
  note r = AVL_TO_APB_decode [OF d(1) \<open>i < 6\<close>] and r' = AVL_TO_APB_decode [OF d(2) \<open>j < 6\<close>]
  note a = block_address [OF assms(3) \<open>i < 6\<close> r(2)] and a' = block_address [OF assms(3) \<open>j < 6\<close> r'(2)]
  have eq: "uint (block_base B i) + uint off = uint (block_base B j) + uint off'"
    using assms(4) r(1) r'(1) a(1) a'(1) by simp
  have "i = j"
  proof (rule ccontr)
    assume "i \<noteq> j"
    then have "uint (block_base B i) + uint (block_mask i) < uint (block_base B j) \<or>
        uint (block_base B j) + uint (block_mask j) < uint (block_base B i)"
      using assms(3) \<open>i < 6\<close> \<open>j < 6\<close> by (auto simp: apb_layout_def)
    moreover have "0 \<le> uint off" "0 \<le> uint off'" by simp_all
    ultimately show False using eq a(2) a'(2) by linarith
  qed
  with eq d show ?thesis by (simp add: decode_key_def)
qed

text \<open>
  C36: the registers the sequencer uses and whose addresses the sources give have different addresses for the
  processor, provided that the hardware places the six blocks on ranges of their own: no access to one register
  reaches another.
\<close>

theorem register_addresses_distinct:
  assumes "apb_layout B"
  shows "distinct (map (\<lambda>r. AVL_TO_APB B (reg_addr r)) registers)"
proof -
  have keys: "distinct registers" "inj_on decode_key (set registers)"
    using keys_distinct by (simp_all add: distinct_map)
  then have "inj_on (\<lambda>r. AVL_TO_APB B (reg_addr r)) (set registers)"
    by (intro inj_onI) (metis register_address_cases [OF _ _ assms] inj_onD)
  with keys(1) show ?thesis by (simp add: distinct_map)
qed

text \<open>A layout like the one of the processor's manual.\<close>

definition some_apb :: apb where
  "some_apb = \<lparr>APB_BASE_SCC_MGR = 0x0, APB_BASE_PHY_MGR = 0x1000, APB_BASE_RW_MGR = 0x2000, APB_BASE_DATA_MGR = 0x4000,
     APB_BASE_REG_FILE = 0x4800, APB_BASE_MMR = 0x5000\<rparr>"

lemma some_apb_layout: "apb_layout some_apb"
proof -
  have six: "(\<forall>i < 6. P i) \<longleftrightarrow> P 0 \<and> P 1 \<and> P 2 \<and> P 3 \<and> P 4 \<and> P 5" for P :: "nat \<Rightarrow> bool"
    by (simp add: eval_nat_numeral All_less_Suc conj_ac)
  show ?thesis by (simp add: apb_layout_def six block_base_def block_mask_def some_apb_def)
qed

theorem register_addresses_distinct_witness:
  "AVL_TO_APB some_apb (reg_addr PHY_MGR_CAL_STATUS) \<noteq> AVL_TO_APB some_apb (reg_addr REG_FILE_FAILING_STAGE)"
proof -
  have "inj_on (\<lambda>r. AVL_TO_APB some_apb (reg_addr r)) (set registers)"
    using register_addresses_distinct [OF some_apb_layout] by (simp only: distinct_map)
  moreover have "PHY_MGR_CAL_STATUS \<in> set registers" "REG_FILE_FAILING_STAGE \<in> set registers"
    by (simp_all add: registers_def)
  ultimately show ?thesis
    using inj_onD [of _ _ PHY_MGR_CAL_STATUS REG_FILE_FAILING_STAGE] by blast
qed

end
