(* ===== verification/SeqEdges.thy ===== *)
theory SeqEdges
  imports SeqRead
begin

text \<open>
  The searches for the edges of the data windows, for reads and for writes.  The hardware is one on which bit \<open>i\<close> of a
  group works exactly when its position, the delay of the strobe less the delay of the pin, lies in a window
  from \<open>lo i\<close> to \<open>hi i\<close>.  The two searches and the setting of the pins are stated here with the movements and the test as
  arguments; the locale \<open>pin_group\<close> says what these have to do, and inside it the edges are given in closed
  form, with all early exits and marks.  The read and the write calibration are instances.
\<close>

subsection \<open>Loops over the pins\<close>

text \<open>A loop over the pins whose steps only touch their own pin.\<close>

lemma fold_pins:
  assumes "\<And>i l r. f i (l, r) = (l[i := u i (l ! i) (r ! i)], r[i := v i (l ! i) (r ! i)])"
    and "distinct is" "\<forall>i \<in> set is. i < length l \<and> i < length r"
  shows "\<exists>l' r'. fold f is (l, r) = (l', r') \<and> length l' = length l \<and> length r' = length r \<and>
    (\<forall>i. l' ! i = (if i \<in> set is then u i (l ! i) (r ! i) else l ! i) \<and>
         r' ! i = (if i \<in> set is then v i (l ! i) (r ! i) else r ! i))"
  using assms(2,3)
proof (induction "is" arbitrary: l r)
  case (Cons k ks)
  let ?l = "l[k := u k (l ! k) (r ! k)]" and ?r = "r[k := v k (l ! k) (r ! k)]"
  have k: "?l ! k = u k (l ! k) (r ! k)" "?r ! k = v k (l ! k) (r ! k)" "\<And>i. i \<noteq> k \<Longrightarrow> ?l ! i = l ! i \<and> ?r ! i = r ! i"
    using Cons.prems by simp_all
  obtain l' r' where "fold f ks (?l, ?r) = (l', r')" "length l' = length l" "length r' = length r"
    "\<forall>i. l' ! i = (if i \<in> set ks then u i (?l ! i) (?r ! i) else ?l ! i) \<and>
         r' ! i = (if i \<in> set ks then v i (?l ! i) (?r ! i) else ?r ! i)"
    using Cons.IH [of ?l ?r] Cons.prems by auto
  note ih = this
  have "l' ! i = (if i \<in> set (k # ks) then u i (l ! i) (r ! i) else l ! i) \<and>
      r' ! i = (if i \<in> set (k # ks) then v i (l ! i) (r ! i) else r ! i)" for i
    using ih(4) k Cons.prems(1) by (cases "i = k") auto
  then show ?case using ih(1-3) by (auto simp: assms(1))
qed simp

text \<open>Collecting a condition per pin into a word.\<close>

lemma bit_collect:
  fixes w :: u32
  assumes "n \<le> 32" "j < 32"
  shows "bit (fold (\<lambda>i w. if c i then push_bit 1 w OR 1 else push_bit 1 w) (rev [0..<n]) w) j \<longleftrightarrow>
    (if j < n then c j else bit w (j - n))"
  using assms(1)
proof (induction n arbitrary: w)
  case (Suc n)
  have "bit (if c n then push_bit 1 w OR 1 else push_bit 1 w) (j - n) \<longleftrightarrow> (if j = n then c n else bit w (j - Suc n))"
    if "n \<le> j" using that assms(2) by (cases "j = n") (auto simp: bit_or_iff bit_push_bit_iff bit_1_iff simp del: push_bit_Suc)
  then show ?case using Suc.IH [of "if c n then push_bit 1 w OR 1 else push_bit 1 w"] Suc.prems
    by (auto simp: not_less le_less_Suc_eq)
qed simp

lemma update_same: "xs ! i = x \<Longrightarrow> xs[i := x] = xs"
  by auto

lemma mark_left_nth:
  assumes "length l = 8" "length r = 8"
  shows "\<exists>l' r'. mark_left d c (l, r) = (l', r') \<and> length l' = 8 \<and> length r' = 8 \<and>
    (\<forall>i<8. l' ! i = (if bit c i then d else l ! i) \<and> r' ! i = (if \<not> bit c i \<and> l ! i = no_edge then - (d + 1) else r ! i))"
proof -
  have "(if bit c i then (l[i := d], r) else if l ! i = no_edge then (l, r[i := - (d + 1)]) else (l, r)) =
      (l[i := if bit c i then d else l ! i], r[i := if \<not> bit c i \<and> l ! i = no_edge then - (d + 1) else r ! i])" for i l r
    by simp
  from fold_pins [of "\<lambda>i (l, r). if bit c i then (l[i := d], r) else if l ! i = no_edge then (l, r[i := - (d + 1)]) else (l, r)",
      OF _ distinct_upt, unfolded split_conv, OF this, of 0 8 l r] show ?thesis
    using assms by (auto simp: mark_left_def)
qed

lemma mark_right_nth:
  assumes "length l = 8" "length r = 8"
  shows "\<exists>l' r'. mark_right d c (l, r) = (l', r') \<and> length l' = 8 \<and> length r' = 8 \<and>
    (\<forall>i<8. l' ! i = (if \<not> bit c i \<and> r ! i = no_edge \<and> (d \<noteq> 0 \<or> l ! i = no_edge) then - (d + 1) else l ! i) \<and>
          r' ! i = (if bit c i then d else if d = 0 \<and> r ! i = no_edge \<and> l ! i \<noteq> no_edge then - 1 else r ! i))"
proof -
  have "(if bit c i then (l, r[i := d])
     else if d \<noteq> 0 then (if r ! i = no_edge then (l[i := - (d + 1)], r) else (l, r))
     else if r ! i = no_edge \<and> l ! i \<noteq> no_edge then (l, r[i := - 1])
     else if r ! i = no_edge then (l[i := - (d + 1)], r) else (l, r)) =
      (l[i := if \<not> bit c i \<and> r ! i = no_edge \<and> (d \<noteq> 0 \<or> l ! i = no_edge) then - (d + 1) else l ! i],
       r[i := if bit c i then d else if d = 0 \<and> r ! i = no_edge \<and> l ! i \<noteq> no_edge then - 1 else r ! i])" for i l r
    by (simp add: update_same)
  from fold_pins [of "\<lambda>i (l, r). if bit c i then (l, r[i := d])
     else if d \<noteq> 0 then (if r ! i = no_edge then (l[i := - (d + 1)], r) else (l, r))
     else if r ! i = no_edge \<and> l ! i \<noteq> no_edge then (l, r[i := - 1])
     else if r ! i = no_edge then (l[i := - (d + 1)], r) else (l, r)",
      OF _ distinct_upt, unfolded split_conv, OF this, of 0 8 l r] show ?thesis
    using assms by (auto simp: mark_right_def)
qed

lemma drop_right_nth:
  assumes "length l = 8" "length r = 8"
  shows "\<exists>l' r'. drop_right (l, r) = (l', r') \<and> length l' = 8 \<and> length r' = 8 \<and>
    (\<forall>i<8. l' ! i = l ! i \<and> r' ! i = (if l ! i = no_edge then no_edge else r ! i))"
proof -
  have "(if l ! i = no_edge \<and> r ! i \<noteq> no_edge then (l, r[i := no_edge]) else (l, r)) =
      (l[i := l ! i], r[i := if l ! i = no_edge then no_edge else r ! i])" for i and l r :: "int list"
    by (auto simp: update_same)
  from fold_pins [of "\<lambda>i (l, r). if l ! i = no_edge \<and> r ! i \<noteq> no_edge then (l, r[i := no_edge]) else (l, r)" _ _ "rev [0..<8]" l r,
      unfolded split_conv, OF this] show ?thesis
    using assms by (auto simp: drop_right_def)
qed

lemma bit_seen_edges: "i < 32 \<Longrightarrow> bit (seen_edges (l, r)) i \<longleftrightarrow> i < 8 \<and> l ! i \<noteq> no_edge \<and> r ! i \<noteq> no_edge"
  using bit_collect [of 8 i "\<lambda>i. l ! i \<noteq> no_edge \<and> r ! i \<noteq> no_edge" 0] by (simp add: seen_edges_def)

subsection \<open>The edges\<close>

text \<open>The bits that are read correctly when all pins of the group are at position \<open>x\<close>.\<close>

definition eye_bits :: "(nat \<Rightarrow> int) \<Rightarrow> (nat \<Rightarrow> int) \<Rightarrow> int \<Rightarrow> u32" where
  "eye_bits lo hi x = fold (\<lambda>i w. if lo i \<le> x \<and> x \<le> hi i then push_bit 1 w OR 1 else push_bit 1 w) (rev [0..<8]) 0"

lemma bit_eye: "i < 32 \<Longrightarrow> bit (eye_bits lo hi x) i \<longleftrightarrow> i < 8 \<and> lo i \<le> x \<and> x \<le> hi i"
  using bit_collect [of 8 i "\<lambda>i. lo i \<le> x \<and> x \<le> hi i" 0] by (simp add: eye_bits_def)

lemma word_bits: "w = w' \<longleftrightarrow> (\<forall>i<32. bit w i \<longleftrightarrow> bit w' i)" for w w' :: u32
  by (auto intro!: bit_word_eqI)

lemma bit_ff: "bit (0xff :: u32) i \<longleftrightarrow> i < 8"
proof -
  have "(0xff :: u32) = mask 8" by (simp add: mask_eq_exp_minus_1)
  then show ?thesis by (simp only: bit_mask_iff) auto
qed

lemma eye_bits_0: "eye_bits lo hi x = 0 \<longleftrightarrow> (\<forall>i<8. \<not> (lo i \<le> x \<and> x \<le> hi i))"
  by (auto simp: word_bits bit_eye)

lemma eye_bits_test:
  assumes "\<And>i. i < 8 \<Longrightarrow> bit (v :: u32) i \<longleftrightarrow> \<not> (lo i \<le> x \<and> x \<le> hi i)"
  shows "0xff AND NOT v = eye_bits lo hi x"
  unfolding word_bits bit_and_iff bit_not_iff bit_ff by (auto simp: bit_eye assms)

text \<open>One step of the left search, at data delay \<open>d\<close>.  The pin passes from \<open>s - hi\<close> to \<open>s - lo\<close>.\<close>

definition left_step :: "(nat \<Rightarrow> int) \<Rightarrow> (nat \<Rightarrow> int) \<Rightarrow> int \<Rightarrow> int \<Rightarrow> u32 \<times> int list \<times> int list \<Rightarrow> bool \<times> u32 \<times> int list \<times> int list" where
  "left_step lo hi s d l = (case l of (k, e) \<Rightarrow>
     let c = eye_bits lo hi (s - d); k = k OR c
     in if c = 0 \<and> k = 0xff then (True, (k, e)) else (False, (k, mark_left d c e)))"

definition left_inv :: "(nat \<Rightarrow> int) \<Rightarrow> (nat \<Rightarrow> int) \<Rightarrow> int \<Rightarrow> int \<Rightarrow> u32 \<times> int list \<times> int list \<Rightarrow> bool" where
  "left_inv lo hi s n x = (case x of (k, l, r) \<Rightarrow> length l = 8 \<and> length r = 8 \<and> (\<forall>i<32. bit k i \<longrightarrow> i < 8) \<and>
     (\<forall>i<8. let a = s - hi i; b = s - lo i in
        (bit k i \<longleftrightarrow> 0 \<le> b \<and> a < n \<and> 0 < n) \<and>
        l ! i = (if 0 \<le> b \<and> a < n \<and> 0 < n then min b (n - 1) else 32) \<and>
        r ! i = (let q = (if b < 0 then n else min n a) in if q \<le> 0 then 32 else - q)))"

definition left_found :: "(nat \<Rightarrow> int) \<Rightarrow> (nat \<Rightarrow> int) \<Rightarrow> int \<Rightarrow> int list \<times> int list \<Rightarrow> bool" where
  "left_found lo hi s e = (case e of (l, r) \<Rightarrow> length l = 8 \<and> length r = 8 \<and>
     (\<forall>i<8. let a = s - hi i; b = s - lo i in
        if 0 \<le> b \<and> a \<le> 31 then l ! i = min b 31 \<and> r ! i = (if a \<le> 0 then 32 else - a) else l ! i = 32))"

lemma left_inv_step:
  assumes win: "\<forall>i<8. lo i \<le> hi i" and inv: "left_inv lo hi s n x" and n: "0 \<le> n" "n \<le> 31"
    and step: "left_step lo hi s n x = (br, k', e')"
  shows "if br then left_found lo hi s e' else left_inv lo hi s (n + 1) (k', e')"
proof -
  obtain k l r where x: "x = (k, l, r)" by (cases x) auto
  let ?c = "eye_bits lo hi (s - n)"
  have len: "length l = 8" "length r = 8" using inv by (auto simp: left_inv_def x)
  have pin: "bit k i \<longleftrightarrow> 0 \<le> s - lo i \<and> s - hi i < n \<and> 0 < n"
    "l ! i = (if 0 \<le> s - lo i \<and> s - hi i < n \<and> 0 < n then min (s - lo i) (n - 1) else 32)"
    "r ! i = (let q = (if s - lo i < 0 then n else min n (s - hi i)) in if q \<le> 0 then 32 else - q)"
    if "i < 8" for i using inv that by (auto simp: left_inv_def x Let_def)
  have hi8: "\<forall>i<32. bit k i \<longrightarrow> i < 8" using inv by (auto simp: left_inv_def x)
  have c: "bit ?c i \<longleftrightarrow> s - hi i \<le> n \<and> n \<le> s - lo i" if "i < 8" for i using that by (auto simp: bit_eye)
  show ?thesis
  proof (cases br)
    case True
    then have "?c = 0" "k OR ?c = 0xff" "e' = (l, r)" using step by (auto simp: left_step_def x Let_def split: if_splits)
    then have "k = 0xff" "\<forall>i<8. \<not> (lo i \<le> s - n \<and> s - n \<le> hi i)"
      using eye_bits_0 [of lo hi "s - n"] by auto
    note full = this
    have "bit k i" if "i < 8" for i using that bit_ff full(1) by metis
    moreover have "\<not> (s - hi i \<le> n \<and> n \<le> s - lo i)" if "i < 8" for i
      using full(2) [rule_format, OF that] by linarith
    moreover note pin win n
    ultimately show ?thesis
      using True by (fastforce simp: left_found_def \<open>e' = (l, r)\<close> len Let_def)
  next
    case False
    obtain l' r' where m: "mark_left n ?c (l, r) = (l', r')" "length l' = 8" "length r' = 8"
      "\<And>i. i < 8 \<Longrightarrow> l' ! i = (if bit ?c i then n else l ! i) \<and> r' ! i = (if \<not> bit ?c i \<and> l ! i = 32 then - (n + 1) else r ! i)"
      using mark_left_nth [OF len, of n ?c] by (auto simp: no_edge_def)
    have "k' = k OR ?c" "e' = (l', r')" using False step m(1) by (auto simp: left_step_def x Let_def split: if_splits)
    moreover have "let a = s - hi i; b = s - lo i in
        (bit k' i \<longleftrightarrow> 0 \<le> b \<and> a < n + 1 \<and> 0 < n + 1) \<and>
        l' ! i = (if 0 \<le> b \<and> a < n + 1 \<and> 0 < n + 1 then min b (n + 1 - 1) else 32) \<and>
        r' ! i = (let q = (if b < 0 then n + 1 else min (n + 1) a) in if q \<le> 0 then 32 else - q)" if "i < 8" for i
      using m(4) [OF that] pin [OF that] c [OF that] win that n
      by (auto simp: Let_def bit_or_iff \<open>k' = k OR ?c\<close> split: if_splits)
    ultimately show ?thesis
      using False m(2,3) hi8 by (auto simp: left_inv_def bit_or_iff bit_eye)
  qed
qed

lemma left_inv_end: "left_inv lo hi s 32 (k, e) \<Longrightarrow> left_found lo hi s e"
  by (fastforce simp: left_inv_def left_found_def Let_def split: prod.splits)

text \<open>One step of the right search, with the strobe \<open>d\<close> after its start.\<close>

definition right_step :: "(nat \<Rightarrow> int) \<Rightarrow> (nat \<Rightarrow> int) \<Rightarrow> int \<Rightarrow> int \<Rightarrow> u32 \<times> int list \<times> int list \<Rightarrow> bool \<times> u32 \<times> int list \<times> int list" where
  "right_step lo hi s d l = (case l of (k, e) \<Rightarrow>
     let c = eye_bits lo hi (s + d); k = k OR c
     in if c = 0 \<and> k = 0xff then (True, (k, e)) else (False, (k, mark_right d c e)))"

definition right_inv :: "(nat \<Rightarrow> int) \<Rightarrow> (nat \<Rightarrow> int) \<Rightarrow> int \<Rightarrow> int \<Rightarrow> u32 \<times> int list \<times> int list \<Rightarrow> bool" where
  "right_inv lo hi s n x = (case x of (k, l, r) \<Rightarrow> length l = 8 \<and> length r = 8 \<and> (\<forall>i<32. bit k i \<longrightarrow> i < 8) \<and>
     (\<forall>i<8. let a = s - hi i; b = s - lo i in
        (bit k i \<longrightarrow> 0 \<le> b \<and> a \<le> 31 \<or> b < 0 \<and> - b < n) \<and>
        l ! i = (if 0 \<le> b \<and> a \<le> 31 then min b 31 else if n = 0 then 32 else if b < 0 then - min n (- b) else - n) \<and>
        r ! i = (if 0 \<le> b \<and> a \<le> 31 \<and> 0 < a then - a
                 else if 0 \<le> b \<and> a \<le> 0 \<and> 0 < n \<or> b < 0 \<and> - b < n then min (- a) (n - 1) else 32)))"

text \<open>A window is seen when it has a position between \<open>s - 31\<close> and 31.\<close>

definition right_found :: "(nat \<Rightarrow> int) \<Rightarrow> (nat \<Rightarrow> int) \<Rightarrow> int \<Rightarrow> int list \<times> int list \<Rightarrow> bool" where
  "right_found lo hi s e = (case e of (l, r) \<Rightarrow> length l = 8 \<and> length r = 8 \<and>
     (\<forall>i<8. if s - 31 \<le> hi i \<and> lo i \<le> 31 then l ! i = min (s - lo i) 31 \<and> r ! i = min (hi i - s) (31 - s) else r ! i = 32))"

lemma right_inv_start:
  assumes f: "left_found lo hi s e"
    and k: "\<forall>i<32. bit k i \<longrightarrow> i < 8 \<and> fst (drop_right e) ! i \<noteq> no_edge"
  shows "right_inv lo hi s 0 (k, drop_right e)"
proof -
  obtain l r where e: "e = (l, r)" by (cases e)
  obtain l' r' where d: "drop_right e = (l', r')" "length l' = 8" "length r' = 8"
    "\<And>i. i < 8 \<Longrightarrow> l' ! i = l ! i \<and> r' ! i = (if l ! i = 32 then 32 else r ! i)"
    using drop_right_nth [of l r] f by (auto simp: e left_found_def no_edge_def)
  have found: "if 0 \<le> s - lo i \<and> s - hi i \<le> 31 then l ! i = min (s - lo i) 31 \<and> r ! i = (if s - hi i \<le> 0 then 32 else - (s - hi i))
      else l ! i = 32" if "i < 8" for i
    using f that by (simp add: e left_found_def Let_def)
  have edge: "l' ! i = (if 0 \<le> s - lo i \<and> s - hi i \<le> 31 then min (s - lo i) 31 else 32)"
      "r' ! i = (if 0 \<le> s - lo i \<and> s - hi i \<le> 31 \<and> 0 < s - hi i then - (s - hi i) else 32)" if "i < 8" for i
    using d(4) [OF that] found [OF that] by (auto split: if_splits)
  have "0 \<le> s - lo i \<and> s - hi i \<le> 31" if "bit k i" "i < 8" for i
    using k that edge(1) [OF that(2)] by (auto simp: d(1) no_edge_def split: if_splits)
  with d(2,3) edge k show ?thesis
    by (simp add: right_inv_def d(1) no_edge_def Let_def)
qed

text \<open>The marks of one pin that passes from \<open>- b\<close> to \<open>- a\<close>.\<close>

lemma right_pin:
  fixes a b n l r :: int
  assumes "a \<le> b" "0 \<le> n" "n \<le> 31"
    and l: "l = (if 0 \<le> b \<and> a \<le> 31 then min b 31 else if n = 0 then 32 else if b < 0 then - min n (- b) else - n)"
    and r: "r = (if 0 \<le> b \<and> a \<le> 31 \<and> 0 < a then - a
                 else if 0 \<le> b \<and> a \<le> 0 \<and> 0 < n \<or> b < 0 \<and> - b < n then min (- a) (n - 1) else 32)"
    and c: "c \<longleftrightarrow> - b \<le> n \<and> n \<le> - a"
  shows "(if \<not> c \<and> r = 32 \<and> (n \<noteq> 0 \<or> l = 32) then - (n + 1) else l) =
      (if 0 \<le> b \<and> a \<le> 31 then min b 31 else if b < 0 then - min (n + 1) (- b) else - (n + 1))"
    and "(if c then n else if n = 0 \<and> r = 32 \<and> l \<noteq> 32 then - 1 else r) =
      (if 0 \<le> b \<and> a \<le> 31 \<and> 0 < a then - a
       else if 0 \<le> b \<and> a \<le> 0 \<or> b < 0 \<and> - b < n + 1 then min (- a) n else 32)"
proof -
  consider "0 \<le> b" "a \<le> 31" "0 < a" | "0 \<le> b" "a \<le> 0" | "b < 0" | "0 \<le> b" "31 < a" by linarith
  then have "(if \<not> c \<and> r = 32 \<and> (n \<noteq> 0 \<or> l = 32) then - (n + 1) else l) =
      (if 0 \<le> b \<and> a \<le> 31 then min b 31 else if b < 0 then - min (n + 1) (- b) else - (n + 1)) \<and>
     (if c then n else if n = 0 \<and> r = 32 \<and> l \<noteq> 32 then - 1 else r) =
      (if 0 \<le> b \<and> a \<le> 31 \<and> 0 < a then - a
       else if 0 \<le> b \<and> a \<le> 0 \<or> b < 0 \<and> - b < n + 1 then min (- a) n else 32)"
  proof cases
    case 1
    then show ?thesis using assms(1-3) by (simp add: l r c)
  next
    case 2
    then have "l = min b 31" "r = (if 0 < n then min (- a) (n - 1) else 32)" "c \<longleftrightarrow> n \<le> - a"
      using assms(1-3) by (auto simp: l r c)
    with 2 assms(1-3) show ?thesis by (cases "n = 0") (auto simp: min_def)
  next
    case 3
    then have "l = (if n = 0 then 32 else - min n (- b))" "r = (if - b < n then min (- a) (n - 1) else 32)"
      by (auto simp: l r)
    with 3 assms(1-3) c show ?thesis by (cases "n = 0") (auto simp: min_def)
  next
    case 4
    then have "l = (if n = 0 then 32 else - n)" "r = 32" "\<not> c" using assms(1-3) by (auto simp: l r c)
    with 4 show ?thesis by auto
  qed
  then show "(if \<not> c \<and> r = 32 \<and> (n \<noteq> 0 \<or> l = 32) then - (n + 1) else l) =
      (if 0 \<le> b \<and> a \<le> 31 then min b 31 else if b < 0 then - min (n + 1) (- b) else - (n + 1))"
    "(if c then n else if n = 0 \<and> r = 32 \<and> l \<noteq> 32 then - 1 else r) =
      (if 0 \<le> b \<and> a \<le> 31 \<and> 0 < a then - a
       else if 0 \<le> b \<and> a \<le> 0 \<or> b < 0 \<and> - b < n + 1 then min (- a) n else 32)" by blast+
qed

lemma right_inv_step:
  assumes win: "\<forall>i<8. lo i \<le> hi i" and inv: "right_inv lo hi s n x" and n: "0 \<le> n" "n \<le> 31 - s" and s: "0 \<le> s"
    and step: "right_step lo hi s n x = (br, k', e')"
  shows "if br then right_found lo hi s e' \<and> (\<forall>i<8. snd e' ! i \<noteq> no_edge) else right_inv lo hi s (n + 1) (k', e')"
proof -
  obtain k l r where x: "x = (k, l, r)" by (cases x) auto
  let ?c = "eye_bits lo hi (s + n)"
  have len: "length l = 8" "length r = 8" using inv by (auto simp: right_inv_def x)
  have pin: "let a = s - hi i; b = s - lo i in
        (bit k i \<longrightarrow> 0 \<le> b \<and> a \<le> 31 \<or> b < 0 \<and> - b < n) \<and>
        l ! i = (if 0 \<le> b \<and> a \<le> 31 then min b 31 else if n = 0 then 32 else if b < 0 then - min n (- b) else - n) \<and>
        r ! i = (if 0 \<le> b \<and> a \<le> 31 \<and> 0 < a then - a
                 else if 0 \<le> b \<and> a \<le> 0 \<and> 0 < n \<or> b < 0 \<and> - b < n then min (- a) (n - 1) else 32)"
    if "i < 8" for i using inv that by (auto simp: right_inv_def x)
  have hi8: "\<forall>i<32. bit k i \<longrightarrow> i < 8" using inv by (auto simp: right_inv_def x)
  have c: "bit ?c i \<longleftrightarrow> lo i \<le> s + n \<and> s + n \<le> hi i" if "i < 8" for i using that by (auto simp: bit_eye)
  show ?thesis
  proof (cases br)
    case True
    then have "?c = 0" "k OR ?c = 0xff" "e' = (l, r)" using step by (auto simp: right_step_def x Let_def split: if_splits)
    then have "k = 0xff" "\<forall>i<8. \<not> (lo i \<le> s + n \<and> s + n \<le> hi i)"
      using eye_bits_0 [of lo hi "s + n"] by auto
    then have "bit k i" "\<not> (lo i \<le> s + n \<and> s + n \<le> hi i)" if "i < 8" for i
      using that bit_ff by metis+
    with pin win n s have "s - 31 \<le> hi i \<and> lo i \<le> 31 \<and> l ! i = min (s - lo i) 31 \<and> r ! i = min (hi i - s) (31 - s)"
      if "i < 8" for i using that by (fastforce simp: Let_def)
    moreover have "min (hi i - s) (31 - s) \<noteq> 32" for i using s by linarith
    ultimately show ?thesis using True by (simp add: right_found_def \<open>e' = (l, r)\<close> len no_edge_def)
  next
    case False
    obtain l' r' where m: "mark_right n ?c (l, r) = (l', r')" "length l' = 8" "length r' = 8"
      "\<And>i. i < 8 \<Longrightarrow> l' ! i = (if \<not> bit ?c i \<and> r ! i = 32 \<and> (n \<noteq> 0 \<or> l ! i = 32) then - (n + 1) else l ! i) \<and>
          r' ! i = (if bit ?c i then n else if n = 0 \<and> r ! i = 32 \<and> l ! i \<noteq> 32 then - 1 else r ! i)"
      using mark_right_nth [OF len, of n ?c] by (auto simp: no_edge_def)
    have e: "k' = k OR ?c" "e' = (l', r')" using False step m(1) by (auto simp: right_step_def x Let_def split: if_splits)
    have "let a = s - hi i; b = s - lo i in
        (bit k' i \<longrightarrow> 0 \<le> b \<and> a \<le> 31 \<or> b < 0 \<and> - b < n + 1) \<and>
        l' ! i = (if 0 \<le> b \<and> a \<le> 31 then min b 31 else if n + 1 = 0 then 32 else if b < 0 then - min (n + 1) (- b) else - (n + 1)) \<and>
        r' ! i = (if 0 \<le> b \<and> a \<le> 31 \<and> 0 < a then - a
                 else if 0 \<le> b \<and> a \<le> 0 \<and> 0 < n + 1 \<or> b < 0 \<and> - b < n + 1 then min (- a) (n + 1 - 1) else 32)" if "i < 8" for i
    proof -
      have ab: "s - hi i \<le> s - lo i" "n \<le> 31" using win that n s by auto
      have c': "bit ?c i \<longleftrightarrow> - (s - lo i) \<le> n \<and> n \<le> - (s - hi i)" using c [OF that] by auto
      note pin' = pin [OF that, unfolded Let_def]
      have "bit k' i \<longrightarrow> 0 \<le> s - lo i \<and> s - hi i \<le> 31 \<or> s - lo i < 0 \<and> - (s - lo i) < n + 1"
        using pin' ab c' n by (auto simp: bit_or_iff e(1))
      then show ?thesis
        using right_pin [OF ab(1) n(1) ab(2) pin' [THEN conjunct2, THEN conjunct1] pin' [THEN conjunct2, THEN conjunct2] c']
          m(4) [OF that] n(1) by (simp add: Let_def)
    qed
    then show ?thesis
      using False m(2,3) hi8 by (simp add: right_inv_def e(2)) (auto simp: bit_or_iff bit_eye e(1))
  qed
qed

lemma right_inv_end:
  assumes "right_inv lo hi s (32 - s) (k, e)" "0 \<le> s" "s \<le> 31" "\<forall>i<8. lo i \<le> hi i"
  shows "right_found lo hi s e"
  using assms by (fastforce simp: right_inv_def right_found_def Let_def split: prod.splits)

subsection \<open>The settings\<close>

lemma half_mid_bounds: "m \<le> 2 * half_mid m" "2 * half_mid m \<le> m + 1"
  by (auto simp: half_mid_def c_div_def sgn_if)

lemma min_fold:
  fixes f :: "nat \<Rightarrow> int"
  shows "fold (\<lambda>i (m, k). let x = f i in if x < m then (x, i) else (m, k)) is (f k, k) = (m, j) \<Longrightarrow>
    m = f j \<and> j \<in> set (k # is) \<and> (\<forall>i \<in> set (k # is). m \<le> f i)"
proof (induction "is" arbitrary: k)
  case (Cons x xs)
  show ?case
  proof (cases "f x < f k")
    case True
    then show ?thesis using Cons.IH [of x] Cons.prems by (auto simp: Let_def)
  next
    case False
    then show ?thesis using Cons.IH [of k] Cons.prems by (auto simp: Let_def)
  qed
qed auto

lemma min_mid_least:
  assumes "min_mid (l, r) = (m, j)"
  shows "j < 8" "m = l ! j - r ! j" "\<And>i. i < 8 \<Longrightarrow> m \<le> l ! i - r ! i"
proof -
  have "set (0 # [1..<8]) = {0..<8 :: nat}" by auto
  then show "j < 8" "m = l ! j - r ! j" "\<And>i. i < 8 \<Longrightarrow> m \<le> l ! i - r ! i"
    using min_fold [of "\<lambda>i. l ! i - r ! i" "[1..<8]" 0 m j] assms
    by (auto simp: min_mid_def simp del: set_upt list.set)
qed

lemma hoare_fold_range:
  assumes step: "\<And>x l. a \<le> x \<Longrightarrow> x < b \<Longrightarrow> hoare (J (unat x) l) (f x l) (J (Suc (unat x)))" and "a \<le> b"
  shows "hoare (J (unat a) l) (fold_each f (range32 a b) l) (J (unat b))"
proof -
  have "hoare (J (unat x) l) (fold_each f (range32 x b) l) (J (unat b))"
    if "unat b - unat x = n" "a \<le> x" "x \<le> b" for n x l
    using that
  proof (induction n arbitrary: x l)
    case 0
    then have "x = b" by (simp add: word_le_nat_alt word_unat_eq_iff)
    then show ?case by (simp add: range32_Nil hoare_ret)
  next
    case (Suc n)
    then have x: "x < b" by (simp add: word_less_nat_alt)
    note rc = range32_Cons [OF this]
    have "hoare (J (Suc (unat x)) l') (fold_each f (range32 (x + 1) b) l') (J (unat b))" for l'
      using Suc.IH [of "x + 1" l'] Suc.prems x rc(2) by (simp add: word_le_nat_alt word_less_nat_alt)
    then show ?case
      unfolding rc(1) fold_each.simps by (intro hoare_bind [OF step [OF \<open>a \<le> x\<close> x]])
  qed
  then show ?thesis using assms(2) by simp
qed

text \<open>Where the pin of bit \<open>i\<close> is set, with \<open>j\<close> the bit of the smallest middle.\<close>

definition pin_shift :: "int list \<Rightarrow> int list \<Rightarrow> nat \<Rightarrow> int \<Rightarrow> int \<Rightarrow> nat \<Rightarrow> int" where
  "pin_shift l r j orig mid i = max 0 (min 31 (c_div (l ! i - r ! i - (l ! j - r ! j)) 2 + (orig - mid)))"

lemma missing_window_None: "missing_window (l, r) = None \<longleftrightarrow> (\<forall>i<8. l ! i \<noteq> 32 \<and> r ! i \<noteq> 32)"
  by (auto simp: missing_window_def no_edge_def find_None_iff)

lemma sint_tap: "uint v \<le> 31 \<Longrightarrow> sint v = uint v" for v :: u32
  using sint_small [of v] by (simp add: word_le_def)

lemma of_nat_pin: "k < 8 \<Longrightarrow> of_nat k = i \<longleftrightarrow> k = unat i" for i :: u32
proof -
  assume "k < 8"
  then have "unat (of_nat k :: u32) = k" by (intro unat_of_nat_small) simp
  then show ?thesis by (simp only: word_unat_eq_iff)
qed

lemma all_pins: "(\<forall>i<8. P i) \<longleftrightarrow> P 0 \<and> P 1 \<and> P 2 \<and> P 3 \<and> P 4 \<and> P 5 \<and> P 6 \<and> P (7 :: nat)"
proof -
  have list: "[0..<8] = [0, 1, 2, 3, 4, 5, 6, 7 :: nat]" by code_simp
  have "(\<forall>i<8. P i) \<longleftrightarrow> (\<forall>i \<in> set [0..<8]. P i)" by auto
  then show ?thesis unfolding list by simp
qed


subsection \<open>The searches\<close>

text \<open>Moving the data pins together until no bit passes, and moving the strobe; \<open>brk\<close> is what is noted on leaving early.\<close>

definition left_search :: "u32 \<Rightarrow> (int \<Rightarrow> ('s, unit) state) \<Rightarrow> ('s, bool \<times> u32) state \<Rightarrow> ('s, int list \<times> int list) state" where
  "left_search correct set_data test = do {
     (_, _, edges) \<leftarrow> loop (\<lambda>d (k, e). do {
       set_data d;
       (stop, chk) \<leftarrow> test;
       ret (if stop \<and> k OR chk = correct then (True, (k OR chk, e)) else (False, (k OR chk, mark_left d chk e)))
     }) [0..31] (0, (replicate 8 no_edge, replicate 8 no_edge));
     ret edges
   }"

definition right_search :: "u32 \<Rightarrow> (int \<Rightarrow> int list \<times> int list \<Rightarrow> int list \<times> int list) \<Rightarrow> (int \<Rightarrow> ('s, unit) state) \<Rightarrow>
    ('s, bool \<times> u32) state \<Rightarrow> int \<Rightarrow> u32 \<Rightarrow> int list \<times> int list \<Rightarrow> ('s, int list \<times> int list) state" where
  "right_search correct brk set_strobe test start k e = do {
     (_, _, edges) \<leftarrow> loop (\<lambda>d (k, e). do {
       set_strobe (d + start);
       (stop, chk) \<leftarrow> test;
       ret (if stop \<and> k OR chk = correct then (True, (k OR chk, brk d e)) else (False, (k OR chk, mark_right d chk e)))
     }) [0..31 - start] (k, e);
     ret edges
   }"

definition level_pins :: "(u32 \<Rightarrow> int \<Rightarrow> ('s, int) state) \<Rightarrow> int list \<times> int list \<Rightarrow> nat \<Rightarrow> int \<Rightarrow> int \<Rightarrow> ('s, int \<times> int) state" where
  "level_pins shift edges j orig mid = (let (l, r) = edges in fold_each (\<lambda>i (dq, dqs). do {
     sh \<leftarrow> shift i (c_div (l ! unat i - r ! unat i - (l ! j - r ! j)) 2 + (orig - mid));
     ret (min (l ! unat i - sh + (- mid)) dq, min (r ! unat i + sh - (- mid)) dqs)
   }) (range32 0 8) (no_edge, no_edge))"

lemma valid_loop_upto:
  assumes step: "\<And>x l. a \<le> x \<Longrightarrow> x \<le> b \<Longrightarrow> J x l \<Longrightarrow> valid I (f x l) (\<lambda>(br, l'). if br then Q l' else J (x + 1) l')"
    and "J a l" and "a \<le> b + 1"
  shows "valid I (loop f [a..b] l) (\<lambda>(br, l'). if br then Q l' else J (b + 1) l')"
  using assms
proof (induction "nat (b + 1 - a)" arbitrary: a l)
  case 0
  then have "a = b + 1" by simp
  with 0 show ?case by (auto intro!: valid_ret)
next
  case (Suc n)
  then have a: "a \<le> b" by simp
  have rest: "valid I (loop f [a + 1..b] l') (\<lambda>(br, l'). if br then Q l' else J (b + 1) l')" if "J (a + 1) l'" for l'
    by (rule Suc.hyps) (use Suc.hyps(2) Suc.prems(1) a that in auto)
  show ?case
    unfolding upto_rec1 [OF a] loop.simps
  proof (rule valid_bind [OF Suc.prems(1) [OF order_refl a Suc.prems(2)]], goal_cases)
    case (1 p)
    then show ?case using rest [of "snd p"] by (cases p; cases "fst p") (auto intro!: valid_ret)
  qed
qed

subsection \<open>Groups of pins\<close>

text \<open>
  What the movements and the test promise: \<open>placed d ds\<close> says that the strobe has delay \<open>d\<close> and pin \<open>i\<close> delay \<open>ds i\<close>.
\<close>

locale pin_group =
  fixes placed :: "int \<Rightarrow> (nat \<Rightarrow> int) \<Rightarrow> 's \<Rightarrow> bool"
    and set_data set_strobe :: "int \<Rightarrow> ('s, unit) state"
    and test :: "('s, bool \<times> u32) state"
    and shift :: "u32 \<Rightarrow> int \<Rightarrow> ('s, int) state"
    and lo hi :: "nat \<Rightarrow> int"
  assumes data: "0 \<le> x \<Longrightarrow> x \<le> 31 \<Longrightarrow> hoare (placed d ds) (set_data x) (\<lambda>_. placed d (\<lambda>_. x))"
    and strobe: "0 \<le> x \<Longrightarrow> x \<le> 31 \<Longrightarrow> hoare (placed d ds) (set_strobe x) (\<lambda>_. placed x ds)"
    and tested: "valid (placed d (\<lambda>_. x)) test (\<lambda>(stop, chk). chk = eye_bits lo hi (d - x) \<and> (stop \<longleftrightarrow> chk = 0))"
    and shifted: "i < 8 \<Longrightarrow> ds (unat i) = 0 \<Longrightarrow>
      hoare (placed d ds) (shift i y) (\<lambda>r s. r = max 0 (min 31 y) \<and> placed d (ds(unat i := max 0 (min 31 y))) s)"
    and pins: "\<forall>i<8. ds i = ds' i \<Longrightarrow> placed d ds s \<Longrightarrow> placed d ds' s"
begin

text \<open>One test with all pins at the same delay, after a movement.\<close>

lemma look:
  assumes move: "\<And>d ds. P d ds \<Longrightarrow> hoare (placed d ds) mv (\<lambda>_. placed d' (\<lambda>_. x))" and "P d' (\<lambda>_. x)"
  shows "valid (\<lambda>s. \<exists>d ds. P d ds \<and> placed d ds s) (do { mv; (stop, chk) \<leftarrow> test; ret (f stop chk) })
    (\<lambda>a. a = f (eye_bits lo hi (d' - x) = 0) (eye_bits lo hi (d' - x)))"
proof -
  have "valid (placed d' (\<lambda>_. x)) (do { (stop, chk) \<leftarrow> test; ret (f stop chk) })
      (\<lambda>a. a = f (eye_bits lo hi (d' - x) = 0) (eye_bits lo hi (d' - x)))"
    by (rule valid_bind [OF tested]) (auto intro!: valid_ret)
  then have "hoare (placed d ds) (do { mv; (stop, chk) \<leftarrow> test; ret (f stop chk) })
      (\<lambda>a s. placed d' (\<lambda>_. x) s \<and> a = f (eye_bits lo hi (d' - x) = 0) (eye_bits lo hi (d' - x)))" if "P d ds" for d ds
    by (intro hoare_bind [OF move [OF that]]) (simp add: valid_def)
  with assms(2) show ?thesis unfolding valid_def hoare_def by blast
qed

lemma left:
  assumes win: "\<forall>i<8. lo i \<le> hi i"
  shows "valid (\<lambda>s. \<exists>d ds. d = n \<and> placed d ds s) (left_search 0xff set_data test) (left_found lo hi n)"
proof -
  let ?I = "\<lambda>s. \<exists>d ds. d = n \<and> placed d ds s"
  let ?body = "\<lambda>d (k, e). do { set_data d; (stop, chk) \<leftarrow> test;
       ret (if stop \<and> k OR chk = 0xff then (True, (k OR chk, e)) else (False, (k OR chk, mark_left d chk e))) }"
  have "valid ?I (?body d x) (\<lambda>(br, x'). if br then left_found lo hi n (snd x') else left_inv lo hi n (d + 1) x')"
    if d: "0 \<le> d" "d \<le> 31" and inv: "left_inv lo hi n d x" for d x
  proof -
    obtain k e where x: "x = (k, e)" by (cases x)
    have "valid ?I (?body d x) (\<lambda>a. a = left_step lo hi n d x)"
      unfolding x split_conv by (rule valid_weaken [OF look [where d' = n and x = d]])
        (use data [OF d] in \<open>auto simp: left_step_def Let_def\<close>)
    then show ?thesis
      by (rule valid_weaken) (use left_inv_step [OF win inv d] in auto)
  qed
  then have "valid ?I (loop ?body [0..31] (0, (replicate 8 no_edge, replicate 8 no_edge)))
     (\<lambda>(br, x'). if br then left_found lo hi n (snd x') else left_inv lo hi n (31 + 1) x')"
    by (rule valid_loop_upto) (auto simp: left_inv_def no_edge_def Let_def)
  then show ?thesis
    unfolding left_search_def by (rule valid_bind) (auto intro!: valid_ret dest: left_inv_end split: if_splits)
qed

lemma right:
  assumes win: "\<forall>i<8. lo i \<le> hi i" and n: "0 \<le> n" "n \<le> 31" and start: "right_inv lo hi n 0 (k0, e0)"
    and brk: "\<And>d e. \<forall>i<8. snd e ! i \<noteq> no_edge \<Longrightarrow> brk d e = e"
  shows "valid (\<lambda>s. \<exists>d ds. ds = (\<lambda>_. 0) \<and> placed d ds s) (right_search 0xff brk set_strobe test n k0 e0) (right_found lo hi n)"
proof -
  let ?I = "\<lambda>s. \<exists>d ds. ds = (\<lambda>_. 0) \<and> placed d ds s"
  let ?body = "\<lambda>d (k, e). do { set_strobe (d + n); (stop, chk) \<leftarrow> test;
       ret (if stop \<and> k OR chk = 0xff then (True, (k OR chk, brk d e)) else (False, (k OR chk, mark_right d chk e))) }"
  have "valid ?I (?body d x) (\<lambda>(br, x'). if br then right_found lo hi n (snd x') else right_inv lo hi n (d + 1) x')"
    if d: "0 \<le> d" "d \<le> 31 - n" and inv: "right_inv lo hi n d x" for d x
  proof -
    obtain k e where x: "x = (k, e)" by (cases x)
    obtain br k' e' where st: "right_step lo hi n d x = (br, k', e')" by (cases "right_step lo hi n d x") auto
    have "valid ?I (?body d x) (\<lambda>a. a = (br, k', if br then brk d e' else e'))"
      unfolding x split_conv by (rule valid_weaken [OF look [where d' = "d + n" and x = 0]])
        (use strobe [of "d + n"] d n st in \<open>auto simp: right_step_def x Let_def add.commute split: if_splits\<close>)
    then show ?thesis
      by (rule valid_weaken) (use right_inv_step [OF win inv d n(1) st] brk [of e' d] in \<open>auto split: if_splits\<close>)
  qed
  then have "valid ?I (loop ?body [0..31 - n] (k0, e0))
     (\<lambda>(br, x'). if br then right_found lo hi n (snd x') else right_inv lo hi n (31 - n + 1) x')"
    by (rule valid_loop_upto) (use start n in auto)
  then show ?thesis
    unfolding right_search_def
    by (rule valid_bind) (use right_inv_end [OF _ n win] in \<open>auto intro!: valid_ret split: if_splits\<close>)
qed

lemma level:
  "hoare (placed d (\<lambda>_. 0)) (level_pins shift (l, r) j orig mid)
    (\<lambda>(dq, dqs) s. placed d (pin_shift l r j orig mid) s \<and>
       (0 \<le> dq \<longleftrightarrow> (\<forall>i<8. 0 \<le> l ! i - pin_shift l r j orig mid i - mid)) \<and>
       (0 \<le> dqs \<longleftrightarrow> (\<forall>i<8. 0 \<le> r ! i + pin_shift l r j orig mid i + mid)))"
proof -
  let ?sh = "pin_shift l r j orig mid"
  let ?J = "\<lambda>n (dq, dqs) s. placed d (\<lambda>i. if i < n then ?sh i else 0) s \<and>
     (0 \<le> dq \<longleftrightarrow> (\<forall>i<n. 0 \<le> l ! i - ?sh i - mid)) \<and> (0 \<le> dqs \<longleftrightarrow> (\<forall>i<n. 0 \<le> r ! i + ?sh i + mid))"
  let ?body = "\<lambda>i (dq, dqs). do {
     sh \<leftarrow> shift i (c_div (l ! unat i - r ! unat i - (l ! j - r ! j)) 2 + (orig - mid));
     ret (min (l ! unat i - sh + (- mid)) dq, min (r ! unat i + sh - (- mid)) dqs) }"
  have "hoare (?J (unat x) e) (?body x e) (?J (Suc (unat x)))" if "x < 8" for x e
  proof -
    obtain dq dqs where e: "e = (dq, dqs)" by (cases e)
    let ?ds = "\<lambda>i. if i < unat x then ?sh i else 0"
    have upd: "?ds(unat x := ?sh (unat x)) = (\<lambda>i. if i < Suc (unat x) then ?sh i else 0)" by auto
    show ?thesis
      using shifted [OF that, of ?ds d "c_div (l ! unat x - r ! unat x - (l ! j - r ! j)) 2 + (orig - mid)"]
      unfolding pin_shift_def [symmetric] upd
      by (auto simp: hoare_def e split_beta less_Suc_eq)
  qed
  then have "hoare (?J (unat (0 :: u32)) (no_edge, no_edge)) (fold_each ?body (range32 0 8) (no_edge, no_edge)) (?J (unat (8 :: u32)))"
    by (intro hoare_fold_range) auto
  moreover have "placed d ?sh s" if "placed d (\<lambda>i. if i < 8 then ?sh i else 0) s" for s
    by (rule pins [OF _ that]) simp
  ultimately show ?thesis
    unfolding level_pins_def Let_def split_conv
    by (auto elim!: hoare_weaken simp: no_edge_def simp del: range32_small)
qed

end

end
