(* ===== verification/SeqCentre.thy ===== *)
theory SeqCentre
  imports SeqEdges
begin

text \<open>
  What the centring of the read data achieves.  The movements and the test of the read calibration are a \<open>pin_group\<close>,
  so that the edges are known; the theorem says when the centring succeeds, that every bit then works, and
  that it is in the middle of its window up to half a tap.
\<close>

subsection \<open>The hardware\<close>

text \<open>
  What the centring relies on: the delay registers hold what is written to them, reads do not change
  them, and a test reports an error on bit \<open>i\<close> exactly when the position of the pin is not in its window.
\<close>

definition pin_position :: "(reg \<Rightarrow> u32) \<Rightarrow> u32 \<Rightarrow> nat \<Rightarrow> int" where
  "pin_position c g i = uint (c (SCC_MGR_DQS_IN_DELAY g)) - uint (c (SCC_MGR_IO_IN_DELAY (of_nat i)))"

definition read_eye_law :: "'h hwbus \<Rightarrow> ('h \<Rightarrow> reg \<Rightarrow> u32) \<Rightarrow> u32 \<Rightarrow> (nat \<Rightarrow> int) \<Rightarrow> (nat \<Rightarrow> int) \<Rightarrow> bool" where
  "read_eye_law M cur g lo hi \<longleftrightarrow>
     (\<forall>r v h. cur (bus_wr M r v h) = (if scc_delay r then (cur h)(r := v) else cur h)) \<and>
     (\<forall>r h. cur (snd (bus_rd M r h)) = cur h) \<and>
     (\<forall>r h. scc_delay r \<longrightarrow> fst (bus_rd M r h) = cur h r) \<and>
     (\<forall>h. \<forall>i<8. bit (fst (bus_rd M (RW_MGR_RUN_SINGLE_GROUP 0) h)) i \<longleftrightarrow>
        \<not> (lo i \<le> pin_position (cur h) g i \<and> pin_position (cur h) g i \<le> hi i))"

definition placed :: "('h \<Rightarrow> reg \<Rightarrow> u32) \<Rightarrow> u32 \<Rightarrow> int \<Rightarrow> (nat \<Rightarrow> int) \<Rightarrow> 'h seq \<Rightarrow> bool" where
  "placed cur g d ds s \<longleftrightarrow> uint (cur (io s) (SCC_MGR_DQS_IN_DELAY g)) = d \<and>
     (\<forall>i<8. uint (cur (io s) (SCC_MGR_IO_IN_DELAY (of_nat i))) = ds i) \<and>
     read_correct_mask (param s) = 0xff \<and> read_correct_mask_vg (param s) = 0xff \<and> skip_ranks (param s) 0 = 0"

lemma placed_pins [simp]: "placed cur g d (\<lambda>i. if i < 8 then f i else e i) = placed cur g d f"
  by (auto simp: placed_def)

lemma placed_io:
  assumes "read_eye_law M cur g lo hi"
  shows "\<not> scc_delay r \<Longrightarrow> safe (placed cur g d ds) (iowr M r v)" and "safe (placed cur g d ds) (iord M r)"
  using assms by (auto simp: read_eye_law_def placed_def safe_def)

lemma placed_strobe:
  assumes "read_eye_law M cur g lo hi" and "0 \<le> x" "x \<le> 31"
  shows "hoare (placed cur g d ds) (scc_mgr_set_dqs_bus_in_delay M g (of_int x)) (\<lambda>_. placed cur g x ds)"
  using assms by (auto simp: read_eye_law_def placed_def hoare_def scc_mgr_set_dqs_bus_in_delay_def uint_of_int_31)

lemma placed_data:
  assumes "read_eye_law M cur g lo hi" and "0 \<le> x" "x \<le> 31"
  shows "hoare (placed cur g d ds) (scc_mgr_apply_group_dq_in_delay M wg 0 (of_int x)) (\<lambda>_. placed cur g d (\<lambda>_. x))"
  using assms
  by (simp add: read_eye_law_def placed_def hoare_def scc_mgr_apply_group_dq_in_delay_def scc_mgr_set_dq_in_delay_def
     scc_mgr_load_dq_def config_simps uint_of_int_31 all_pins)

lemma placed_test:
  assumes law: "read_eye_law M cur g lo hi"
  shows "valid (placed cur g d (\<lambda>_. x)) (centre_test M 0 wg g True)
    (\<lambda>(stop, chk). chk = eye_bits lo hi (d - x) \<and> (stop \<longleftrightarrow> chk = 0))"
proof -
  note l = law [unfolded read_eye_law_def]
  note wr = l [THEN conjunct1, rule_format] and rdc = l [THEN conjunct2, THEN conjunct1, rule_format]
  have rd: "0xff AND NOT (fst (bus_rd M (RW_MGR_RUN_SINGLE_GROUP 0) h)) = eye_bits lo hi (d - x)"
    if "uint (cur h (SCC_MGR_DQS_IN_DELAY g)) = d" "\<forall>i<8. uint (cur h (SCC_MGR_IO_IN_DELAY (of_nat i))) = x" for h
    by (rule eye_bits_test) (use l that in \<open>auto simp: pin_position_def\<close>)
  show ?thesis
    by (auto simp: valid_def hoare_def placed_def centre_test_def rw_mgr_mem_calibrate_read_test_def test_ranks_def config_simps
      set_rank_and_odt_mask_def rd wr rdc split: prod.splits)
qed

lemma placed_load:
  assumes law: "read_eye_law M cur g lo hi"
  shows "safe (placed cur g d ds) (scc_mgr_load_dqs M g')" "safe (placed cur g d ds) (scc_mgr_load_dq M i)"
  unfolding scc_mgr_load_dqs_def scc_mgr_load_dq_def by (rule placed_io(1) [OF law], simp)+

text \<open>A pin that has no delay gets the shift, as far as its chain reaches.\<close>

lemma shift_pin:
  assumes law: "read_eye_law M cur g lo hi" and i: "i < 8" and "ds (unat i) = 0"
  shows "hoare (placed cur g d ds) (shift_dq_in M wg i i sh)
    (\<lambda>r s. r = max 0 (min 31 sh) \<and> placed cur g d (ds(unat i := max 0 (min 31 sh))) s)"
proof (rule hoareI)
  fix s assume s: "placed cur g d ds s"
  note l = law [unfolded read_eye_law_def]
  note wr = l [THEN conjunct1, rule_format] and rdc = l [THEN conjunct2, THEN conjunct1, rule_format]
    and rd = l [THEN conjunct2, THEN conjunct2, THEN conjunct1, rule_format]
  have "unat i < 8" using i by (simp add: word_less_nat_alt)
  then have "uint (cur (io s) (SCC_MGR_IO_IN_DELAY (of_nat (unat i)))) = 0"
    using s assms(3) unfolding placed_def by metis
  then have zero: "cur (io s) (SCC_MGR_IO_IN_DELAY i) = 0" by (simp add: uint_0_iff)
  show "fst (run_state (shift_dq_in M wg i i sh) s) = max 0 (min 31 sh) \<and>
     placed cur g d (ds(unat i := max 0 (min 31 sh))) (snd (run_state (shift_dq_in M wg i i sh) s))"
    using s zero
    by (auto simp: placed_def shift_dq_in_def clamp_shift_def scc_mgr_set_dq_in_delay_def scc_mgr_load_dq_def
      config_simps wr rd rdc of_nat_pin uint_of_int_31 split_beta)
qed

text \<open>The movements of the two searches, and the searches in these terms.\<close>

definition read_data :: "'h hwbus \<Rightarrow> u32 \<Rightarrow> int \<Rightarrow> ('h, unit) cal" where
  "read_data M wg d = do { scc_mgr_apply_group_dq_in_delay M wg 0 (of_int d); iowr M SCC_MGR_UPD 0 }"

definition read_strobe :: "'h hwbus \<Rightarrow> u32 \<Rightarrow> int \<Rightarrow> ('h, unit) cal" where
  "read_strobe M g d = do { scc_mgr_set_dqs_bus_in_delay M g (of_int d); scc_mgr_load_dqs M g; iowr M SCC_MGR_UPD 0 }"

lemma range32_upto:
  assumes "0 \<le> n" "n \<le> 32"
  shows "range32 0 (of_int n) = map of_int [0..n - 1]"
proof -
  have "uint (of_int n :: u32) = n" using assms by (simp only: unsigned_of_int) (simp add: take_bit_int_eq_self)
  then have "unat (of_int n :: u32) = nat n" by (simp only: unat_eq_nat_uint)
  moreover have "[0..n - 1] = map int [0..<nat n]"
    by (rule nth_equalityI) (use assms in auto)
  ultimately show ?thesis by (simp add: range32_def comp_def)
qed

lemma search_left_eq:
  "search_left M 0 wg g 0 True = do {
     correct \<leftarrow> gets (\<lambda>s. read_correct_mask (param s));
     left_search correct (read_data M wg) (centre_test M 0 wg g True) }"
proof -
  have "range32 0 (IO_IO_IN_DELAY_MAX + 1) = map of_int [0..31]" using range32_upto [of 32] by (simp add: config_simps)
  then show ?thesis
    unfolding search_left_def left_search_def
    by (auto simp: loop_map read_data_def uint_of_int_31 Let_def intro!: arg_cong2 [where f = State_Monad.bind] ext loop_cong)
qed

lemma search_right_eq:
  assumes "0 \<le> S" "S \<le> 31"
  shows "search_right M 0 wg g True S e = do {
     correct \<leftarrow> gets (\<lambda>s. read_correct_mask (param s));
     right_search correct (\<lambda>_ e. e) (read_strobe M g) (centre_test M 0 wg g True) S (seen_edges e) e }"
proof -
  have "range32 0 (of_int (31 - S) + 1) = map of_int [0..31 - S]" using range32_upto [of "32 - S"] assms by (simp add: algebra_simps)
  then show ?thesis
    unfolding search_right_def right_search_def
    using assms by (auto simp: loop_map read_strobe_def uint_of_int_31 Let_def intro!: arg_cong2 [where f = State_Monad.bind] ext loop_cong)
qed

lemma level_dq_in_eq: "level_dq_in M wg 0 e j orig mid = level_pins (\<lambda>i. shift_dq_in M wg i i) e j orig mid"
  by (simp add: level_dq_in_def level_pins_def config_simps Let_def del: range32_small)

locale read_eye =
  fixes M :: "'h hwbus" and cur :: "'h \<Rightarrow> reg \<Rightarrow> u32" and g wg :: u32 and lo hi :: "nat \<Rightarrow> int"
  assumes law: "read_eye_law M cur g lo hi"

sublocale read_eye \<subseteq> rd: pin_group "placed cur g" "read_data M wg" "read_strobe M g" "centre_test M 0 wg g True"
  "\<lambda>i. shift_dq_in M wg i i" lo hi
proof (unfold_locales, goal_cases)
  case (1 x d ds)
  then show ?case
    unfolding read_data_def by (intro hoare_bind [OF placed_data [OF law]] hoare_of_safe placed_io(1) [OF law]) auto
next
  case (2 x d ds)
  then show ?case
    unfolding read_strobe_def
    by (intro hoare_bind [OF placed_strobe [OF law]] hoare_safe_bind [OF placed_load(1) [OF law]] hoare_of_safe placed_io(1) [OF law]) auto
next
  case (3 d x)
  show ?case by (rule placed_test [OF law])
next
  case (4 i ds d y)
  then show ?case by (rule shift_pin [OF law])
next
  case (5 ds ds' d s)
  then show ?case by (auto simp: placed_def)
qed

lemma valid_correct_mask: "valid (\<lambda>s. \<exists>d ds. P d ds \<and> placed cur g d ds s) (gets (\<lambda>s. read_correct_mask (param s))) (\<lambda>c. c = 0xff)"
  by (auto simp: valid_def hoare_def placed_def)

text \<open>
  The arithmetic of the settings: \<open>l\<close> and \<open>r\<close> are the distances from the start \<open>S\<close> to the ends \<open>a i\<close> and \<open>b i\<close> of
  the reachable parts of the windows.
\<close>

lemma settings:
  fixes S m mid :: int and a b :: "nat \<Rightarrow> int"
  assumes S: "0 \<le> S" "S \<le> 31" and seen: "\<And>i. i < 8 \<Longrightarrow> S - 31 \<le> a i \<and> a i \<le> b i \<and> b i \<le> 31"
    and edges: "\<And>i. i < 8 \<Longrightarrow> l ! i = S - a i \<and> r ! i = b i - S" and m: "min_mid (l, r) = (m, j)"
    and mid: "mid = S - centre_dqs S (half_mid m)" and i: "i < 8"
  defines "x \<equiv> S - mid - pin_shift l r j (half_mid m) mid i"
  shows "a i \<le> x" and "a j + b j - (a i + b i) \<le> 63 \<Longrightarrow> \<bar>2 * x - (a i + b i)\<bar> \<le> 1"
proof -
  note least = min_mid_least [OF m]
  let ?h = "half_mid m" and ?f = "(l ! i - r ! i - m) div 2"
  have mj: "m = 2 * S - (a j + b j)" using least(2) edges [OF least(1)] by simp
  have mi: "l ! i - r ! i = 2 * S - (a i + b i)" "0 \<le> l ! i - r ! i - m" using edges [OF i] least(3) [OF i] by simp_all
  have x: "x = S - mid - max 0 (min 31 (?f + (?h - mid)))"
    using mi(2) by (simp add: x_def pin_shift_def least(2) [symmetric] c_div_nonneg)
  note h = half_mid_bounds [of m] and si = seen [OF i] and sj = seen [OF least(1)]
  have mid': "mid = (if S - ?h < 0 then S else ?h)"
    using h mj sj by (auto simp: mid centre_dqs_def Let_def)
  show "a i \<le> x" "a j + b j - (a i + b i) \<le> 63 \<Longrightarrow> \<bar>2 * x - (a i + b i)\<bar> \<le> 1"
    using h si sj S mj mi unfolding x mid' by (auto simp: max_def min_def split: if_splits)
qed

text \<open>What the centring leaves, with the strobe at \<open>S\<close> before: the claim below.\<close>

definition centred :: "(nat \<Rightarrow> int) \<Rightarrow> (nat \<Rightarrow> int) \<Rightarrow> int \<Rightarrow> bool \<Rightarrow> (nat \<Rightarrow> int) \<Rightarrow> bool" where
  "centred lo hi S success x \<longleftrightarrow>
     (let a = (\<lambda>i. max (S - 31) (lo i)); b = (\<lambda>i. min 31 (hi i)) in
      (success \<longleftrightarrow> (\<forall>i<8. lo i \<le> x i \<and> x i \<le> hi i)) \<and>
      ((\<forall>i<8. a i \<le> b i) \<and> (\<forall>i<8. \<forall>j<8. a j + b j - (a i + b i) \<le> 63) \<longrightarrow>
         success \<and> (\<forall>i<8. \<bar>2 * x i - (a i + b i)\<bar> \<le> 1)))"

lemma placed_position: "placed cur g d ds s \<Longrightarrow> i < 8 \<Longrightarrow> pin_position (cur (io s)) g i = d - ds i"
  by (simp add: placed_def pin_position_def)

lemma placed_gbl: "safe (placed cur g d ds) (upd_gbl f)"
  by (simp add: safe_def placed_def)

lemma placed_whenM: "safe (placed cur g d ds) (whenM b (upd_gbl f))"
  unfolding whenM_def by (simp add: placed_gbl) (simp add: safe_def)

lemma placed_fail: "safe (placed cur g d ds) (set_failing_group_stage grp st sub)"
  unfolding set_failing_group_stage_def by (rule placed_gbl)


context read_eye
begin

lemma left_edges:
  assumes "\<forall>i<8. lo i \<le> hi i"
  shows "valid (\<lambda>s. \<exists>d ds. d = n \<and> placed cur g d ds s) (search_left M 0 wg g 0 True) (left_found lo hi n)"
  unfolding search_left_eq by (rule valid_bind [OF valid_correct_mask]) (use rd.left [OF assms] in simp)

lemma right_edges:
  assumes "\<forall>i<8. lo i \<le> hi i" "0 \<le> S" "S \<le> 31" "left_found lo hi S e"
  shows "valid (\<lambda>s. \<exists>d ds. ds = (\<lambda>_. 0) \<and> placed cur g d ds s) (search_right M 0 wg g True S (drop_right e)) (right_found lo hi S)"
proof -
  have "right_inv lo hi S 0 (seen_edges (drop_right e), drop_right e)"
    by (rule right_inv_start [OF assms(4)]) (cases "drop_right e", auto simp: bit_seen_edges)
  then show ?thesis
    unfolding search_right_eq [OF assms(2,3)]
    by (intro valid_bind [OF valid_correct_mask]) (use rd.right [OF assms(1-3)] in simp)
qed

text \<open>After the searches: without a window for every bit the strobe goes back to its start.\<close>

lemma centre_failed:
  assumes S: "0 \<le> S" "S \<le> 31" and found: "right_found lo hi S e" and win: "\<forall>i<8. lo i \<le> hi i"
    and "missing_window e = Some k"
  shows "hoare (placed cur g d (\<lambda>_. 0)) (do {
         scc_mgr_set_dqs_bus_in_delay M g (of_int S);
         scc_mgr_load_dqs M g;
         iowr M SCC_MGR_UPD 0;
         set_failing_group_stage grp st sub;
         ret False }) (\<lambda>ok s. centred lo hi S ok (pin_position (cur (io s)) g))"
proof -
  obtain l r where e: "e = (l, r)" by (cases e)
  from assms(5) obtain i where i: "i < 8" "l ! i = 32 \<or> r ! i = 32"
    using missing_window_None [of l r] by (auto simp: e)
  then have bad: "\<not> (S - 31 \<le> hi i \<and> lo i \<le> 31)"
    using found S by (auto simp: right_found_def e)
  have "centred lo hi S False (pin_position (cur (io s)) g)" if "placed cur g S (\<lambda>_. 0) s" for s
    using bad i(1) S win placed_position [OF that i(1)] by (fastforce simp: centred_def Let_def)
  then show ?thesis
    by (intro hoare_bind [OF placed_strobe [OF law S]] hoare_safe_bind [OF placed_load(1) [OF law]]
        hoare_safe_bind [OF placed_io(1) [OF law]] hoare_safe_bind [OF placed_fail] hoare_ret) auto
qed

text \<open>With a window for every bit the pins and the strobe are set.\<close>

lemma centre_set:
  assumes S: "0 \<le> S" "S \<le> 31" and found: "right_found lo hi S e" and win: "\<forall>i<8. lo i \<le> hi i"
    and none: "missing_window e = None" and m: "min_mid e = (m, j)" and mid: "mid = S - centre_dqs S (half_mid m)"
  shows "hoare (placed cur g d (\<lambda>_. 0)) (do {
         (dq_margin, dqs_margin) \<leftarrow> level_dq_in M wg 0 e j (half_mid m) mid;
         scc_mgr_set_dqs_bus_in_delay M g (of_int (S - mid));
         scc_mgr_load_dqs M g;
         whenM upd (upd_gbl (f dq_margin dqs_margin));
         iowr M SCC_MGR_UPD 0;
         ret (dq_margin \<ge> 0 \<and> dqs_margin \<ge> 0) }) (\<lambda>ok s. centred lo hi S ok (pin_position (cur (io s)) g))"
proof -
  obtain l r where e: "e = (l, r)" by (cases e)
  let ?a = "\<lambda>i. max (S - 31) (lo i)" and ?b = "\<lambda>i. min 31 (hi i)" and ?sh = "pin_shift l r j (half_mid m) mid"
  have r: "l ! i \<noteq> 32" "r ! i \<noteq> 32" if "i < 8" for i using none that by (auto simp: e missing_window_None)
  have edges: "l ! i = S - ?a i \<and> r ! i = ?b i - S" and seen: "S - 31 \<le> ?a i \<and> ?a i \<le> ?b i \<and> ?b i \<le> 31" if "i < 8" for i
    using found r(2) [OF that] win S that by (fastforce simp: right_found_def e split: if_splits)+
  have set: "?a i \<le> S - mid - ?sh i" "?a j + ?b j - (?a i + ?b i) \<le> 63 \<Longrightarrow> \<bar>2 * (S - mid - ?sh i) - (?a i + ?b i)\<bar> \<le> 1"
    if "i < 8" for i
    using settings [where a = ?a and b = ?b, OF S seen edges m [unfolded e] mid that] by blast+
  have new: "0 \<le> S - mid" "S - mid \<le> 31" using centre_dqs_range [of S "half_mid m"] by (auto simp: mid)
  have "centred lo hi S (0 \<le> dq \<and> 0 \<le> dqs) (pin_position (cur (io s)) g)"
    if p: "placed cur g (S - mid) ?sh s" and dq: "0 \<le> dq \<longleftrightarrow> (\<forall>i<8. 0 \<le> l ! i - ?sh i - mid)"
      and dqs: "0 \<le> dqs \<longleftrightarrow> (\<forall>i<8. 0 \<le> r ! i + ?sh i + mid)" for s dq dqs
  proof -
    have x: "pin_position (cur (io s)) g i = S - mid - ?sh i" if "i < 8" for i using placed_position [OF p that] .
    have "0 \<le> ?sh i" for i by (simp add: pin_shift_def)
    then have "0 \<le> l ! i - ?sh i - mid \<and> 0 \<le> r ! i + ?sh i + mid \<longleftrightarrow> lo i \<le> S - mid - ?sh i \<and> S - mid - ?sh i \<le> hi i"
      if "i < 8" for i using edges [OF that] set(1) [OF that] new(2) by (smt (verit) max_def min_def)
    then have ok: "0 \<le> dq \<and> 0 \<le> dqs \<longleftrightarrow> (\<forall>i<8. lo i \<le> S - mid - ?sh i \<and> S - mid - ?sh i \<le> hi i)"
      unfolding dq dqs by blast
    have mid_ok: "lo i \<le> S - mid - ?sh i \<and> S - mid - ?sh i \<le> hi i" if "\<bar>2 * (S - mid - ?sh i) - (?a i + ?b i)\<bar> \<le> 1" "i < 8" for i
      using that seen [OF that(2)] set(1) [OF that(2)] by auto
    have near: "(\<forall>i<8. \<bar>2 * (S - mid - ?sh i) - (?a i + ?b i)\<bar> \<le> 1)" if "\<forall>i<8. \<forall>j<8. ?a j + ?b j - (?a i + ?b i) \<le> 63"
      using set(2) that min_mid_least(1) [OF m [unfolded e]] by blast
    show ?thesis
      unfolding centred_def Let_def using ok near mid_ok x by simp
  qed
  note result = this
  have rest: "hoare (\<lambda>s. placed cur g d ?sh s \<and> (0 \<le> dq \<longleftrightarrow> (\<forall>i<8. 0 \<le> l ! i - ?sh i - mid)) \<and>
       (0 \<le> dqs \<longleftrightarrow> (\<forall>i<8. 0 \<le> r ! i + ?sh i + mid))) (do {
         scc_mgr_set_dqs_bus_in_delay M g (of_int (S - mid));
         scc_mgr_load_dqs M g;
         whenM upd (upd_gbl (f dq dqs));
         iowr M SCC_MGR_UPD 0;
         ret (dq \<ge> 0 \<and> dqs \<ge> 0) }) (\<lambda>ok s. centred lo hi S ok (pin_position (cur (io s)) g))" for dq dqs
    by (intro hoare_pure_pre hoare_bind [OF placed_strobe [OF law new]] hoare_safe_bind [OF placed_load(1) [OF law]]
        hoare_safe_bind [OF placed_whenM] hoare_safe_bind [OF placed_io(1) [OF law]] hoare_ret)
       (simp, blast intro: result)
  show ?thesis
    unfolding e level_dq_in_eq by (rule hoare_bind [OF rd.level]) (use rest in \<open>simp add: case_prod_unfold\<close>)
qed

text \<open>Both cases after the searches.\<close>

lemma centre_rest:
  assumes S: "0 \<le> S" "S \<le> 31" and win: "\<forall>i<8. lo i \<le> hi i"
  shows "hoare (\<lambda>s. (\<exists>d. placed cur g d (\<lambda>_. 0) s) \<and> right_found lo hi S e) (case missing_window e of
       Some i \<Rightarrow> do {
         scc_mgr_set_dqs_bus_in_delay M g (of_int S);
         scc_mgr_load_dqs M g;
         iowr M SCC_MGR_UPD 0;
         set_failing_group_stage (grp i) st sub;
         ret False
       }
     | None \<Rightarrow> case min_mid e of (m, j) \<Rightarrow> do {
         (dq_margin, dqs_margin) \<leftarrow> level_dq_in M wg 0 e j (half_mid m) (S - centre_dqs S (half_mid m));
         scc_mgr_set_dqs_bus_in_delay M g (of_int (S - (S - centre_dqs S (half_mid m))));
         scc_mgr_load_dqs M g;
         whenM upd (upd_gbl (f dq_margin dqs_margin));
         iowr M SCC_MGR_UPD 0;
         ret (dq_margin \<ge> 0 \<and> dqs_margin \<ge> 0)
       }) (\<lambda>ok s. centred lo hi S ok (pin_position (cur (io s)) g))"
proof (intro hoare_pure_pre hoare_ex, goal_cases)
  case (1 d)
  show ?case
  proof (cases "missing_window e")
    case None
    then show ?thesis
      using centre_set [OF S 1 win None _ refl] by (cases "min_mid e") (simp only: option.case prod.case)
  next
    case (Some i)
    then show ?thesis by (simp only: option.case) (rule centre_failed [OF S 1 win Some])
  qed
qed

end

text \<open>
  C11: What the centring of the read data achieves.  On hardware that reads bit \<open>i\<close> of the group correctly exactly when
  the strobe delay less the delay of the pin is between \<open>lo i\<close> and \<open>hi i\<close>, the routine reports success exactly when
  every bit works with the delays it leaves.  From the start delay \<open>S\<close> of the strobe it can see the windows between
  \<open>S - 31\<close> and 31; if no window lies outside and the middles of what it sees are at most 31 taps apart, it succeeds,
  and every bit is then within half a tap of its middle.
\<close>

theorem read_centred:
  assumes law: "read_eye_law M cur g lo hi" and win: "\<forall>i<8. lo i \<le> hi i"
    and start: "placed cur g S ds s" and S: "S \<le> 31"
    and run: "run_state (rw_mgr_mem_calibrate_vfifo_center M 0 wg g 0 True update_fom) s = (success, s')"
  shows "let x = pin_position (cur (io s')) g; a = (\<lambda>i. max (S - 31) (lo i)); b = (\<lambda>i. min 31 (hi i)) in
     (success \<longleftrightarrow> (\<forall>i<8. lo i \<le> x i \<and> x i \<le> hi i)) \<and>
     ((\<forall>i<8. a i \<le> b i) \<and> (\<forall>i<8. \<forall>j<8. a j + b j - (a i + b i) \<le> 63) \<longrightarrow>
        success \<and> (\<forall>i<8. \<bar>2 * x i - (a i + b i)\<bar> \<le> 1))"
proof -
  note hw = read_eye.intro [OF law]
  have S0: "0 \<le> S" using start by (auto simp: placed_def)
  have read: "hoare (placed cur g S ds) (iord M (SCC_MGR_DQS_IN_DELAY g))
      (\<lambda>v s. (\<exists>d ds. d = S \<and> placed cur g d ds s) \<and> sint v = S)"
    using law S by (auto simp: hoare_def read_eye_law_def placed_def sint_tap)
  have data: "hoare (\<lambda>s. (\<exists>d ds. d = S \<and> placed cur g d ds s) \<and> left_found lo hi S e) (scc_mgr_apply_group_dq_in_delay M wg 0 0)
      (\<lambda>_ s. (\<exists>d ds. ds = (\<lambda>_. 0) \<and> placed cur g d ds s) \<and> left_found lo hi S e)" for e
    using placed_data [OF law, of 0] by (fastforce simp: hoare_def)
  have right: "hoare (\<lambda>s. (\<exists>d ds. ds = (\<lambda>_. 0) \<and> placed cur g d ds s) \<and> left_found lo hi S e) (search_right M 0 wg g True S (drop_right e))
      (\<lambda>e s. (\<exists>d. placed cur g d (\<lambda>_. 0) s) \<and> right_found lo hi S e)" for e
    using read_eye.right_edges [OF hw win S0 S] by (intro hoare_pure_pre) (auto simp: valid_def)
  note left = read_eye.left_edges [OF hw win, unfolded valid_def]
  have "hoare (placed cur g S ds) (rw_mgr_mem_calibrate_vfifo_center M 0 wg g 0 True update_fom)
      (\<lambda>ok s. centred lo hi S ok (pin_position (cur (io s)) g))"
    unfolding rw_mgr_mem_calibrate_vfifo_center_def Let_def
  proof (rule hoare_bind [OF read], rule hoare_pure_pre, simp only:)
  qed (intro hoare_bind [OF left] hoare_bind [OF data] hoare_bind [OF right] read_eye.centre_rest [OF hw S0 S win])
  then have "centred lo hi S success (pin_position (cur (io s')) g)"
    using start by (metis hoare_def run fst_conv snd_conv)
  then show ?thesis unfolding centred_def Let_def .
qed

text \<open>A register file with eight such pins, for group 0.\<close>

definition read_eye_bus :: "(nat \<Rightarrow> int) \<Rightarrow> (nat \<Rightarrow> int) \<Rightarrow> (reg \<Rightarrow> u32) hwbus" where
  "read_eye_bus lo hi = \<lparr>
     bus_rd = (\<lambda>r h. (if r = RW_MGR_RUN_SINGLE_GROUP 0
       then fold (\<lambda>i w. if \<not> (lo i \<le> pin_position h 0 i \<and> pin_position h 0 i \<le> hi i) then push_bit 1 w OR 1 else push_bit 1 w) (rev [0..<8]) 0
       else h r, h)),
     bus_wr = (\<lambda>r v h. if scc_delay r then h(r := v) else h)\<rparr>"

interpretation eye_pins: read_eye "read_eye_bus lo hi" id 0 wg lo hi for lo hi wg
  by unfold_locales (auto simp: read_eye_law_def read_eye_bus_def bit_collect)

theorem read_centred_witness:
  "let s = (start_seq (\<lambda>_. 0))\<lparr>param := (param (start_seq (\<lambda>_ :: reg. 0 :: u32)))\<lparr>read_correct_mask := 0xff, read_correct_mask_vg := 0xff\<rparr>\<rparr>;
       (success, s') = run_state (rw_mgr_mem_calibrate_vfifo_center (read_eye_bus (\<lambda>i. int i - 6) (\<lambda>i. 2 * int i + 8)) 0 0 0 0 True False) s
   in success \<and> (\<forall>i<8. \<bar>2 * pin_position (io s') 0 i - (3 * int i + 2)\<bar> \<le> 1)"
proof -
  let ?s = "(start_seq (\<lambda>_. 0))\<lparr>param := (param (start_seq (\<lambda>_ :: reg. 0 :: u32)))\<lparr>read_correct_mask := 0xff, read_correct_mask_vg := 0xff\<rparr>\<rparr>"
    and ?lo = "\<lambda>i :: nat. int i - 6" and ?hi = "\<lambda>i. 2 * int i + 8"
  obtain ok s' where run: "run_state (rw_mgr_mem_calibrate_vfifo_center (read_eye_bus ?lo ?hi) 0 0 0 0 True False) ?s = (ok, s')"
    by (metis surj_pair)
  have placed: "placed id 0 0 (\<lambda>_. 0) ?s" by (simp add: placed_def start_seq_def)
  have ab: "max (0 - 31) (?lo i) = ?lo i" "min 31 (?hi i) = ?hi i" if "i < 8" for i
    using that by auto
  have "\<forall>i<8. ?lo i \<le> ?hi i" by auto
  from read_centred [OF eye_pins.law this placed _ run] show ?thesis
    unfolding Let_def run split_conv id_apply by (auto simp: ab all_pins)
qed

end
