(* ===== verification/SeqWriteCentre.thy ===== *)
theory SeqWriteCentre
  imports SeqEdges SeqWrite
begin

text \<open>
  What the centring of the written data achieves.  The movements and the test of the write calibration are another
  \<open>pin_group\<close>; the data mask is a further pin, centred afterwards.  The strobe is not moved, so that a
  bit can only be delayed; the theorem says for which windows that is enough and where the pins end.
\<close>

subsection \<open>The hardware\<close>

text \<open>
  What the centring relies on, beside what the search for the mask relies on: the delay registers can be read back, and a
  test of the data reports an error on bit \<open>i\<close> exactly when the position of its pin is not in its window.  The
  strobe is pin 8 and the mask is pin 9.
\<close>

definition write_position :: "(reg \<Rightarrow> u32) \<Rightarrow> nat \<Rightarrow> int" where
  "write_position c i = uint (c (SCC_MGR_IO_OUT1_DELAY 8)) - uint (c (SCC_MGR_IO_OUT1_DELAY (of_nat i)))"

definition write_eye_law :: "'h hwbus \<Rightarrow> ('h \<Rightarrow> reg \<Rightarrow> u32) \<Rightarrow> (nat \<Rightarrow> int) \<Rightarrow> (nat \<Rightarrow> int) \<Rightarrow> bool" where
  "write_eye_law M cur lo hi \<longleftrightarrow> eye_law M cur (\<lambda>x. lo 9 \<le> x \<and> x \<le> hi 9) \<and>
     (\<forall>r h. scc_delay r \<longrightarrow> fst (bus_rd M r h) = cur h r) \<and>
     (\<forall>h. cur h RW_MGR_LOAD_JUMP_ADD_1 = inst I_LFSR_WR_RD_BANK_0_WAIT \<longrightarrow>
        (\<forall>i<8. bit (fst (bus_rd M (RW_MGR_RUN_SINGLE_GROUP 0) h)) i \<longleftrightarrow>
           \<not> (lo i \<le> write_position (cur h) i \<and> write_position (cur h) i \<le> hi i)))"

definition data_pins :: "('h \<Rightarrow> reg \<Rightarrow> u32) \<Rightarrow> (nat \<Rightarrow> int) \<Rightarrow> 'h seq \<Rightarrow> bool" where
  "data_pins cur ds s \<longleftrightarrow> (\<forall>i<8. uint (cur (io s) (SCC_MGR_IO_OUT1_DELAY (of_nat i))) = ds i)"

definition write_placed :: "('h \<Rightarrow> reg \<Rightarrow> u32) \<Rightarrow> int \<Rightarrow> (nat \<Rightarrow> int) \<Rightarrow> 'h seq \<Rightarrow> bool" where
  "write_placed cur d ds s \<longleftrightarrow> data_pins cur ds s \<and> (\<exists>m. eye cur m d s)"

text \<open>The movements and the test.\<close>

definition write_data :: "'h hwbus \<Rightarrow> u32 \<Rightarrow> int \<Rightarrow> ('h, unit) cal" where
  "write_data M wg d = do { scc_mgr_apply_group_dq_out1_delay M wg 0 (of_int d); iowr M SCC_MGR_UPD 0 }"

definition write_strobe :: "'h hwbus \<Rightarrow> u32 \<Rightarrow> int \<Rightarrow> ('h, unit) cal" where
  "write_strobe M wg d = do { scc_mgr_apply_group_dqs_io_and_oct_out1 M wg (of_int d); iowr M SCC_MGR_UPD 0 }"

definition write_try :: "'h hwbus \<Rightarrow> u32 \<Rightarrow> ('h, bool \<times> u32) cal" where
  "write_try M wg = do { (pass, chk) \<leftarrow> rw_mgr_mem_calibrate_write_test M 0 wg False False False; ret (\<not> pass, chk) }"

lemma search_left_out_eq:
  "search_left_out M 0 wg 0 = do {
     correct \<leftarrow> gets (\<lambda>s. write_correct_mask (param s));
     left_search correct (write_data M wg) (write_try M wg) }"
  unfolding search_left_out_def left_search_def write_data_def write_try_def
  by (auto simp: Let_def split_beta intro!: arg_cong2 [where f = State_Monad.bind] ext loop_cong)

lemma search_right_out_eq:
  "search_right_out M 0 wg S e = do {
     correct \<leftarrow> gets (\<lambda>s. write_correct_mask (param s));
     right_search correct (\<lambda>d e. if d = 0 then mark_marginal e else e) (write_strobe M wg) (write_try M wg) S (seen_left e) e }"
  unfolding search_right_out_def right_search_def write_strobe_def write_try_def
  by (auto simp: Let_def split_beta intro!: arg_cong2 [where f = State_Monad.bind] ext loop_cong)

lemma level_dq_out_eq: "level_dq_out M wg e j orig mid = level_pins (shift_dq_out M wg) e j orig mid"
  by (simp add: level_dq_out_def level_pins_def config_simps Let_def del: range32_small)

subsection \<open>The pins of a group\<close>

lemma pin_numbers [simp]: "i < 8 \<Longrightarrow> (of_nat i :: u32) \<noteq> 8" "i < 8 \<Longrightarrow> (of_nat i :: u32) \<noteq> 9"
proof -
  have "unat (of_nat i :: u32) = i" if "i < 8" using that by (intro unat_of_nat_small) simp
  then show "i < 8 \<Longrightarrow> (of_nat i :: u32) \<noteq> 8" "i < 8 \<Longrightarrow> (of_nat i :: u32) \<noteq> 9" by (auto simp: word_unat_eq_iff)
qed

locale write_eye =
  fixes M :: "'h hwbus" and cur :: "'h \<Rightarrow> reg \<Rightarrow> u32" and wg :: u32 and lo hi :: "nat \<Rightarrow> int"
  assumes law: "write_eye_law M cur lo hi" and group: "wg < 4"
begin

lemma mask_law: "eye_law M cur (\<lambda>x. lo 9 \<le> x \<and> x \<le> hi 9)"
  and reads: "scc_delay r \<Longrightarrow> fst (bus_rd M r h) = cur h r"
  and test_law: "cur h RW_MGR_LOAD_JUMP_ADD_1 = inst I_LFSR_WR_RD_BANK_0_WAIT \<Longrightarrow> i < 8 \<Longrightarrow>
    bit (fst (bus_rd M (RW_MGR_RUN_SINGLE_GROUP 0) h)) i \<longleftrightarrow> \<not> (lo i \<le> write_position (cur h) i \<and> write_position (cur h) i \<le> hi i)"
  using law by (auto simp: write_eye_law_def)

lemma cur_wr: "cur (bus_wr M r v h) = (if write_held r then (cur h)(r := v) else cur h)"
  and cur_rd: "cur (snd (bus_rd M r h)) = cur h"
  using mask_law by (auto simp: eye_law_def)

lemma pins_io:
  "(\<And>i. i < 8 \<Longrightarrow> r \<noteq> SCC_MGR_IO_OUT1_DELAY (of_nat i)) \<Longrightarrow> safe (data_pins cur ds) (iowr M r v)" "safe (data_pins cur ds) (iord M r)"
  by (auto simp: safe_def data_pins_def cur_wr cur_rd)

lemma out_io: "\<not> scc_delay r \<Longrightarrow> safe (write_placed cur d ds) (iowr M r v)" "safe (write_placed cur d ds) (iord M r)"
  by (auto simp: safe_def write_placed_def data_pins_def eye_def cur_wr cur_rd write_held_def)

lemma out_data:
  assumes "0 \<le> x" "x \<le> 31"
  shows "hoare (write_placed cur d ds) (scc_mgr_apply_group_dq_out1_delay M wg 0 (of_int x)) (\<lambda>_. write_placed cur d (\<lambda>_. x))"
  using assms
  by (simp add: write_placed_def data_pins_def eye_def hoare_def scc_mgr_apply_group_dq_out1_delay_def scc_mgr_set_dq_out1_delay_def
     scc_mgr_load_dq_def config_simps uint_of_int_31 all_pins cur_wr write_held_def)

lemma out_strobe:
  assumes "0 \<le> x" "x \<le> 31"
  shows "hoare (write_placed cur d ds) (scc_mgr_apply_group_dqs_io_and_oct_out1 M wg (of_int x)) (\<lambda>_. write_placed cur x ds)"
  using assms group
  by (auto simp: write_placed_def data_pins_def eye_def hoare_def scc_mgr_apply_group_dqs_io_and_oct_out1_def
     scc_mgr_set_dqs_out1_delay_def scc_mgr_set_oct_out1_delay_def scc_mgr_load_dqs_io_def
     scc_mgr_load_dqs_for_write_group_def config_simps uint_of_int_31 cur_wr write_held_def)

lemma out_test:
  "valid (write_placed cur d (\<lambda>_. x)) (write_try M wg) (\<lambda>(stop, chk). chk = eye_bits lo hi (d - x) \<and> (stop \<longleftrightarrow> chk = 0))"
proof -
  have rd: "0xff AND NOT (fst (bus_rd M (RW_MGR_RUN_SINGLE_GROUP 0) h)) = eye_bits lo hi (d - x)"
    if "uint (cur h (SCC_MGR_IO_OUT1_DELAY 8)) = d" "\<forall>i<8. uint (cur h (SCC_MGR_IO_OUT1_DELAY (of_nat i))) = x"
      "cur h RW_MGR_LOAD_JUMP_ADD_1 = inst I_LFSR_WR_RD_BANK_0_WAIT" for h
    by (rule eye_bits_test) (use test_law [OF that(3)] that in \<open>auto simp: write_position_def\<close>)
  show ?thesis
    by (auto simp: valid_def hoare_def write_placed_def data_pins_def eye_def write_try_def rw_mgr_mem_calibrate_write_test_def
      rw_mgr_mem_calibrate_write_test_issue_def write_test_jumps_def test_ranks_def config_simps
      set_rank_and_odt_mask_def rd cur_wr cur_rd write_held_def split: prod.splits if_splits)
qed

lemma out_shift:
  assumes "i < 8" "ds (unat i) = 0"
  shows "hoare (write_placed cur d ds) (shift_dq_out M wg i y)
    (\<lambda>r s. r = max 0 (min 31 y) \<and> write_placed cur d (ds(unat i := max 0 (min 31 y))) s)"
proof (rule hoareI)
  fix s assume s: "write_placed cur d ds s"
  have i: "unat i < 8" using assms(1) by (simp add: word_less_nat_alt)
  then have "uint (cur (io s) (SCC_MGR_IO_OUT1_DELAY (of_nat (unat i)))) = 0"
    using s assms(2) unfolding write_placed_def data_pins_def by metis
  then have zero: "cur (io s) (SCC_MGR_IO_OUT1_DELAY i) = 0" by (simp add: uint_0_iff)
  have "i \<noteq> 8" "i \<noteq> 9" using i pin_numbers [OF i] by auto
  then show "fst (run_state (shift_dq_out M wg i y) s) = max 0 (min 31 y) \<and>
     write_placed cur d (ds(unat i := max 0 (min 31 y))) (snd (run_state (shift_dq_out M wg i y) s))"
    using s zero
    by (auto simp: write_placed_def data_pins_def eye_def shift_dq_out_def clamp_shift_def scc_mgr_set_dq_out1_delay_def scc_mgr_load_dq_def
      config_simps cur_wr cur_rd reads write_held_def of_nat_pin uint_of_int_31 split_beta)
qed

end

sublocale write_eye \<subseteq> wr: pin_group "write_placed cur" "write_data M wg" "write_strobe M wg" "write_try M wg" "shift_dq_out M wg" lo hi
proof (unfold_locales, goal_cases)
  case (1 x d ds)
  then show ?case
    unfolding write_data_def by (intro hoare_bind [OF out_data] hoare_of_safe out_io(1)) auto
next
  case (2 x d ds)
  then show ?case
    unfolding write_strobe_def by (intro hoare_bind [OF out_strobe] hoare_of_safe out_io(1)) auto
next
  case (3 d x)
  show ?case by (rule out_test)
next
  case (4 i ds d y)
  then show ?case by (rule out_shift)
next
  case (5 ds ds' d s)
  then show ?case by (auto simp: write_placed_def data_pins_def)
qed

subsection \<open>The edges\<close>

lemma bit_seen_left: "i < 32 \<Longrightarrow> bit (seen_left (l, r)) i \<longleftrightarrow> i < 8 \<and> l ! i \<noteq> no_edge"
  using bit_collect [of 8 i "\<lambda>i. l ! i \<noteq> no_edge" 0] by (simp add: seen_left_def)

lemma fold_fixed: "(\<And>i. i \<in> set is \<Longrightarrow> f i x = x) \<Longrightarrow> fold f is x = x"
  by (induction "is") simp_all

text \<open>When every bit has a right edge there is nothing marginal to mark.\<close>

lemma mark_marginal_none: "\<forall>i<8. snd e ! i \<noteq> no_edge \<Longrightarrow> mark_marginal e = e"
  unfolding mark_marginal_def by (rule fold_fixed) (auto split: prod.splits)

lemma valid_write_mask:
  "valid (\<lambda>s. \<exists>d ds. P d ds \<and> write_placed cur d ds s) (gets (\<lambda>s. write_correct_mask (param s))) (\<lambda>c. c = 0xff)"
  by (auto simp: valid_def hoare_def write_placed_def eye_def)

context write_eye
begin

lemma left_out:
  assumes "\<forall>i<8. lo i \<le> hi i"
  shows "valid (\<lambda>s. \<exists>d ds. d = n \<and> write_placed cur d ds s) (search_left_out M 0 wg 0) (left_found lo hi n)"
  unfolding search_left_out_eq by (rule valid_bind [OF valid_write_mask]) (use wr.left [OF assms] in simp)

lemma right_out:
  assumes "\<forall>i<8. lo i \<le> hi i" "0 \<le> S" "S \<le> 31" "left_found lo hi S e"
  shows "valid (\<lambda>s. \<exists>d ds. ds = (\<lambda>_. 0) \<and> write_placed cur d ds s) (search_right_out M 0 wg S (drop_right e)) (right_found lo hi S)"
proof -
  have "right_inv lo hi S 0 (seen_left (drop_right e), drop_right e)"
    by (rule right_inv_start [OF assms(4)]) (cases "drop_right e", auto simp: bit_seen_left)
  then show ?thesis
    unfolding search_right_out_eq
    by (intro valid_bind [OF valid_write_mask]) (use wr.right [OF assms(1-3)] mark_marginal_none in simp)
qed

end

subsection \<open>The settings\<close>

text \<open>A pin ends at the middle of its window, or as near to it as the strobe allows.\<close>

lemma write_settings:
  fixes S m :: int and a b :: "nat \<Rightarrow> int"
  assumes S: "0 \<le> S" "S \<le> 31" and seen: "\<And>i. i < 8 \<Longrightarrow> S - 31 \<le> a i \<and> a i \<le> b i \<and> b i \<le> 31"
    and edges: "\<And>i. i < 8 \<Longrightarrow> l ! i = S - a i \<and> r ! i = b i - S" and m: "min_mid (l, r) = (m, j)" and i: "i < 8"
  defines "x \<equiv> S - pin_shift l r j (half_mid m) 0 i"
  shows "a i \<le> x \<longleftrightarrow> a i \<le> S" and "x \<le> b i" and "\<bar>2 * x - (a i + b i)\<bar> \<le> 1 \<or> x = S \<and> 2 * S < a i + b i"
proof -
  note least = min_mid_least [OF m]
  let ?h = "half_mid m" and ?f = "(l ! i - r ! i - m) div 2"
  have mj: "m = 2 * S - (a j + b j)" using least(2) edges [OF least(1)] by simp
  have mi: "l ! i - r ! i = 2 * S - (a i + b i)" "0 \<le> l ! i - r ! i - m" using edges [OF i] least(3) [OF i] by simp_all
  have x: "x = S - max 0 (min 31 (?f + ?h))"
    using mi(2) by (simp add: x_def pin_shift_def least(2) [symmetric] c_div_nonneg)
  note h = half_mid_bounds [of m] and si = seen [OF i] and sj = seen [OF least(1)]
  show "a i \<le> x \<longleftrightarrow> a i \<le> S" "x \<le> b i" "\<bar>2 * x - (a i + b i)\<bar> \<le> 1 \<or> x = S \<and> 2 * S < a i + b i"
    using h si sj S mj mi unfolding x by (auto simp: max_def min_def split: if_splits)
qed

text \<open>The mask, whose window is an interval.\<close>

lemma interval_run:
  assumes "longest_run (\<lambda>x. L \<le> x \<and> x \<le> H) A X b e"
  shows "b = max A L" "e = min X H"
proof -
  have p: "passing (\<lambda>x. L \<le> x \<and> x \<le> H) A X b e" using assms by (simp add: longest_run_def)
  then have "A \<le> b" "b \<le> e" "e \<le> X" "L \<le> b" "e \<le> H" by (auto simp: passing_def)
  moreover from this have "passing (\<lambda>x. L \<le> x \<and> x \<le> H) A X (max A L) (min X H)" by (auto simp: passing_def)
  with assms have "min X H - max A L \<le> e - b" unfolding longest_run_def by blast
  ultimately show "b = max A L" "e = min X H" by linarith+
qed

lemma mask_settings:
  assumes S: "0 \<le> S" "S \<le> 31" and w: "in_window (\<lambda>x. L \<le> S + x \<and> S + x \<le> H) (- 31) (31 - S) mid margin" and LH: "L \<le> H"
  defines "a \<equiv> max (S - 31) L" and "b \<equiv> min 31 H" and "x \<equiv> S - mid"
  shows "0 \<le> margin \<longleftrightarrow> max (S - 31) L \<le> min S H"
    and "0 \<le> margin \<Longrightarrow> L \<le> x \<and> x \<le> H \<and> (\<bar>2 * x - (a + b)\<bar> \<le> 1 \<or> x = S \<and> 2 * S < a + b)"
proof -
  have q: "(\<lambda>x. L \<le> S + x \<and> S + x \<le> H) = (\<lambda>x. L - S \<le> x \<and> x \<le> H - S)" by auto
  from w have "(0 \<le> margin \<longleftrightarrow> max (S - 31) L \<le> min S H) \<and>
     (0 \<le> margin \<longrightarrow> L \<le> x \<and> x \<le> H \<and> (\<bar>2 * x - (a + b)\<bar> \<le> 1 \<or> x = S \<and> 2 * S < a + b))"
    unfolding in_window_def
  proof (elim disjE conjE exE)
    assume none: "margin = - 1" "\<forall>k \<in> {- 31..31 - S}. \<not> (L \<le> S + k \<and> S + k \<le> H)"
    have "\<not> max (S - 31) L \<le> min S H"
    proof
      assume "max (S - 31) L \<le> min S H"
      then have "max (S - 31) L - S \<in> {- 31..31 - S}" "L \<le> S + (max (S - 31) L - S)" "S + (max (S - 31) L - S) \<le> H" using S by auto
      with none(2) show False by blast
    qed
    with none(1) show ?thesis by simp
  next
    fix c e assume r: "longest_run (\<lambda>x. L \<le> S + x \<and> S + x \<le> H) (- 31) (31 - S) c e"
      and mid: "mid = max 0 (c_div (- c - e) 2)" "margin = - c - mid"
    have ce: "c = max (- 31) (L - S)" "e = min (31 - S) (H - S)" using interval_run [OF r [unfolded q]] by auto
    have le: "c \<le> e" using r by (auto simp: longest_run_def passing_def)
    have ends: "a = S + c" "b = S + e" "L \<le> S + c" "S + e \<le> H" "- 31 \<le> c" unfolding a_def b_def ce by auto
    have "a \<le> S \<longleftrightarrow> a \<le> min S H" using ends le by auto
    then have reach: "max (S - 31) L \<le> min S H \<longleftrightarrow> c \<le> 0" unfolding a_def [symmetric] using ends by auto
    show ?thesis
    proof (cases "0 \<le> - c - e")
      case True
      then have "mid = (- c - e) div 2" using mid(1) by (simp add: c_div_nonneg)
      then have "2 * mid \<le> - c - e" "- c - e \<le> 2 * mid + 1" by linarith+
      moreover have "2 * x - (a + b) = - c - e - 2 * mid" by (simp add: x_def ends(1,2))
      moreover from calculation mid(2) le ends(3-5) True have "0 \<le> margin" "c \<le> 0" "L \<le> x" "x \<le> H"
        unfolding x_def by linarith+
      ultimately show ?thesis unfolding reach by auto
    next
      case False
      then have "mid = 0" using mid(1) by (simp add: c_div_def sgn_if)
      with mid(2) le ends False show ?thesis unfolding reach x_def by auto
    qed
  qed
  then show "0 \<le> margin \<longleftrightarrow> max (S - 31) L \<le> min S H"
    "0 \<le> margin \<Longrightarrow> L \<le> x \<and> x \<le> H \<and> (\<bar>2 * x - (a + b)\<bar> \<le> 1 \<or> x = S \<and> 2 * S < a + b)" by blast+
qed

subsection \<open>The whole group\<close>

context write_eye
begin

lemma pins_test: "safe (data_pins cur ds) (rw_mgr_mem_calibrate_write_test M 0 wg dm al ranks)"
  by (auto simp: rw_mgr_mem_calibrate_write_test_def rw_mgr_mem_calibrate_write_test_issue_def write_test_jumps_def
     set_rank_and_odt_mask_def intro!: safe_intros pins_io split: prod.splits)

lemma pins_moves:
  "safe (data_pins cur ds) (scc_mgr_apply_group_dm_out1_delay M wg d)"
  "safe (data_pins cur ds) (scc_mgr_apply_group_dqs_io_and_oct_out1 M wg d)"
  using group
  by (auto simp: scc_mgr_apply_group_dm_out1_delay_def scc_mgr_set_dm_out1_delay_def scc_mgr_load_dm_def config_simps
     scc_mgr_apply_group_dqs_io_and_oct_out1_def scc_mgr_set_dqs_out1_delay_def scc_mgr_set_oct_out1_delay_def
     scc_mgr_load_dqs_io_def scc_mgr_load_dqs_for_write_group_def intro!: safe_intros pins_io dest: pin_numbers [THEN not_sym])

lemma pins_centre_dm: "safe (data_pins cur ds) (centre_dm M 0 wg n)"
  unfolding centre_dm_def search_dm_def search_dm_dqs_def Let_def
  by (intro safe_intros pins_test pins_moves pins_io) auto

lemma hoare_data_and_mask:
  assumes S: "0 \<le> S" "S \<le> 31"
  shows "hoare (write_placed cur S ds) (centre_dm M 0 wg S)
    (\<lambda>margin s. write_placed cur S ds s \<and>
       in_window (\<lambda>x. lo 9 \<le> S + x \<and> S + x \<le> hi 9) (- 31) (31 - S) (S - write_position (cur (io s)) 9) margin)"
  using hoare_centre_dm [OF mask_law group S] pins_centre_dm [of ds S]
  by (fastforce simp: hoare_def safe_def write_placed_def eye_def write_position_def)

end

text \<open>What the centring leaves, with the strobe at \<open>S\<close> before: the claim below.\<close>

definition write_pins :: "nat set" where
  "write_pins = insert 9 {..<8}"

definition write_centred :: "(nat \<Rightarrow> int) \<Rightarrow> (nat \<Rightarrow> int) \<Rightarrow> int \<Rightarrow> bool \<Rightarrow> (reg \<Rightarrow> u32) \<Rightarrow> bool" where
  "write_centred lo hi S success c \<longleftrightarrow>
     (success \<longleftrightarrow> (\<forall>i \<in> write_pins. max (S - 31) (lo i) \<le> min S (hi i))) \<and>
     (success \<longrightarrow> uint (c (SCC_MGR_IO_OUT1_DELAY 8)) = S \<and>
        (\<forall>i \<in> write_pins. let x = write_position c i; a = max (S - 31) (lo i); b = min 31 (hi i) in
           lo i \<le> x \<and> x \<le> hi i \<and> (\<bar>2 * x - (a + b)\<bar> \<le> 1 \<or> x = S \<and> 2 * S < a + b)))"

lemma write_placed_position: "write_placed cur d ds s \<Longrightarrow> i < 8 \<Longrightarrow> write_position (cur (io s)) i = d - ds i"
  by (auto simp: write_placed_def data_pins_def eye_def write_position_def)

lemma write_centredI:
  assumes S: "0 \<le> S" "S \<le> 31" and found: "right_found lo hi S (l, r)" and win: "\<forall>i \<in> write_pins. lo i \<le> hi i"
    and none: "missing_window (l, r) = None" and m: "min_mid (l, r) = (m, j)"
    and dq: "0 \<le> dq \<longleftrightarrow> (\<forall>i<8. 0 \<le> l ! i - pin_shift l r j (half_mid m) 0 i - 0)"
    and dqs: "0 \<le> dqs \<longleftrightarrow> (\<forall>i<8. 0 \<le> r ! i + pin_shift l r j (half_mid m) 0 i + 0)"
    and p: "write_placed cur S (pin_shift l r j (half_mid m) 0) s"
    and w: "in_window (\<lambda>x. lo 9 \<le> S + x \<and> S + x \<le> hi 9) (- 31) (31 - S) (S - write_position (cur (io s)) 9) margin"
  shows "write_centred lo hi S (0 \<le> dq \<and> 0 \<le> dqs \<and> 0 \<le> margin) (cur (io s))"
proof -
  let ?a = "\<lambda>i. max (S - 31) (lo i)" and ?b = "\<lambda>i. min 31 (hi i)" and ?sh = "pin_shift l r j (half_mid m) 0"
    and ?x = "write_position (cur (io s))"
  have r: "r ! i \<noteq> 32" if "i < 8" for i using none that by (auto simp: missing_window_None)
  have edges: "l ! i = S - ?a i \<and> r ! i = ?b i - S" and seen: "S - 31 \<le> ?a i \<and> ?a i \<le> ?b i \<and> ?b i \<le> 31" if "i < 8" for i
    using found r [OF that] win S that by (fastforce simp: right_found_def write_pins_def split: if_splits)+
  have x: "?x i = S - ?sh i" if "i < 8" for i using write_placed_position [OF p that] .
  have set: "?a i \<le> ?x i \<longleftrightarrow> ?a i \<le> S" "?x i \<le> ?b i" "\<bar>2 * ?x i - (?a i + ?b i)\<bar> \<le> 1 \<or> ?x i = S \<and> 2 * S < ?a i + ?b i"
    if "i < 8" for i
    using write_settings [where a = ?a and b = ?b, OF S seen edges m that] unfolding x [OF that] by blast+
  have ok: "0 \<le> dq \<and> 0 \<le> dqs \<longleftrightarrow> (\<forall>i<8. ?a i \<le> S)"
  proof -
    have "0 \<le> l ! i - ?sh i - 0 \<longleftrightarrow> ?a i \<le> S" "0 \<le> r ! i + ?sh i + 0" if "i < 8" for i
      using edges [OF that] set(1,2) [OF that] x [OF that] by linarith+
    then show ?thesis unfolding dq dqs by blast
  qed
  have reach: "?a i \<le> S \<longleftrightarrow> ?a i \<le> min S (hi i)" if "i < 8" for i using seen [OF that] by linarith
  have "lo 9 \<le> hi 9" using win by (simp add: write_pins_def)
  note mask = mask_settings [OF S w this, simplified]
  have good: "lo i \<le> ?x i \<and> ?x i \<le> hi i" if "i < 8" "?a i \<le> S" for i
    using set(1,2) [OF that(1)] that(2) by linarith
  show ?thesis
    unfolding write_centred_def Let_def write_pins_def
    using ok reach mask set(3) good p by (auto simp: write_placed_def eye_def)
qed

text \<open>After the searches: some bit has no window, or the pins and the strobe are set and the mask is centred.\<close>

context write_eye
begin

lemma out_gbl: "safe (write_placed cur d ds) (upd_gbl f)"
  by (simp add: safe_def write_placed_def data_pins_def eye_def)

lemma out_failed:
  assumes S: "0 \<le> S" "S \<le> 31" and found: "right_found lo hi S e" and "missing_window e = Some k"
  shows "write_centred lo hi S False c"
proof -
  obtain l r where e: "e = (l, r)" by (cases e)
  from assms(4) obtain i where i: "i < 8" "l ! i = 32 \<or> r ! i = 32"
    using missing_window_None [of l r] by (auto simp: e)
  then have "\<not> (S - 31 \<le> hi i \<and> lo i \<le> 31)" using found S by (auto simp: right_found_def e)
  then have "i \<in> write_pins" "\<not> max (S - 31) (lo i) \<le> min S (hi i)" using i(1) S by (auto simp: write_pins_def)
  then show ?thesis unfolding write_centred_def by blast
qed

lemma out_set:
  assumes S: "0 \<le> S" "S \<le> 31" and found: "right_found lo hi S e" and win: "\<forall>i \<in> write_pins. lo i \<le> hi i"
    and none: "missing_window e = None" and m: "min_mid e = (m, j)"
  shows "hoare (write_placed cur d (\<lambda>_. 0)) (do {
         (dq_margin, dqs_margin) \<leftarrow> level_dq_out M wg e j (half_mid m) 0;
         scc_mgr_apply_group_dqs_io_and_oct_out1 M wg (of_int S);
         iowr M SCC_MGR_UPD 0;
         dm_margin \<leftarrow> centre_dm M 0 wg S;
         upd_gbl (f dq_margin dqs_margin);
         iowr M SCC_MGR_UPD 0;
         ret (dq_margin \<ge> 0 \<and> dqs_margin \<ge> 0 \<and> dm_margin \<ge> 0) })
    (\<lambda>ok s. write_centred lo hi S ok (cur (io s)))"
proof -
  obtain l r where e: "e = (l, r)" by (cases e)
  let ?sh = "pin_shift l r j (half_mid m) 0"
  let ?w = "\<lambda>margin s. in_window (\<lambda>x. lo 9 \<le> S + x \<and> S + x \<le> hi 9) (- 31) (31 - S) (S - write_position (cur (io s)) 9) margin"
  note result = write_centredI [OF S found [unfolded e] win none [unfolded e] m [unfolded e]]
  have keep: "safe (\<lambda>s. write_placed cur S ?sh s \<and> ?w margin s) (upd_gbl (f dq dqs))"
    "safe (\<lambda>s. write_placed cur S ?sh s \<and> ?w margin s) (iowr M SCC_MGR_UPD 0)" for margin dq dqs
    using out_io(1) [of SCC_MGR_UPD S ?sh 0] out_gbl [of S ?sh "f dq dqs"]
    by (auto simp: safe_def write_position_def cur_wr write_held_def)
  have rest: "hoare (\<lambda>s. write_placed cur d ?sh s \<and> (0 \<le> dq \<longleftrightarrow> (\<forall>i<8. 0 \<le> l ! i - ?sh i - 0)) \<and>
       (0 \<le> dqs \<longleftrightarrow> (\<forall>i<8. 0 \<le> r ! i + ?sh i + 0))) (do {
         scc_mgr_apply_group_dqs_io_and_oct_out1 M wg (of_int S);
         iowr M SCC_MGR_UPD 0;
         dm_margin \<leftarrow> centre_dm M 0 wg S;
         upd_gbl (f dq dqs);
         iowr M SCC_MGR_UPD 0;
         ret (dq \<ge> 0 \<and> dqs \<ge> 0 \<and> dm_margin \<ge> 0) }) (\<lambda>ok s. write_centred lo hi S ok (cur (io s)))" for dq dqs
    by (intro hoare_pure_pre hoare_bind [OF out_strobe [OF S]] hoare_safe_bind [OF out_io(1)] hoare_bind [OF hoare_data_and_mask [OF S]]
        hoare_safe_bind [OF keep(1)] hoare_safe_bind [OF keep(2)] hoare_ret)
       (simp, blast intro: result)
  show ?thesis
    unfolding e level_dq_out_eq by (rule hoare_bind [OF wr.level]) (use rest in \<open>simp add: case_prod_unfold\<close>)
qed

lemma out_rest:
  assumes S: "0 \<le> S" "S \<le> 31" and win: "\<forall>i \<in> write_pins. lo i \<le> hi i"
  shows "hoare (\<lambda>s. (\<exists>d. write_placed cur d (\<lambda>_. 0) s) \<and> right_found lo hi S e) (case missing_window e of
       Some i \<Rightarrow> do {
         set_failing_group_stage (grp i) st sub;
         ret False
       }
     | None \<Rightarrow> case min_mid e of (m, j) \<Rightarrow> do {
         (dq_margin, dqs_margin) \<leftarrow> level_dq_out M wg e j (half_mid m) 0;
         scc_mgr_apply_group_dqs_io_and_oct_out1 M wg (of_int S);
         iowr M SCC_MGR_UPD 0;
         dm_margin \<leftarrow> centre_dm M 0 wg S;
         upd_gbl (f dq_margin dqs_margin);
         iowr M SCC_MGR_UPD 0;
         ret (dq_margin \<ge> 0 \<and> dqs_margin \<ge> 0 \<and> dm_margin \<ge> 0)
       }) (\<lambda>ok s. write_centred lo hi S ok (cur (io s)))"
proof (intro hoare_pure_pre hoare_ex, goal_cases)
  case (1 d)
  show ?case
  proof (cases "missing_window e")
    case None
    then show ?thesis
      using out_set [OF S 1 win None] by (cases "min_mid e") (simp only: option.case prod.case)
  next
    case (Some i)
    then show ?thesis
      by (simp only: option.case) (simp add: hoare_def split_beta out_failed [OF S 1 Some])
  qed
qed

end

text \<open>
  C12: What the centring of the written data and of the mask achieves.  On hardware that writes bit \<open>i\<close> of the group
  correctly exactly when the strobe delay less the delay of the pin is between \<open>lo i\<close> and \<open>hi i\<close>, and masks
  correctly in such a window too, the centring succeeds exactly when the delay chain of every pin can bring it into its
  window with the strobe where it is.  Then the strobe is where it was, every bit and the mask work, and each is
  within half a tap of the middle of the part of its window that the searches can see, or has no delay when
  the middle is beyond the strobe.
\<close>

theorem writes_centred:
  assumes law: "write_eye_law M cur lo hi" and g: "g < 4" and win: "\<forall>i \<in> write_pins. lo i \<le> hi i"
    and start: "write_placed cur S ds s" and S: "S \<le> 31"
    and run: "run_state (rw_mgr_mem_calibrate_writes_center M 0 g 0) s = (success, s')"
  shows "(success \<longleftrightarrow> (\<forall>i \<in> write_pins. max (S - 31) (lo i) \<le> min S (hi i))) \<and>
     (success \<longrightarrow> uint (cur (io s') (SCC_MGR_IO_OUT1_DELAY 8)) = S \<and>
        (\<forall>i \<in> write_pins. let x = write_position (cur (io s')) i; a = max (S - 31) (lo i); b = min 31 (hi i) in
           lo i \<le> x \<and> x \<le> hi i \<and> (\<bar>2 * x - (a + b)\<bar> \<le> 1 \<or> x = S \<and> 2 * S < a + b)))"
proof -
  note hw = write_eye.intro [OF law g]
  have S0: "0 \<le> S" using start by (auto simp: write_placed_def eye_def)
  have win8: "\<forall>i<8. lo i \<le> hi i" using win by (auto simp: write_pins_def)
  have read: "hoare (write_placed cur S ds) (iord M (SCC_MGR_IO_OUT1_DELAY RW_MGR_MEM_DQ_PER_WRITE_DQS))
      (\<lambda>v s. (\<exists>d ds. d = S \<and> write_placed cur d ds s) \<and> sint v = S)"
  proof (rule hoareI)
    fix t assume t: "write_placed cur S ds t"
    have "write_placed cur S ds (snd (run_state (iord M (SCC_MGR_IO_OUT1_DELAY 8)) t))"
      using write_eye.out_io(2) [OF hw] t unfolding safe_def by blast
    then show "(\<exists>d ds. d = S \<and> write_placed cur d ds (snd (run_state (iord M (SCC_MGR_IO_OUT1_DELAY RW_MGR_MEM_DQ_PER_WRITE_DQS)) t))) \<and>
        sint (fst (run_state (iord M (SCC_MGR_IO_OUT1_DELAY RW_MGR_MEM_DQ_PER_WRITE_DQS)) t)) = S"
      using t S by (auto simp: config_simps write_eye.reads [OF hw] write_placed_def eye_def sint_tap)
  qed
  have data: "hoare (\<lambda>s. (\<exists>d ds. d = S \<and> write_placed cur d ds s) \<and> left_found lo hi S e) (scc_mgr_apply_group_dq_out1_delay M g 0 0)
      (\<lambda>_ s. (\<exists>d ds. ds = (\<lambda>_. 0) \<and> write_placed cur d ds s) \<and> left_found lo hi S e)" for e
    using write_eye.out_data [OF hw, of 0] by (fastforce simp: hoare_def)
  have right: "hoare (\<lambda>s. (\<exists>d ds. ds = (\<lambda>_. 0) \<and> write_placed cur d ds s) \<and> left_found lo hi S e) (search_right_out M 0 g S (drop_right e))
      (\<lambda>e s. (\<exists>d. write_placed cur d (\<lambda>_. 0) s) \<and> right_found lo hi S e)" for e
    using write_eye.right_out [OF hw win8 S0 S] by (intro hoare_pure_pre) (auto simp: valid_def)
  note left = write_eye.left_out [OF hw win8, unfolded valid_def]
  have "hoare (write_placed cur S ds) (rw_mgr_mem_calibrate_writes_center M 0 g 0) (\<lambda>ok s. write_centred lo hi S ok (cur (io s)))"
    unfolding rw_mgr_mem_calibrate_writes_center_def Let_def
  proof (rule hoare_bind [OF read], rule hoare_pure_pre, simp only:)
  qed (intro hoare_bind [OF left] hoare_bind [OF data] hoare_bind [OF right] write_eye.out_rest [OF hw S0 S win])
  then have "write_centred lo hi S success (cur (io s'))"
    using start by (metis hoare_def run fst_conv snd_conv)
  then show ?thesis unfolding write_centred_def .
qed

text \<open>A register file with nine such pins.\<close>

definition write_eye_bus :: "(nat \<Rightarrow> int) \<Rightarrow> (nat \<Rightarrow> int) \<Rightarrow> (reg \<Rightarrow> u32) hwbus" where
  "write_eye_bus lo hi = \<lparr>
     bus_rd = (\<lambda>r h. (if r \<noteq> RW_MGR_RUN_SINGLE_GROUP 0 then h r
       else if h RW_MGR_LOAD_JUMP_ADD_1 = inst I_LFSR_WR_RD_DM_BANK_0_WAIT
       then (if lo 9 \<le> write_position h 9 \<and> write_position h 9 \<le> hi 9 then 0 else 0xff)
       else fold (\<lambda>i w. if \<not> (lo i \<le> write_position h i \<and> write_position h i \<le> hi i) then push_bit 1 w OR 1 else push_bit 1 w) (rev [0..<8]) 0, h)),
     bus_wr = (\<lambda>r v h. if write_held r then h(r := v) else h)\<rparr>"

interpretation eye_pins_out: write_eye "write_eye_bus lo hi" id 0 lo hi for lo hi
proof unfold_locales
  have "inst I_LFSR_WR_RD_BANK_0_WAIT \<noteq> inst I_LFSR_WR_RD_DM_BANK_0_WAIT" by simp
  then show "write_eye_law (write_eye_bus lo hi) id lo hi"
    by (auto simp: write_eye_law_def eye_law_def write_eye_bus_def bit_collect write_position_def)
qed simp

theorem writes_centred_witness:
  "let s = (start_seq ((\<lambda>_. 0)(SCC_MGR_IO_OUT1_DELAY 8 := 6)))\<lparr>param := (param (start_seq ()))\<lparr>write_correct_mask := 0xff,
             write_correct_mask_vg := 0xff\<rparr>\<rparr>;
       (success, s') = run_state (rw_mgr_mem_calibrate_writes_center (write_eye_bus (\<lambda>i. - 8) (\<lambda>i. if i = 9 then 24 else int i)) 0 0 0) s
   in success \<and> io s' (SCC_MGR_IO_OUT1_DELAY 8) = 6 \<and> io s' (SCC_MGR_IO_OUT1_DELAY 0) = 10 \<and> io s' (SCC_MGR_IO_OUT1_DELAY 9) = 0"
proof -
  let ?s = "(start_seq ((\<lambda>_. 0)(SCC_MGR_IO_OUT1_DELAY 8 := 6)))\<lparr>param := (param (start_seq ()))\<lparr>write_correct_mask := 0xff,
             write_correct_mask_vg := 0xff\<rparr>\<rparr>"
    and ?lo = "\<lambda>i :: nat. - 8 :: int" and ?hi = "\<lambda>i :: nat. if i = 9 then 24 else int i"
  obtain ok s' where run: "run_state (rw_mgr_mem_calibrate_writes_center (write_eye_bus ?lo ?hi) 0 0 0) ?s = (ok, s')"
    by (rule prod.exhaust)
  have placed: "write_placed id 6 (\<lambda>_. 0) ?s" by (auto simp: write_placed_def data_pins_def eye_def start_seq_def)
  have "\<forall>i \<in> write_pins. ?lo i \<le> ?hi i" by auto
  note r = writes_centred [OF eye_pins_out.law _ this placed _ run, unfolded id_apply Let_def]
  then have ok: ok by (auto simp: write_pins_def)
  let ?u = "\<lambda>i. uint (io s' (SCC_MGR_IO_OUT1_DELAY i))"
  have "?u 8 = 6" using r ok by simp
  moreover have "\<bar>2 * write_position (io s') 0 - - 8\<bar> \<le> 1 \<or> write_position (io s') 0 = 6 \<and> 12 < (- 8 :: int)"
    "\<bar>2 * write_position (io s') 9 - 16\<bar> \<le> 1 \<or> write_position (io s') 9 = 6 \<and> 12 < (16 :: int)"
    using r ok by (auto simp: write_pins_def dest!: bspec [where x = 0])
  moreover have "0 \<le> ?u 0" "0 \<le> ?u 9" by simp_all
  ultimately have "?u 8 = 6" "?u 0 = 10" "?u 9 = 0" unfolding write_position_def by auto
  with ok show ?thesis unfolding Let_def run by (simp add: word_uint_eq_iff)
qed

end
