(* ===== verification/SeqSpare.thy ===== *)
theory SeqSpare
  imports SeqRw
begin

text \<open>
  Functions of \<open>sequencer.c\<close> that are compiled for this board but called from nowhere: the group functions of the second
  output delay chain, setters of modes, a wait in nanoseconds, and the step of all read FIFOs of a group.  The board
  has no second chain and most of the setters have empty macros, so little of them is left; what
  they do write keeps the interface \<open>scc_bus\<close>.
\<close>

definition is_write_group_enabled_for_dm :: "u32 \<Rightarrow> u32" where
  "is_write_group_enabled_for_dm write_group = 1"

definition scc_mgr_set_dqs_bypass :: "'h hwbus \<Rightarrow> u32 \<Rightarrow> u32 \<Rightarrow> ('h, unit) cal" where
  "scc_mgr_set_dqs_bypass M write_group bypass = ret ()"

definition scc_mgr_set_dq_bypass :: "'h hwbus \<Rightarrow> u32 \<Rightarrow> u32 \<Rightarrow> u32 \<Rightarrow> ('h, unit) cal" where
  "scc_mgr_set_dq_bypass M write_group dq_in_group bypass = ret ()"

definition scc_mgr_set_rfifo_mode :: "'h hwbus \<Rightarrow> u32 \<Rightarrow> u32 \<Rightarrow> u32 \<Rightarrow> ('h, unit) cal" where
  "scc_mgr_set_rfifo_mode M write_group dq_in_group mode = ret ()"

definition scc_mgr_set_hhp_dqse_map :: "'h hwbus \<Rightarrow> ('h, unit) cal" where
  "scc_mgr_set_hhp_dqse_map M = iowr M (SCC_MGR_HHP_GLOBALS 1) 0"

definition scc_mgr_set_dm_bypass :: "'h hwbus \<Rightarrow> u32 \<Rightarrow> u32 \<Rightarrow> u32 \<Rightarrow> ('h, unit) cal" where
  "scc_mgr_set_dm_bypass M write_group dm bypass = ret ()"

subsection \<open>The second chain\<close>

definition scc_mgr_apply_group_dq_out2_delay :: "'h hwbus \<Rightarrow> u32 \<Rightarrow> u32 \<Rightarrow> u32 \<Rightarrow> ('h, unit) cal" where
  "scc_mgr_apply_group_dq_out2_delay M write_group group_bgn delay2 = for_each (\<lambda>i. do {
     scc_mgr_set_dq_out2_delay M write_group i delay2;
     scc_mgr_load_dq M i
   }) (range32 0 RW_MGR_MEM_DQ_PER_WRITE_DQS)"

definition scc_mgr_apply_group_dqs_io_and_oct_out2 :: "'h hwbus \<Rightarrow> u32 \<Rightarrow> u32 \<Rightarrow> ('h, unit) cal" where
  "scc_mgr_apply_group_dqs_io_and_oct_out2 M write_group delay = do {
     scc_mgr_set_dqs_out2_delay M write_group delay;
     scc_mgr_load_dqs_io M;
     scc_mgr_set_oct_out2_delay M write_group delay;
     scc_mgr_load_dqs_for_write_group M write_group
   }"

text \<open>The current delay of the missing chain reads as 0, so that every step is upwards.\<close>

definition scc_mgr_set_group_dqs_io_and_oct_out2_gradual :: "'h hwbus \<Rightarrow> u32 \<Rightarrow> u32 \<Rightarrow> ('h, unit) cal" where
  "scc_mgr_set_group_dqs_io_and_oct_out2_gradual M write_group delay = do {
     let d = 0;
     for_each (\<lambda>d. do {
       scc_mgr_apply_group_dqs_io_and_oct_out2 M write_group d;
       iowr M SCC_MGR_UPD 0
     }) (rev (range32 delay d));
     for_each (\<lambda>d. do {
       scc_mgr_apply_group_dqs_io_and_oct_out2 M write_group (d + 1);
       iowr M SCC_MGR_UPD 0
     }) (range32 (min d delay) delay)
   }"

subsection \<open>Waiting and stepping\<close>

definition ns_clocks :: "u32 \<Rightarrow> u32" where
  "ns_clocks nanoseconds = 1000 * nanoseconds div (1000000 div AFI_CLK_FREQ) * AFI_RATE_RATIO"

definition delay_for_n_ns :: "'h hwbus \<Rightarrow> u32 \<Rightarrow> ('h, unit) cal" where
  "delay_for_n_ns M nanoseconds = delay_for_n_mem_clocks M (ns_clocks nanoseconds)"

definition rw_mgr_incr_vfifo_all :: "'h hwbus \<Rightarrow> u32 \<Rightarrow> u32 \<Rightarrow> ('h, u32) cal" where
  "rw_mgr_incr_vfifo_all M grp v = rw_mgr_incr_vfifo M grp v"

text \<open>
  The number of clocks is rounded down, with a clock of 2493 picoseconds: the wait may be shorter than asked for, as for
  10 nanoseconds, but by less than a clock.
\<close>

lemma ns_clocks_bounds:
  assumes "unat ns < 4294967"
  shows "2493 * unat (ns_clocks ns) \<le> 1000 * unat ns" "1000 * unat ns < 2493 * (unat (ns_clocks ns) + 1)"
proof -
  have "unat (1000 * ns) = 1000 * unat ns" using assms by (simp add: unat_word_ariths)
  then have "unat (ns_clocks ns) = 1000 * unat ns div 2493"
    by (simp add: ns_clocks_def config_simps unat_div)
  then show "2493 * unat (ns_clocks ns) \<le> 1000 * unat ns" "1000 * unat ns < 2493 * (unat (ns_clocks ns) + 1)"
    by auto
qed

lemma ns_clocks_10: "unat (ns_clocks 10) * 1000 < 10 * 401"
  by (simp add: ns_clocks_def config_simps unat_div)

subsection \<open>The interface is kept\<close>

context scc_bus
begin

lemma safe_spare_setters [safe_intros]:
  "safe ok (scc_mgr_set_dqs_bypass M g b)" "safe ok (scc_mgr_set_dq_bypass M g i b)"
  "safe ok (scc_mgr_set_rfifo_mode M g i b)" "safe ok (scc_mgr_set_hhp_dqse_map M)" "safe ok (scc_mgr_set_dm_bypass M g i b)"
  by (auto simp: scc_mgr_set_dqs_bypass_def scc_mgr_set_dq_bypass_def scc_mgr_set_rfifo_mode_def
     scc_mgr_set_hhp_dqse_map_def scc_mgr_set_dm_bypass_def intro!: safe_intros)

lemma safe_spare_groups [safe_intros]:
  "safe ok (scc_mgr_apply_group_dq_out2_delay M g t d)" "safe ok (scc_mgr_apply_group_dqs_io_and_oct_out2 M g d)"
  by (auto simp: scc_mgr_apply_group_dq_out2_delay_def scc_mgr_apply_group_dqs_io_and_oct_out2_def
     scc_mgr_set_dq_out2_delay_def scc_mgr_set_dqs_out2_delay_def scc_mgr_set_oct_out2_delay_def
     intro!: safe_intros)

lemma safe_spare_moves [safe_intros]:
  "safe ok (scc_mgr_set_group_dqs_io_and_oct_out2_gradual M g d)" "safe ok (delay_for_n_ns M n)" "safe ok (rw_mgr_incr_vfifo_all M g v)"
  by (auto simp: scc_mgr_set_group_dqs_io_and_oct_out2_gradual_def delay_for_n_ns_def rw_mgr_incr_vfifo_all_def
     intro!: safe_intros)

end

end
