(* ===== verification/Spec2Isabelle.thy ===== *)
theory Spec2Isabelle
  imports Threads BallApp VgaCounters Lab1 SeqCal SeqAddr SeqCentre SeqWriteCentre SeqSpare
begin

text \<open>
  Verification of the programs of an embedded systems laboratory: a board that computes Collatz sequences
  (\<open>src/lab1\<close>), a chat client (\<open>src/lab2\<close>), a display peripheral with its driver and a program that uses it
  (\<open>src/lab3\<close>), and the calibration sequencer of the board's SDRAM
  (\<open>src/lab3/lab3-hw/hps_isw_handoff/soc_system_hps_0\<close>).  This theory collects the others
  and holds the property that spans the driver, the program and the peripheral of lab 3; each of the others opens with what
  it holds, and its theorems about the code begin with their number.

  \<^bold>\<open>The chat client.\<close>  A program on the board that reads a USB keyboard, shows the line being
  typed and the messages received on a framebuffer, and exchanges lines with a server.  Two threads
  share the screen.

  \<^item> \<open>Font\<close>, \<open>FrameBuffer\<close>: \<open>fbputchar.c\<close>.  The framebuffer is the memory the kernel maps, with the
    geometry it reports; drawing is a function on it that is \<open>None\<close> when it would leave the
    mapping or the font.  The lemmas give the loops in closed form, what a character, a string, the
    start screen and clearing draw, that drawings in different cells commute, and the errors of
    opening.
  \<^item> \<open>Display\<close>: \<open>display.c\<close>.  The state is the framebuffer with the position of the next message.
    The message loop restarts from the first character when the area is full, so it is a
    \<open>partial_function\<close>; it is proved for which messages it returns, what is then shown, and that the
    others run forever.
  \<^item> \<open>Keyboard\<close>: \<open>keyboard.c\<close>.  The edit buffer with its cursor refines an editor of two lists of
    characters; every sequence of keys keeps the invariant of the buffer, stays inside it and the
    screen, and keeps the line shown; Enter sends the line in pieces, for every behaviour of the
    socket, and what is offered to \<open>write\<close> lies inside the line.
  \<^item> \<open>UsbKeyboard\<close>: \<open>usbkeyboard.c\<close>.  The search for the first keyboard interface, with libusb's answers
    as a parameter.
  \<^item> \<open>ChatClient\<close>: \<open>lab2.c\<close>.  Start-up with its error exits, and one iteration of either thread as a
    function: the result of start-up in every case, which keys an iteration handles, at which clock
    readings a held key repeats, and that the network thread ends with its stream.
  \<^item> \<open>Threads\<close>: the two threads of \<open>lab2.c\<close> together.  They share the framebuffer without a lock and are interleaved
    at the single byte stores into it, in every order; each is a list of outstanding stores, characters and
    operations.  A thread that runs alone is proved to do what \<open>main_iteration\<close> and \<open>display_message\<close> do
    (\<open>main_alone\<close>, \<open>net_alone\<close>); for all schedules it is proved that no turn is undefined, that the threads never
    write the same byte, and what stays on the screen.  The calls of \<open>write\<close> for one line are one operation,
    since \<open>write\<close> itself may change the socket in any way.

  \<^bold>\<open>The ball.\<close>  A peripheral that shows a ball on a coloured background, its kernel driver, and a program
  that moves the ball.

  \<^item> \<open>VgaBall\<close>: the register block and the picture of \<open>vga_ball.sv\<close>, and \<open>vga_ball.c\<close>.  Probing
    and removal are call by call on what the kernel holds for the driver; the services of the kernel are
    parameters.  The error paths, the requests and the agreement of the driver's copy with the hardware
    are proved.
  \<^item> \<open>VgaCounters\<close>: the peripheral clock by clock, \<open>vga_counters\<close> of \<open>vga_ball.sv\<close> included: the video timing, and the
    picture on the screen for a position requested from the driver.
  \<^item> \<open>BallApp\<close>: \<open>hello.c\<close> on top of the driver; the position of every frame in closed form.

  \<^bold>\<open>The Collatz board.\<close>  Hardware that computes how many steps the numbers from a start value on take to come to 1,
  and shows the lengths on seven-segment digits.  Each module is a function from its inputs and registers to the
  registers after the clock edge; \<open>Clocked\<close> runs such a function over a sequence of inputs and is shared with the ball.

  \<^item> \<open>Collatz\<close>: the iterator \<open>collatz.sv\<close>, modulo \<open>2\<^sup>3\<^sup>2\<close>, against the sequence on the natural numbers; that all
    numbers the board can reach come to 1 with values that fit is proved by computation.
  \<^item> \<open>CollatzRange\<close>: \<open>range.sv\<close>, which fills its memory with 256 lengths; the phases of a run, the clock of its
    end, the contents of the memory, and the run from 0, which never ends.
  \<^item> \<open>Buttons\<close>: \<open>debouncer.sv\<close>, \<open>button_press.sv\<close> and \<open>hex7seg.sv\<close>; when a press shows, and the pulses of a held button.
  \<^item> \<open>Lab1\<close>: \<open>lab1.sv\<close> with all of these; from a press of the start button to the digits.

  \<^bold>\<open>The calibration sequencer.\<close>  At start-up it trains the SDRAM interface: for each of four groups of
  eight data pins it searches the delays and phases for which tests of the memory pass, and sets the
  middle of what it found; then it lowers the read latency, and reports success or the stage
  that failed.

  \<^item> \<open>SeqRom\<close>: the micro-program of the read/write manager (\<open>sequencer_auto.h\<close> and the two images).
  \<^item> \<open>SeqBase\<close>: configuration, registers, variables, the monad, loops, the rules for invariants,
    and the interface \<open>scc_bus\<close> to the scan chain manager.  The components prove, inside the
    interface, that they keep it: that every delay they write exists and is in range, that they
    never report a result, and that they do not forget a recorded failure.  The interface is
    interpreted on \<open>scc_file\<close>, which puts delay registers and a log of all writes in front of any
    hardware whatever.
  \<^item> \<open>SeqAddr\<close>: the addresses of the registers.
  \<^item> \<open>SeqScc\<close>: status, ranks and the functions that load delays.  \<open>SeqRw\<close>: power-up, waits and tests.
    \<open>SeqDqsEn\<close>: the search for the DQS enable window.  \<open>SeqRead\<close>: read calibration and latency.
    \<open>SeqWrite\<close>: write calibration.  \<open>SeqWlevel\<close>: write levelling, which the calibration of a group calls
    behind a test of the device that is false here; it is the one search that can set a
    delay out of range (\<open>wl_end_wraps\<close>).  Beside the range of the settings: the order of the commands at
    power-up, the waiting times, the centre of the DQS enable window, the smallest read latency, and that
    the data mask ends up in a longest window.
  \<^item> \<open>SeqEdges\<close>, \<open>SeqCentre\<close>, \<open>SeqWriteCentre\<close>: what the centring of the read and of the written data achieves on hardware
    with a window of working positions for each bit.  The locale \<open>pin_group\<close> is the interface between the searches and the
    movements and tests they use; the edges they find are proved once inside it, in closed form.  The read and the
    write calibration (\<open>read_eye\<close>, \<open>write_eye\<close>) are instances of it for all hardware with the law, and are
    interpreted on register files with arbitrary windows.
  \<^item> \<open>SeqSpare\<close>: functions that are compiled but never called.
  \<^item> \<open>SeqCal\<close>: the calibration of all groups and the entry points.  A complete run writes only legal
    settings and reports exactly one result, with a recorded stage when it fails.

  The hardware behind the registers is not in the repository.  It is a parameter of every operation,
  and the theorems on ranges and on the report hold for all of it behind a register file for the delays, which reads back
  what was written; the theorems that say what a search finds
  state what they rely on as a law of the hardware (\<open>idle_law\<close> for the waits, \<open>latency_law\<close>, \<open>eye_law\<close>, \<open>read_eye_law\<close>,
  \<open>write_eye_law\<close>, the layout of the address blocks), and a concrete hardware with that law is given beside each.

  \<^bold>\<open>Bounds.\<close>  The endless loops of the two threads are modelled by their iterations and, in \<open>Threads\<close>, by runs of any
  length; the network thread also as a whole, as a \<open>partial_function\<close> without fuel that is proved to return.  Loops over counters are over the list of their values, with the wrap-around of the counter where
  it matters (\<open>latencies\<close>, the bound of the search for the right edge).

  Clocked modules run for any number of clocks.

  \<^bold>\<open>Not modelled.\<close>  Code of the sequencer that the preprocessor removes for this board, which leaves some functions empty,
  its debugging output and reports; the generated hardware description of the system; the
  copies of the kernel headers; the addresses of three registers of the memory controller, which are in a header outside
  the repository; the C++ test benches of lab 1, which only drive its simulation.  A reset of the video
  counters acts at the next clock edge in the model, at once in the hardware.
\<close>

subsection \<open>From the driver to the picture\<close>

text \<open>
  C13: The ball demonstration as a whole.  When the kernel provides what the driver asks for, probing succeeds, and the program's
  requests are all served: it sets its dark blue background and runs through its frames.  Every video frame that the
  peripheral starts after the program has set its position for the frame \<open>k\<close>, and during which nothing is
  written, shows clock by clock the red disc of radius 16 around the point of the triangle waves between the walls, two pixels
  further per frame, on that background; at the right and the bottom wall the ball is shown two pixels before it.
\<close>

theorem bouncing_ball_shown:
  assumes "misc_register_rc K = 0" "of_address K \<noteq> None" "region_free K" "of_iomap_result K \<noteq> None"
    and ioc: "ioc_contract (iow_code E) (ior_code E)"
  shows "\<exists>s1 s2 s3. vga_ball_probe K s = Some (0, s1) \<and>
    set_background_color E \<lparr>red = 0, green = 0, blue = 0x40\<rparr> s1 = Some s2 \<and> frames E (Suc k) (start_ball, s2) = Some (ball_at (Suc k), s3) \<and>
    (\<forall>v inp t. regs v = hw s3 \<longrightarrow> cnt v = \<lparr>hcount = 0, vcount = 0\<rparr> \<longrightarrow> (\<forall>j<t. quiet (inp j)) \<longrightarrow> t < 840000 \<longrightarrow>
       vga_rgb (run vga_ball_step inp v t) =
         (let x = int (t mod 1600 div 2); y = int (t div 1600); wx = wave 640 (320 + 2 * int k); wy = wave 480 (240 + 2 * int k);
              px = (if wx = 640 then 638 else wx); py = (if wy = 480 then 478 else wy)
          in if 640 \<le> x \<or> 480 \<le> y then black
             else if (x - px)\<^sup>2 + (y - py)\<^sup>2 \<le> 256 then \<lparr>red = 0xff, green = 0, blue = 0\<rparr>
             else \<lparr>red = 0, green = 0, blue = 0x40\<rparr>))"
proof -
  let ?c = "\<lparr>red = 0, green = 0, blue = 0x40\<rparr> :: color"
  obtain s1 where s1: "vga_ball_probe K s = Some (0, s1)" "in_service s1" using probe_success [OF assms(1-4)] by blast
  obtain s2 where s2: "set_background_color E ?c s1 = Some s2" "in_service s2" "hw_color (hw s2) = ?c"
    using write_background_eq [OF s1(2), of ?c] s1(2) set_background_color_eq [OF s1(2)] by (auto simp: in_service_def)
  obtain s3 where s3: "frames E (Suc k) (start_ball, s2) = Some (ball_at (Suc k), s3)" "shows_ball (ball_at k) s3" "hw_color (hw s3) = ?c"
    using frames_from_start [OF ioc s2(2), of k] s2(3) by auto
  let ?x = "shown 640 (wave 640 (320 + 2 * int k))" and ?y = "shown 480 (wave 480 (240 + 2 * int k))"
  have pos: "uint (hw_x (hw s3)) = ?x" "uint (hw_y (hw s3)) = ?y" using s3(2) by (simp_all add: shows_ball_def ball_at_def)
  moreover have "?x < 1024" "?y < 1024" using ball_on_screen [of k] by (auto simp: shown_def ball_at_def)
  ultimately have "vga_rgb (run vga_ball_step inp v t) = disc_frame ?x ?y ?c t"
    if "regs v = hw s3" "cnt v = \<lparr>hcount = 0, vcount = 0\<rparr>" "\<forall>j<t. quiet (inp j)" "t < 840000" for v inp t
    using frame_disc [of v t inp] that s3(3) by simp
  then show ?thesis
    using s1(1) s2(1) s3(1) by (auto simp: disc_frame_def shown_def Let_def simp del: frames.simps)
qed

theorem bouncing_ball_shown_witness:
  "\<exists>s1 s2 s3. vga_ball_probe good_kernel fresh_drv = Some (0, s1) \<and>
     set_background_color test_env \<lparr>red = 0, green = 0, blue = 0x40\<rparr> s1 = Some s2 \<and>
     frames test_env (Suc 160) (start_ball, s2) = Some (ball_at (Suc 160), s3) \<and>
     vga_rgb (run vga_ball_step (\<lambda>_. idle_in) \<lparr>regs = hw s3, cnt = \<lparr>hcount = 0, vcount = 0\<rparr>\<rparr> (400 * 1600 + 1270)) = \<lparr>red = 0xff, green = 0, blue = 0\<rparr>"
proof -
  have q: "quiet idle_in" by (simp add: quiet_def idle_in_def)
  have "misc_register_rc good_kernel = 0" "of_address good_kernel \<noteq> None" "region_free good_kernel" "of_iomap_result good_kernel \<noteq> None"
    by (simp_all add: good_kernel_def)
  from bouncing_ball_shown [OF this test_env_ok, of fresh_drv 160] q show ?thesis
    by (fastforce simp: wave_def simp del: frames.simps run.simps)
qed

end
